(* ===== verification/Prelude.thy ===== *)
theory Prelude
  imports Main "HOL-Library.Word"
begin

text \<open>
  Shared vocabulary of the development: the machine integer types of the C++ sources, the result
  type of code that can hit a failed assertion or undefined behaviour, sequencing of fallible
  actions, and the generic facts on lists, options and words that the component theories use.
\<close>

named_theorems step_simps \<open>equations that run one operation of a component\<close>
named_theorems inv_intros \<open>invariant preservation rules\<close>

type_synonym u8 = "8 word"
type_synonym u16 = "16 word"
type_synonym u32 = "32 word"
type_synonym u64 = "64 word"

text \<open>
  The ways the modelled code can stop being meaningful: a failed CPL_SYSTEM_ASSERT, a call of
  Cpl::System::FatalError, the use of a pointer to an object whose lifetime ended, a conversion
  that C++ leaves undefined, an array access outside of its bounds, a floating point result that is
  not finite. \<open>OutOfFuel\<close> belongs to the model only.
\<close>

datatype failure =
    AssertFailed
  | FatalError
  | DanglingPointer
  | UndefinedConversion
  | OutOfBounds
  | NonFinite
  | OutOfFuel

type_synonym 'a result = "failure + 'a"

definition bindR :: "'a result \<Rightarrow> ('a \<Rightarrow> 'b result) \<Rightarrow> 'b result" where
  "bindR m f = (case m of Inl e \<Rightarrow> Inl e | Inr x \<Rightarrow> f x)"

lemma bindR_simps [simp]:
  "bindR (Inl e) f = Inl e"
  "bindR (Inr x) f = f x"
  by (simp_all add: bindR_def)

lemma bindR_eq_Inr [simp]: "bindR m f = Inr y \<longleftrightarrow> (\<exists>x. m = Inr x \<and> f x = Inr y)"
  by (cases m) auto

lemma bindR_cong [fundef_cong]:
  "m = m' \<Longrightarrow> (\<And>x. m' = Inr x \<Longrightarrow> f x = f' x) \<Longrightarrow> bindR m f = bindR m' f'"
  by (cases m') auto

text \<open>Running a program: the continuation is not simplified before its argument is known.\<close>

lemma bindR_weak_cong: "m = m' \<Longrightarrow> bindR m f = bindR m' f"
  by simp

lemma bindR_assoc: "bindR (bindR m f) g = bindR m (\<lambda>x. bindR (f x) g)"
  by (cases m) auto

lemma bindR_Inr [simp]: "bindR m Inr = m"
  by (cases m) simp_all

definition guardR :: "failure \<Rightarrow> bool \<Rightarrow> unit result" where
  "guardR e b = (if b then Inr () else Inl e)"

lemma guardR_simps [simp]: "guardR e True = Inr ()" "guardR e False = Inl e"
  by (simp_all add: guardR_def)

lemma guardR_eq_Inr [simp]: "guardR e b = Inr u \<longleftrightarrow> b"
  by (simp add: guardR_def)

text \<open>
  A loop whose end is not evident is a partial function with values in \<open>'a result option\<close>; not returning
  is the value None. Sequencing for such code:
\<close>

definition bindOR :: "'a result option \<Rightarrow> ('a \<Rightarrow> 'b result option) \<Rightarrow> 'b result option" where
  "bindOR m f = Option.bind m (\<lambda>r. case r of Inl e \<Rightarrow> Some (Inl e) | Inr x \<Rightarrow> f x)"

lemma bindOR_simps [simp]:
  "bindOR None f = None"
  "bindOR (Some (Inl e)) f = Some (Inl e)"
  "bindOR (Some (Inr x)) f = f x"
  by (simp_all add: bindOR_def)

lemma bindOR_Inr [simp]: "bindOR m (\<lambda>s. Some (Inr s)) = m"
  by (auto simp: bindOR_def split: option.split sum.split bind_split)

lemma bindOR_mono [partial_function_mono]:
  assumes "mono_option m" "\<And>x. mono_option (\<lambda>g. f g x)"
  shows "mono_option (\<lambda>g. bindOR (m g) (f g))"
  unfolding bindOR_def
proof (rule bind_mono [OF assms(1)])
  fix r :: "'c result"
  show "mono_option (\<lambda>g. case r of Inl e \<Rightarrow> Some (Inl e) | Inr x \<Rightarrow> f g x)"
    using assms(2) by (cases r) (simp_all add: monotone_def flat_ord_def)
qed

text \<open>Code that does not return has no result; the model marks it with its own failure.\<close>

definition returned :: "'a result option \<Rightarrow> 'a result" where
  "returned m = (case m of None \<Rightarrow> Inl OutOfFuel | Some r \<Rightarrow> r)"

lemma returned_simps [simp]: "returned None = Inl OutOfFuel" "returned (Some r) = r"
  by (simp_all add: returned_def)

text \<open>Matching outcomes: the same failure, or related results.\<close>

definition refines :: "('s \<Rightarrow> 'a \<Rightarrow> bool) \<Rightarrow> 's result option \<Rightarrow> 'a result \<Rightarrow> bool" where
  "refines P m M \<longleftrightarrow> (case M of Inl e \<Rightarrow> m = Some (Inl e) | Inr a \<Rightarrow> \<exists>s. m = Some (Inr s) \<and> P s a)"

lemma refines_simps [simp]:
  "refines P (Some (Inl e)) (Inl e)"
  "refines P (Some (Inr s)) (Inr a) \<longleftrightarrow> P s a"
  by (auto simp: refines_def)

lemma refines_bind:
  assumes "refines P m M" "\<And>s a. P s a \<Longrightarrow> refines Q (f s) (g a)"
  shows "refines Q (bindOR m f) (bindR M g)"
proof (cases M)
  case (Inr a)
  then obtain s where "m = Some (Inr s)" "P s a"
    using assms(1) by (auto simp: refines_def)
  then show ?thesis
    using assms(2) Inr by simp
qed (use assms(1) in \<open>simp add: refines_def\<close>)

subsection \<open>Lists\<close>

lemma upt_add_eq_map: "[m..<m + n] = map (\<lambda>k. m + k) [0..<n]"
  by (simp add: map_add_upt add.commute)

lemma map_upt_snoc: "map f [0..<Suc n] = map f [0..<n] @ [f n]"
  by simp

lemma map_upt_Cons: "0 < n \<Longrightarrow> map f [0..<n] = f 0 # map (\<lambda>k. f (Suc k)) [0..<n - 1]"
proof -
  assume "0 < n"
  then obtain m where n: "n = Suc m" by (cases n) auto
  show ?thesis
    by (simp add: n upt_conv_Cons map_Suc_upt [symmetric] del: upt_Suc map_Suc_upt)
qed

lemma mod_below_twice: "i < 2 * n \<Longrightarrow> i mod n = (if i < n then i else i - n)" for i n :: nat
  by (auto simp: le_mod_geq)

subsection \<open>Words\<close>

lemma unat_below: "unat (w :: 'a::len word) < 2 ^ LENGTH('a)"
  by (rule unsigned_less)

lemma unat_word_add_no_wrap:
  fixes a b :: "'a::len word"
  shows "unat a + unat b < 2 ^ LENGTH('a) \<Longrightarrow> unat (a + b) = unat a + unat b"
  by (simp add: unat_word_ariths)

lemma unat_of_nat_small: "n < 2 ^ LENGTH('a) \<Longrightarrow> unat (of_nat n :: 'a::len word) = n"
  by (simp add: unat_of_nat)

lemma uint_less_numeral: "uint (w :: 'a::len word) < numeral k \<longleftrightarrow> unat w < numeral k"
proof -
  have "uint w = int (unat w)" by simp
  then show ?thesis by (simp only: of_nat_less_numeral_iff)
qed

lemma unat_word_sub_no_wrap:
  fixes a b :: "'a::len word"
  shows "unat b \<le> unat a \<Longrightarrow> unat (a - b) = unat a - unat b"
  by (simp add: unat_sub word_le_nat_alt)

subsection \<open>Sequences of operations\<close>

text \<open>A sequence of operations with their answers; it stops at the first failure.\<close>

fun run_ops :: "('op \<Rightarrow> 's \<Rightarrow> ('r \<times> 's) result) \<Rightarrow> 'op list \<Rightarrow> 's \<Rightarrow> ('r list \<times> 's) result" where
  "run_ops step [] s = Inr ([], s)"
| "run_ops step (x # xs) s =
     bindR (step x s) (\<lambda>(r, s). bindR (run_ops step xs s) (\<lambda>(rs, s). Inr (r # rs, s)))"

lemma run_ops_append:
  "run_ops step (xs @ ys) s = bindR (run_ops step xs s) (\<lambda>(rs, s). bindR (run_ops step ys s) (\<lambda>(rs', s). Inr (rs @ rs', s)))"
  by (induction xs arbitrary: s) (auto simp: bindR_def split: sum.split prod.split)

lemma run_ops_keeps:
  "(\<And>x s r s'. step x s = Inr (r, s') \<Longrightarrow> f s' = f s) \<Longrightarrow> run_ops step xs s = Inr (rs, s') \<Longrightarrow> f s' = f s"
proof (induction xs arbitrary: s rs)
  case (Cons x xs)
  then obtain r s1 rs1 where "step x s = Inr (r, s1)" "run_ops step xs s1 = Inr (rs1, s')"
    by auto
  then show ?case
    using Cons.IH Cons.prems(1) by metis
qed simp

text \<open>All operations are called in states that meet their preconditions.\<close>

fun legal_ops :: "('op \<Rightarrow> 's \<Rightarrow> bool) \<Rightarrow> ('op \<Rightarrow> 's \<Rightarrow> ('r \<times> 's) result) \<Rightarrow> 'op list \<Rightarrow> 's \<Rightarrow> bool" where
  "legal_ops legal step [] s = True"
| "legal_ops legal step (x # xs) s =
     (legal x s \<and> (case step x s of Inl e \<Rightarrow> True | Inr (r, s) \<Rightarrow> legal_ops legal step xs s))"

lemma legal_ops_True [simp]: "legal_ops (\<lambda>_ _. True) step xs s"
  by (induction xs arbitrary: s) (auto split: sum.split)

text \<open>
  The contract between the implementation of a component and its specification: related states stay
  related, with the same answers and the same failures, as long as the preconditions are met.
\<close>

locale refinement =
  fixes related :: "'c \<Rightarrow> 'a \<Rightarrow> bool"
    and legal :: "'op \<Rightarrow> 'a \<Rightarrow> bool"
    and impl :: "'op \<Rightarrow> 'c \<Rightarrow> ('r \<times> 'c) result"
    and spec :: "'op \<Rightarrow> 'a \<Rightarrow> ('r \<times> 'a) result"
  assumes step_fails: "related c a \<Longrightarrow> legal x a \<Longrightarrow> spec x a = Inl e \<Longrightarrow> impl x c = Inl e"
    and step_works: "related c a \<Longrightarrow> legal x a \<Longrightarrow> spec x a = Inr (r, a') \<Longrightarrow>
      \<exists>c'. impl x c = Inr (r, c') \<and> related c' a'"
begin

lemma run_fails: "related c a \<Longrightarrow> legal_ops legal spec xs a \<Longrightarrow> run_ops spec xs a = Inl e \<Longrightarrow> run_ops impl xs c = Inl e"
proof (induction xs arbitrary: c a)
  case (Cons x xs)
  show ?case
  proof (cases "spec x a")
    case (Inl e')
    then show ?thesis
      using Cons.prems step_fails by simp
  next
    case (Inr s)
    obtain r a' where s: "s = (r, a')"
      by fastforce
    then obtain c' where c': "impl x c = Inr (r, c')" "related c' a'"
      using step_works Cons.prems Inr by fastforce
    moreover have "run_ops spec xs a' = Inl e" "legal_ops legal spec xs a'"
      using Cons.prems Inr s by (auto simp: bindR_def split: sum.splits)
    ultimately show ?thesis
      using Cons.IH by simp
  qed
qed simp

lemma run_works:
  "related c a \<Longrightarrow> legal_ops legal spec xs a \<Longrightarrow> run_ops spec xs a = Inr (rs, a') \<Longrightarrow>
   \<exists>c'. run_ops impl xs c = Inr (rs, c') \<and> related c' a'"
proof (induction xs arbitrary: c a rs)
  case (Cons x xs)
  then obtain r a1 rs' where a1: "spec x a = Inr (r, a1)" "run_ops spec xs a1 = Inr (rs', a')" "rs = r # rs'"
    by auto
  then obtain c1 where "impl x c = Inr (r, c1)" "related c1 a1"
    using step_works Cons.prems by fastforce
  then show ?case
    using Cons.IH [of c1 a1 rs'] Cons.prems(2) a1 by fastforce
qed simp

lemma run_exact:
  "related c a \<Longrightarrow> legal_ops legal spec xs a \<Longrightarrow> run_ops impl xs c = Inr (rs, c') \<Longrightarrow>
   \<exists>a'. run_ops spec xs a = Inr (rs, a') \<and> related c' a'"
  using run_fails run_works by (cases "run_ops spec xs a") fastforce+

end

end
