(* ===== verification/Checksum_Crc.thy ===== *)
theory Checksum_Crc
  imports Prelude
begin

text \<open>
  The 32 bit Ethernet CRC (src/src/Cpl/Checksum/Crc32EthernetFast.cpp). The table driven computation is proved equal to
  the division of the message by the generator polynomial, one bit at a time. From that follow the two facts that the
  persistent storage relies on: a message followed by its checksum passes the check, and no change inside four
  consecutive bytes of a message goes unnoticed.
\<close>

unbundle bit_operations_syntax

subsection \<open>Crc32EthernetFast\<close>

definition crc_table :: "u32 list" where
  "crc_table = [
    0x00000000, 0x04C11DB7, 0x09823B6E, 0x0D4326D9, 0x130476DC, 0x17C56B6B, 0x1A864DB2, 0x1E475005,
    0x2608EDB8, 0x22C9F00F, 0x2F8AD6D6, 0x2B4BCB61, 0x350C9B64, 0x31CD86D3, 0x3C8EA00A, 0x384FBDBD,
    0x4C11DB70, 0x48D0C6C7, 0x4593E01E, 0x4152FDA9, 0x5F15ADAC, 0x5BD4B01B, 0x569796C2, 0x52568B75,
    0x6A1936C8, 0x6ED82B7F, 0x639B0DA6, 0x675A1011, 0x791D4014, 0x7DDC5DA3, 0x709F7B7A, 0x745E66CD,
    0x9823B6E0, 0x9CE2AB57, 0x91A18D8E, 0x95609039, 0x8B27C03C, 0x8FE6DD8B, 0x82A5FB52, 0x8664E6E5,
    0xBE2B5B58, 0xBAEA46EF, 0xB7A96036, 0xB3687D81, 0xAD2F2D84, 0xA9EE3033, 0xA4AD16EA, 0xA06C0B5D,
    0xD4326D90, 0xD0F37027, 0xDDB056FE, 0xD9714B49, 0xC7361B4C, 0xC3F706FB, 0xCEB42022, 0xCA753D95,
    0xF23A8028, 0xF6FB9D9F, 0xFBB8BB46, 0xFF79A6F1, 0xE13EF6F4, 0xE5FFEB43, 0xE8BCCD9A, 0xEC7DD02D,
    0x34867077, 0x30476DC0, 0x3D044B19, 0x39C556AE, 0x278206AB, 0x23431B1C, 0x2E003DC5, 0x2AC12072,
    0x128E9DCF, 0x164F8078, 0x1B0CA6A1, 0x1FCDBB16, 0x018AEB13, 0x054BF6A4, 0x0808D07D, 0x0CC9CDCA,
    0x7897AB07, 0x7C56B6B0, 0x71159069, 0x75D48DDE, 0x6B93DDDB, 0x6F52C06C, 0x6211E6B5, 0x66D0FB02,
    0x5E9F46BF, 0x5A5E5B08, 0x571D7DD1, 0x53DC6066, 0x4D9B3063, 0x495A2DD4, 0x44190B0D, 0x40D816BA,
    0xACA5C697, 0xA864DB20, 0xA527FDF9, 0xA1E6E04E, 0xBFA1B04B, 0xBB60ADFC, 0xB6238B25, 0xB2E29692,
    0x8AAD2B2F, 0x8E6C3698, 0x832F1041, 0x87EE0DF6, 0x99A95DF3, 0x9D684044, 0x902B669D, 0x94EA7B2A,
    0xE0B41DE7, 0xE4750050, 0xE9362689, 0xEDF73B3E, 0xF3B06B3B, 0xF771768C, 0xFA325055, 0xFEF34DE2,
    0xC6BCF05F, 0xC27DEDE8, 0xCF3ECB31, 0xCBFFD686, 0xD5B88683, 0xD1799B34, 0xDC3ABDED, 0xD8FBA05A,
    0x690CE0EE, 0x6DCDFD59, 0x608EDB80, 0x644FC637, 0x7A089632, 0x7EC98B85, 0x738AAD5C, 0x774BB0EB,
    0x4F040D56, 0x4BC510E1, 0x46863638, 0x42472B8F, 0x5C007B8A, 0x58C1663D, 0x558240E4, 0x51435D53,
    0x251D3B9E, 0x21DC2629, 0x2C9F00F0, 0x285E1D47, 0x36194D42, 0x32D850F5, 0x3F9B762C, 0x3B5A6B9B,
    0x0315D626, 0x07D4CB91, 0x0A97ED48, 0x0E56F0FF, 0x1011A0FA, 0x14D0BD4D, 0x19939B94, 0x1D528623,
    0xF12F560E, 0xF5EE4BB9, 0xF8AD6D60, 0xFC6C70D7, 0xE22B20D2, 0xE6EA3D65, 0xEBA91BBC, 0xEF68060B,
    0xD727BBB6, 0xD3E6A601, 0xDEA580D8, 0xDA649D6F, 0xC423CD6A, 0xC0E2D0DD, 0xCDA1F604, 0xC960EBB3,
    0xBD3E8D7E, 0xB9FF90C9, 0xB4BCB610, 0xB07DABA7, 0xAE3AFBA2, 0xAAFBE615, 0xA7B8C0CC, 0xA379DD7B,
    0x9B3660C6, 0x9FF77D71, 0x92B45BA8, 0x9675461F, 0x8832161A, 0x8CF30BAD, 0x81B02D74, 0x857130C3,
    0x5D8A9099, 0x594B8D2E, 0x5408ABF7, 0x50C9B640, 0x4E8EE645, 0x4A4FFBF2, 0x470CDD2B, 0x43CDC09C,
    0x7B827D21, 0x7F436096, 0x7200464F, 0x76C15BF8, 0x68860BFD, 0x6C47164A, 0x61043093, 0x65C52D24,
    0x119B4BE9, 0x155A565E, 0x18197087, 0x1CD86D30, 0x029F3D35, 0x065E2082, 0x0B1D065B, 0x0FDC1BEC,
    0x3793A651, 0x3352BBE6, 0x3E119D3F, 0x3AD08088, 0x2497D08D, 0x2056CD3A, 0x2D15EBE3, 0x29D4F654,
    0xC5A92679, 0xC1683BCE, 0xCC2B1D17, 0xC8EA00A0, 0xD6AD50A5, 0xD26C4D12, 0xDF2F6BCB, 0xDBEE767C,
    0xE3A1CBC1, 0xE760D676, 0xEA23F0AF, 0xEEE2ED18, 0xF0A5BD1D, 0xF464A0AA, 0xF9278673, 0xFDE69BC4,
    0x89B8FD09, 0x8D79E0BE, 0x803AC667, 0x84FBDBD0, 0x9ABC8BD5, 0x9E7D9662, 0x933EB0BB, 0x97FFAD0C,
    0xAFB010B1, 0xAB710D06, 0xA6322BDF, 0xA2F33668, 0xBCB4666D, 0xB8757BDA, 0xB5365D03, 0xB1F740B4]"

definition Crc32_reset :: "u32" where
  "Crc32_reset = NOT 0"

definition crc_byte :: "u8 \<Rightarrow> u32 \<Rightarrow> u32" where
  "crc_byte b m_crc =
     (let temp = b XOR ucast (drop_bit 24 m_crc)
      in crc_table ! unat temp XOR push_bit 8 m_crc)"

definition Crc32_accumulate :: "u8 list \<Rightarrow> u32 \<Rightarrow> u32" where
  "Crc32_accumulate bytes m_crc = fold crc_byte bytes m_crc"

definition Crc32_finalize :: "u32 \<Rightarrow> u8 list" where
  "Crc32_finalize m_crc =
     [ucast (drop_bit 24 m_crc), ucast (drop_bit 16 m_crc), ucast (drop_bit 8 m_crc), ucast m_crc]"

definition Crc32_isOkay :: "u32 \<Rightarrow> bool" where
  "Crc32_isOkay m_crc \<longleftrightarrow> m_crc = 0"

subsection \<open>Division by the polynomial\<close>

text \<open>One bit of the division: shift, and subtract the polynomial when a one falls out.\<close>

definition crc_bit :: "u32 \<Rightarrow> u32" where
  "crc_bit c = push_bit 1 c XOR (if bit c 31 then 0x04C11DB7 else 0)"

abbreviation crc_bits :: "nat \<Rightarrow> u32 \<Rightarrow> u32" where
  "crc_bits n \<equiv> crc_bit ^^ n"

lemma xor_right_cancel: "a XOR c = b XOR c \<longleftrightarrow> a = b" for a b c :: "'a::len word"
  by (metis xor.assoc xor.right_neutral xor_self_eq)

lemma xor_left_cancel: "c XOR a = c XOR b \<longleftrightarrow> a = b" for a b c :: "'a::len word"
  by (simp add: xor.commute [of c] xor_right_cancel)

lemma no_high_bit: "32 \<le> n \<Longrightarrow> \<not> bit w n" for w :: u32
  using bit_imp_le_length [of w n] by auto

lemma crc_bit_xor: "crc_bit (a XOR b) = crc_bit a XOR crc_bit b"
  by (simp add: crc_bit_def bit_xor_iff push_bit_xor ac_simps)

lemma crc_bits_xor: "crc_bits n (a XOR b) = crc_bits n a XOR crc_bits n b"
  by (induction n) (simp_all add: crc_bit_xor)

lemma crc_bits_push: "(\<And>k. k < n \<Longrightarrow> \<not> bit c (31 - k)) \<Longrightarrow> n \<le> 32 \<Longrightarrow> crc_bits n c = push_bit n c"
proof (induction n)
  case (Suc n)
  have "\<not> bit (push_bit n c) 31"
    using Suc.prems by (simp add: bit_push_bit_iff)
  then show ?case
    using Suc by (simp add: crc_bit_def push_bit_double)
qed simp

lemma crc_bits_0 [simp]: "crc_bits n 0 = 0"
  by (induction n) (simp_all add: crc_bit_def)

lemma crc_table_rows: "crc_table = concat (map (\<lambda>c. [crc_bit c, crc_bit c XOR 0x04C11DB7]) (take 128 crc_table))"
  by (simp add: crc_table_def crc_bit_def)

lemma length_crc_table: "length crc_table = 256"
  by (simp add: crc_table_def)

lemma nth_pairs:
  "i < length xs \<Longrightarrow> concat (map (\<lambda>c. [f c, g c]) xs) ! (2 * i) = f (xs ! i)"
  "i < length xs \<Longrightarrow> concat (map (\<lambda>c. [f c, g c]) xs) ! Suc (2 * i) = g (xs ! i)"
  by (induction xs arbitrary: i) (auto simp: nth_Cons split: nat.splits)

lemma crc_table_nth:
  "i < 128 \<Longrightarrow> crc_table ! (2 * i) = crc_bit (crc_table ! i)"
  "i < 128 \<Longrightarrow> crc_table ! Suc (2 * i) = crc_bit (crc_table ! i) XOR 0x04C11DB7"
  using nth_pairs [of i "take 128 crc_table" crc_bit "\<lambda>c. crc_bit c XOR 0x04C11DB7"]
  by (simp_all add: length_crc_table flip: crc_table_rows)

text \<open>Each entry of the table is the division of one byte.\<close>

lemma crc_table_bits: "i < 256 \<Longrightarrow> crc_table ! i = crc_bits 8 (push_bit 24 (word_of_nat i))"
proof (induction i rule: less_induct)
  case (less i)
  show ?case
  proof (cases "i = 0")
    case True
    then show ?thesis
      by (simp add: crc_table_def)
  next
    case False
    define j where "j = i div 2"
    have j: "j < i" "j < 128" "i = 2 * j \<or> i = Suc (2 * j)"
      using less.prems False by (auto simp: j_def)
    let ?w = "word_of_nat j :: u32"
    have "\<not> bit j 7"
      using j(2) by (simp add: bit_iff_odd)
    then have "\<not> bit (push_bit 24 ?w) 31"
      by (simp add: bit_simps)
    then have shift: "push_bit 24 (word_of_nat (2 * j)) = crc_bit (push_bit 24 ?w)"
      by (simp add: crc_bit_def push_bit_eq_mult)
    have even: "crc_bits 8 (push_bit 24 (word_of_nat (2 * j))) = crc_bit (crc_table ! j)"
      using less.IH [OF j(1)] j(2) unfolding shift by (simp add: funpow_swap1)
    have one: "crc_bits 8 (push_bit 24 1) = 0x04C11DB7"
      by code_simp
    have "word_of_nat (Suc (2 * j)) = word_of_nat (2 * j) XOR (1 :: u32)"
      by (simp add: xor_one_eq)
    then have "push_bit 24 (word_of_nat (Suc (2 * j))) = push_bit 24 (word_of_nat (2 * j)) XOR (push_bit 24 1 :: u32)"
      by (simp only: push_bit_xor)
    then have odd: "crc_bits 8 (push_bit 24 (word_of_nat (Suc (2 * j)))) = crc_bit (crc_table ! j) XOR 0x04C11DB7"
      by (simp only: crc_bits_xor even one)
    show ?thesis
      using j(3) even odd crc_table_nth [OF j(2)] by auto
  qed
qed

lemma crc_byte_bits: "crc_byte b c = crc_bits 8 (c XOR push_bit 24 (ucast b))"
proof -
  let ?t = "b XOR ucast (drop_bit 24 c)" and ?low = "take_bit 24 c"
  have split: "c XOR push_bit 24 (ucast b) = push_bit 24 (ucast ?t) XOR ?low"
    by (rule bit_word_eqI) (auto simp: bit_simps)
  have "crc_table ! unat ?t = crc_bits 8 (push_bit 24 (ucast ?t))"
    using crc_table_bits [of "unat ?t"] unsigned_less [of ?t] by simp
  moreover have "crc_bits 8 ?low = push_bit 8 ?low"
    by (rule crc_bits_push) (auto simp: bit_simps)
  moreover have "push_bit 8 ?low = push_bit 8 c"
    by (rule bit_word_eqI) (auto simp: bit_simps)
  ultimately show ?thesis
    unfolding split crc_bits_xor by (simp add: crc_byte_def Let_def)
qed

lemma crc_bit_eq_0: "crc_bit x = 0 \<longleftrightarrow> x = 0"
proof
  assume z: "crc_bit x = 0"
  have "bit (crc_bit x) 0 \<longleftrightarrow> bit x 31"
    unfolding crc_bit_def bit_xor_iff by (simp add: bit_0)
  then have top: "\<not> bit x 31"
    using z by simp
  show "x = 0"
  proof (rule bit_word_eqI)
    fix n assume n: "n < LENGTH(32)"
    show "bit x n \<longleftrightarrow> bit (0 :: u32) n"
    proof (cases "n = 31")
      case False
      then have "bit (crc_bit x) (Suc n) \<longleftrightarrow> bit x n"
        using top n unfolding crc_bit_def bit_xor_iff bit_push_bit_iff by simp
      then show ?thesis
        using z by simp
    qed (use top in simp)
  qed
qed (simp add: crc_bit_def)

lemma crc_bits_eq_0: "crc_bits n x = 0 \<longleftrightarrow> x = 0"
  by (induction n) (simp_all add: crc_bit_eq_0)

lemma crc_bits_inj: "crc_bits n a = crc_bits n b \<longleftrightarrow> a = b"
  using crc_bits_eq_0 [of n "a XOR b"] xor_left_cancel [of b a b] xor_left_cancel [of "crc_bits n b" "crc_bits n a" "crc_bits n b"]
  by (simp add: crc_bits_xor xor.commute)

subsection \<open>Messages\<close>

text \<open>The bytes of a message, the first one at the top.\<close>

fun pack :: "u8 list \<Rightarrow> u32" where
  "pack [] = 0"
| "pack (b # bs) = push_bit 24 (ucast b) XOR drop_bit 8 (pack bs)"

lemma pack_low: "length bs \<le> 4 \<Longrightarrow> n < 32 - 8 * length bs \<Longrightarrow> \<not> bit (pack bs) n"
  by (induction bs arbitrary: n) (auto simp: bit_simps)

lemma accumulate_pack:
  "length bs \<le> 4 \<Longrightarrow> Crc32_accumulate bs c = crc_bits (8 * length bs) (c XOR pack bs)"
proof (induction bs arbitrary: c)
  case (Cons b bs)
  have "crc_bits 8 (drop_bit 8 (pack bs)) = push_bit 8 (drop_bit 8 (pack bs))"
    by (rule crc_bits_push) (auto simp: bit_simps no_high_bit)
  also have "\<dots> = pack bs"
  proof (rule bit_word_eqI)
    fix n assume "n < LENGTH(32)"
    then show "bit (push_bit 8 (drop_bit 8 (pack bs))) n \<longleftrightarrow> bit (pack bs) n"
      using Cons.prems pack_low [of bs n] by (cases "n < 8") (simp_all add: bit_simps)
  qed
  finally have "crc_bits 8 (c XOR push_bit 24 (ucast b)) XOR pack bs = crc_bits 8 (c XOR pack (b # bs))"
    by (simp only: crc_bits_xor pack.simps xor.assoc)
  moreover have "crc_bits (8 * length (b # bs)) x = crc_bits (8 * length bs) (crc_bits 8 x)" for x
    using funpow_add [of "8 * length bs" 8 crc_bit] by (simp add: add.commute)
  ultimately show ?case
    using Cons by (simp add: Crc32_accumulate_def crc_byte_bits)
qed (simp add: Crc32_accumulate_def)

lemma pack_inj: "length us = length vs \<Longrightarrow> length us \<le> 4 \<Longrightarrow> pack us = pack vs \<Longrightarrow> us = vs"
proof (induction us vs rule: list_induct2)
  case (Cons u us v vs)
  have top: "u = v"
  proof (rule bit_word_eqI)
    fix n assume "n < LENGTH(8)"
    then show "bit u n \<longleftrightarrow> bit v n"
      using arg_cong [OF Cons.prems(2), of "\<lambda>w. bit w (n + 24)"] by (simp add: bit_simps no_high_bit)
  qed
  have "pack us = pack vs"
  proof (rule bit_word_eqI)
    fix n assume n: "n < LENGTH(32)"
    show "bit (pack us) n \<longleftrightarrow> bit (pack vs) n"
    proof (cases "n < 8")
      case False
      then show ?thesis
        using arg_cong [OF Cons.prems(2), of "\<lambda>w. bit w (n - 8)"] top n by (auto simp: bit_simps)
    qed (use pack_low [of us n] pack_low [of vs n] Cons in simp)
  qed
  then show ?case
    using Cons top by simp
qed simp

lemma accumulate_append: "Crc32_accumulate (us @ vs) c = Crc32_accumulate vs (Crc32_accumulate us c)"
  by (simp add: Crc32_accumulate_def)

lemma accumulate_inj: "Crc32_accumulate bs a = Crc32_accumulate bs b \<longleftrightarrow> a = b"
  by (induction bs arbitrary: a b) (simp_all add: Crc32_accumulate_def crc_byte_bits crc_bits_inj xor_right_cancel)

lemma pack_finalize: "pack (Crc32_finalize c) = c"
proof (rule bit_word_eqI)
  fix n assume "n < LENGTH(32)"
  then consider "n < 8" | "8 \<le> n" "n < 16" | "16 \<le> n" "n < 24" | "24 \<le> n" "n < 32"
    by fastforce
  then show "bit (pack (Crc32_finalize c)) n \<longleftrightarrow> bit c n"
    by cases (auto simp: Crc32_finalize_def bit_simps)
qed

text \<open>A message followed by its checksum passes.\<close>

lemma finalize_passes: "Crc32_isOkay (Crc32_accumulate (Crc32_finalize c) c)"
  using accumulate_pack [of "Crc32_finalize c" c] by (simp add: pack_finalize Crc32_isOkay_def) (simp add: Crc32_finalize_def)

lemma finalize_length [simp]: "length (Crc32_finalize c) = 4"
  by (simp add: Crc32_finalize_def)

lemma accumulate_burst:
  assumes "length us = length vs" "length us \<le> 4" "us \<noteq> vs"
  shows "Crc32_accumulate (xs @ us @ ys) c \<noteq> Crc32_accumulate (xs @ vs @ ys) c"
  using assms pack_inj [OF assms(1,2)] by (auto simp: accumulate_append accumulate_inj accumulate_pack crc_bits_inj xor_left_cancel)

text \<open>
  C21. The table driven checksum is the division by the polynomial of the Ethernet standard, one bit at a time, for every
  message and from every register content.
\<close>

theorem crc_is_polynomial_division:
  "Crc32_accumulate bytes c = fold (\<lambda>b c. crc_bits 8 (c XOR push_bit 24 (ucast b))) bytes c"
  unfolding Crc32_accumulate_def by (induction bytes arbitrary: c) (simp_all add: crc_byte_bits)

text \<open>
  C22. Error detection. When a message with its checksum passes the check, no other message that differs from it only
  inside four consecutive bytes does.
\<close>

theorem crc_detects_bursts:
  assumes "Crc32_isOkay (Crc32_accumulate (xs @ us @ ys) Crc32_reset)"
    and "length us = length vs" "length us \<le> 4" "us \<noteq> vs"
  shows "\<not> Crc32_isOkay (Crc32_accumulate (xs @ vs @ ys) Crc32_reset)"
  using accumulate_burst [OF assms(2-4), of xs ys Crc32_reset] assms(1) by (simp add: Crc32_isOkay_def)

theorem crc_detects_bursts_witness:
  "\<not> Crc32_isOkay (Crc32_accumulate ([1] @ [9, 9, 9] @ (4 # Crc32_finalize (Crc32_accumulate [1, 2, 3, 5, 4] Crc32_reset))) Crc32_reset)"
proof -
  have "Crc32_isOkay (Crc32_accumulate ([1] @ [2, 3, 5] @ (4 # Crc32_finalize (Crc32_accumulate [1, 2, 3, 5, 4] Crc32_reset))) Crc32_reset)"
    using finalize_passes [of "Crc32_accumulate [1, 2, 3, 5, 4] Crc32_reset"] by (simp add: Crc32_accumulate_def)
  then show ?thesis
    by (rule crc_detects_bursts) simp_all
qed

end
