(* ===== verification/Persistent_Chunk.thy ===== *)
theory Persistent_Chunk
  imports Checksum_Crc
begin

text \<open>
  Persistent storage of records (src/src/Cpl/Persistent: NVAdapter.cpp, MirroredChunk.cpp, CrcChunk.cpp). A chunk writes
  a record with its length and a checksum to a region of the media, and the mirrored chunk keeps two copies with
  transaction numbers. A region is given by its read and write operations, the record by its two data methods; both are
  parameters. The targets have 32 bit sizes and little endian memory.
\<close>

type_synonym size_t = u32

subsection \<open>Regions, records and the work buffer\<close>

text \<open>
  \<open>RegionMedia\<close>: a read returns the bytes that it got, none on an error. The state of the media is shared by all regions.
\<close>

record 'w media =
  media_start :: "'w \<Rightarrow> 'w"
  media_stop :: "'w \<Rightarrow> 'w"
  media_write :: "size_t \<Rightarrow> u8 list \<Rightarrow> 'w \<Rightarrow> (bool \<times> 'w) result"
  media_read :: "size_t \<Rightarrow> size_t \<Rightarrow> 'w \<Rightarrow> (u8 list \<times> 'w) result"
  media_length :: size_t

text \<open>
  \<open>Payload\<close>: \<open>getData\<close> fills the start of a buffer and returns the number of bytes, zero on a failure; \<open>putData\<close> takes
  the first bytes of a buffer.
\<close>

record 's payload =
  getData :: "u8 list \<Rightarrow> size_t \<Rightarrow> 's \<Rightarrow> (size_t \<times> u8 list) result"
  putData :: "u8 list \<Rightarrow> size_t \<Rightarrow> 's \<Rightarrow> (bool \<times> 's) result"

definition work_buffer_size :: nat where
  "work_buffer_size = 1024"

abbreviation zero_buffer :: "u8 list" where
  "zero_buffer \<equiv> replicate work_buffer_size 0"

definition CRC_SIZE :: size_t where
  "CRC_SIZE = 4"

text \<open>The bytes of an integer in memory.\<close>

definition le_bytes :: "nat \<Rightarrow> 'a::len word \<Rightarrow> u8 list" where
  "le_bytes n w = map (\<lambda>i. ucast (drop_bit (8 * i) w)) [0..<n]"

definition of_le_bytes :: "u8 list \<Rightarrow> 'a::len word" where
  "of_le_bytes bs = foldr (\<lambda>b w. push_bit 8 w OR ucast b) bs 0"

subsection \<open>NVAdapter\<close>

text \<open>The driver of the storage device (\<open>Driver::NV::Api\<close>).\<close>

record 'w nv_driver =
  nv_start :: "'w \<Rightarrow> bool \<times> 'w"
  nv_stop :: "'w \<Rightarrow> 'w"
  nv_write :: "size_t \<Rightarrow> u8 list \<Rightarrow> 'w \<Rightarrow> bool \<times> 'w"
  nv_read :: "size_t \<Rightarrow> size_t \<Rightarrow> 'w \<Rightarrow> u8 list option \<times> 'w"
  nv_pageSize :: size_t
  nv_totalSize :: size_t

definition NVAdapter_write :: "'w nv_driver \<Rightarrow> size_t \<Rightarrow> size_t \<Rightarrow> size_t \<Rightarrow> u8 list \<Rightarrow> 'w \<Rightarrow> (bool \<times> 'w) result" where
  "NVAdapter_write drv m_startAddress m_regionLength offset src w =
     bindR (guardR AssertFailed (0 < length src)) (\<lambda>_.
     if offset + of_nat (length src) > m_regionLength then Inr (False, w)
     else Inr (nv_write drv (offset + m_startAddress) src w))"

definition NVAdapter_read ::
  "'w nv_driver \<Rightarrow> size_t \<Rightarrow> size_t \<Rightarrow> size_t \<Rightarrow> size_t \<Rightarrow> 'w \<Rightarrow> (u8 list \<times> 'w) result" where
  "NVAdapter_read drv m_startAddress m_regionLength offset bytesToRead w =
     bindR (guardR AssertFailed (0 < bytesToRead)) (\<lambda>_.
     if offset + bytesToRead > m_regionLength then Inr ([], w)
     else case nv_read drv (offset + m_startAddress) bytesToRead w of
            (Some bs, w) \<Rightarrow> Inr (bs, w)
          | (None, w) \<Rightarrow> Inr ([], w))"

definition NVAdapter :: "'w nv_driver \<Rightarrow> size_t \<Rightarrow> size_t \<Rightarrow> 'w media" where
  "NVAdapter drv regionStartAddress regionLen =
     \<lparr>media_start = (\<lambda>w. snd (nv_start drv w)), media_stop = nv_stop drv,
      media_write = NVAdapter_write drv regionStartAddress regionLen,
      media_read = NVAdapter_read drv regionStartAddress regionLen, media_length = regionLen\<rparr>"

subsection \<open>Reading a frame\<close>

text \<open>
  The loop that both chunks read the data and the checksum with. Every read goes to the start of the work buffer.
\<close>

function read_frame ::
  "'w media \<Rightarrow> size_t \<Rightarrow> nat \<Rightarrow> u32 \<Rightarrow> u8 list \<Rightarrow> 'w \<Rightarrow> (u32 \<times> u8 list \<times> 'w) result" where
  "read_frame v offset dataRemaining crc buf w =
     (if dataRemaining = 0 then Inr (crc, buf, w)
      else bindR (media_read v offset (of_nat dataRemaining) w) (\<lambda>(bs, w).
           if length bs = 0 then Inr (crc, buf, w)
           else if dataRemaining < length bs then Inl OutOfBounds
           else read_frame v (offset + of_nat (length bs)) (dataRemaining - length bs) (Crc32_accumulate bs crc)
                  (bs @ drop (length bs) buf) w))"
  by pat_completeness auto
termination
  by (relation "measure (\<lambda>(v, offset, n, crc, buf, w). n)") (auto simp flip: length_greater_0_conv)

declare read_frame.simps [simp del]

subsection \<open>MirroredChunk\<close>

datatype side = RegionA | RegionB

fun other :: "side \<Rightarrow> side" where
  "other RegionA = RegionB"
| "other RegionB = RegionA"

record 'w mirrored =
  m_transId :: u64
  m_dataLen :: size_t
  m_currentRegion :: "side option"
  m_buffer :: "u8 list"
  m_media :: 'w

definition MIRRORED_OVERHEAD :: size_t where
  "MIRRORED_OVERHEAD = 16"

definition MirroredChunk_start :: "(side \<Rightarrow> 'w media) \<Rightarrow> 'w mirrored \<Rightarrow> 'w mirrored result" where
  "MirroredChunk_start v M =
     bindR (guardR AssertFailed (media_length (v RegionA) = media_length (v RegionB))) (\<lambda>_.
     Inr (M\<lparr>m_media := media_start (v RegionB) (media_start (v RegionA) (m_media M)),
            m_transId := 0, m_currentRegion := None, m_dataLen := 0\<rparr>))"

definition MirroredChunk_stop :: "(side \<Rightarrow> 'w media) \<Rightarrow> 'w mirrored \<Rightarrow> 'w mirrored" where
  "MirroredChunk_stop v M = M\<lparr>m_media := media_stop (v RegionB) (media_stop (v RegionA) (m_media M))\<rparr>"

text \<open>The result is the transaction number, zero for a frame that is not valid, and the length that was read.\<close>

definition getTransactionId ::
  "(side \<Rightarrow> 'w media) \<Rightarrow> side \<Rightarrow> size_t \<Rightarrow> 'w mirrored \<Rightarrow> ((u64 \<times> size_t) \<times> 'w mirrored) result" where
  "getTransactionId v region index M =
     bindR (media_read (v region) index 8 (m_media M)) (\<lambda>(bs, w).
     let M = M\<lparr>m_media := w\<rparr>; transId = of_le_bytes bs; crc = Crc32_accumulate bs Crc32_reset; offset = index + 8
     in if length bs \<noteq> 8 then Inr ((0, 0), M)
     else bindR (media_read (v region) offset 4 w) (\<lambda>(bs, w).
     let M = M\<lparr>m_media := w\<rparr>; dataLen = of_le_bytes bs; dataRemaining = dataLen + CRC_SIZE
     in if length bs \<noteq> 4 then Inr ((0, 0), M)
     else if dataRemaining \<le> of_nat work_buffer_size \<and> dataLen < dataRemaining
     then bindR (read_frame (v region) (offset + 4) (unat dataRemaining) (Crc32_accumulate bs crc) (m_buffer M) w) (\<lambda>(crc, buf, w).
          Inr ((if Crc32_isOkay crc then transId else 0, dataLen), M\<lparr>m_buffer := buf, m_media := w\<rparr>))
     else Inr ((0, dataLen), M)))"

definition pushToRecord :: "'s payload \<Rightarrow> 's \<Rightarrow> 'w mirrored \<Rightarrow> (bool \<times> 's) result" where
  "pushToRecord pl s M = putData pl (m_buffer M) (m_dataLen M) s"

definition pullFromRecord :: "'s payload \<Rightarrow> 's \<Rightarrow> 'w mirrored \<Rightarrow> (size_t \<times> u8 list) result" where
  "pullFromRecord pl s M = getData pl (m_buffer M) (m_dataLen M) s"

definition Mirrored_loadData ::
  "(side \<Rightarrow> 'w media) \<Rightarrow> 's payload \<Rightarrow> size_t \<Rightarrow> 's \<Rightarrow> 'w mirrored \<Rightarrow> (bool \<times> 's \<times> 'w mirrored) result" where
  "Mirrored_loadData v pl index s M =
     bindR (getTransactionId v RegionA index M) (\<lambda>((transA, dataLenA), M).
     bindR (getTransactionId v RegionB index M) (\<lambda>((transB, dataLenB), M).
     bindR (if transA = 0 \<and> transB = 0
            then Inr (RegionA, False, s,
                      M\<lparr>m_currentRegion := Some RegionA, m_transId := 0,
                        m_dataLen := media_length (v RegionA) - MIRRORED_OVERHEAD\<rparr>)
            else if transA > transB
            then let M = M\<lparr>m_currentRegion := Some RegionA, m_transId := transA, m_dataLen := dataLenA\<rparr>
                 in bindR (pushToRecord pl s M) (\<lambda>(ok, s). Inr (RegionA, ok, s, M))
            else let M = M\<lparr>m_currentRegion := Some RegionB, m_transId := transB, m_dataLen := dataLenB\<rparr>
                 in bindR (pushToRecord pl s M) (\<lambda>(ok, s). Inr (RegionB, ok, s, M))) (\<lambda>(current, ok, s, M).
     bindR (guardR AssertFailed (m_dataLen M \<le> media_length (v current))) (\<lambda>_.
     Inr (ok, s, M)))))"

text \<open>One round of the loop in \<open>updateData\<close>. All four writes are tried.\<close>

definition write_copy ::
  "(side \<Rightarrow> 'w media) \<Rightarrow> size_t \<Rightarrow> bool \<Rightarrow> 'w mirrored \<Rightarrow> (bool \<times> 'w mirrored) result" where
  "write_copy v index invalidate M =
     (let region = (if m_currentRegion M = Some RegionA then RegionB else RegionA);
          transId = m_transId M + 1;
          transBytes = le_bytes 8 transId; lenBytes = le_bytes 4 (m_dataLen M);
          data = take (unat (m_dataLen M)) (m_buffer M);
          crc = Crc32_accumulate data (Crc32_accumulate lenBytes (Crc32_accumulate transBytes Crc32_reset));
          crcBuffer = Crc32_finalize crc;
          crcBuffer = (if invalidate then crcBuffer[0 := crcBuffer ! 0 XOR 0xA5] else crcBuffer)
      in bindR (guardR OutOfBounds (unat (m_dataLen M) \<le> length (m_buffer M))) (\<lambda>_.
         bindR (media_write (v region) index transBytes (m_media M)) (\<lambda>(ok1, w).
         bindR (media_write (v region) (index + 8) lenBytes w) (\<lambda>(ok2, w).
         bindR (media_write (v region) (index + 8 + 4) data w) (\<lambda>(ok3, w).
         bindR (media_write (v region) (index + 8 + 4 + m_dataLen M) crcBuffer w) (\<lambda>(ok4, w).
         Inr (ok1 \<and> ok2 \<and> ok3 \<and> ok4, M\<lparr>m_currentRegion := Some region, m_transId := transId, m_media := w\<rparr>)))))))"

definition Mirrored_updateData ::
  "(side \<Rightarrow> 'w media) \<Rightarrow> 's payload \<Rightarrow> size_t \<Rightarrow> bool \<Rightarrow> 's \<Rightarrow> 'w mirrored \<Rightarrow> (bool \<times> 'w mirrored) result" where
  "Mirrored_updateData v pl index invalidate s M =
     bindR (guardR AssertFailed (m_currentRegion M \<noteq> None)) (\<lambda>_.
     let M = M\<lparr>m_buffer := zero_buffer\<rparr>
     in bindR (pullFromRecord pl s M) (\<lambda>(len, buf).
        let M = M\<lparr>m_buffer := buf\<rparr>
        in if len = 0 then Inr (False, M)
           else let M = (if invalidate then M\<lparr>m_buffer := zero_buffer\<rparr> else M);
                    M = M\<lparr>m_dataLen := len\<rparr>
                in bindR (write_copy v index invalidate M) (\<lambda>(_, M). write_copy v index invalidate M)))"

subsection \<open>CrcChunk\<close>

record 'w crc_chunk =
  c_dataLen :: size_t
  c_buffer :: "u8 list"
  c_media :: 'w

definition CRC_CHUNK_OVERHEAD :: size_t where
  "CRC_CHUNK_OVERHEAD = 8"

definition CrcChunk_start :: "'w media \<Rightarrow> 'w crc_chunk \<Rightarrow> 'w crc_chunk" where
  "CrcChunk_start v C = C\<lparr>c_media := media_start v (c_media C), c_dataLen := media_length v - CRC_CHUNK_OVERHEAD\<rparr>"

definition CrcChunk_stop :: "'w media \<Rightarrow> 'w crc_chunk \<Rightarrow> 'w crc_chunk" where
  "CrcChunk_stop v C = C\<lparr>c_media := media_stop v (c_media C)\<rparr>"

definition Crc_loadData ::
  "'w media \<Rightarrow> 's payload \<Rightarrow> size_t \<Rightarrow> 's \<Rightarrow> 'w crc_chunk \<Rightarrow> (bool \<times> 's \<times> 'w crc_chunk) result" where
  "Crc_loadData v pl index s C =
     bindR (media_read v index 4 (c_media C)) (\<lambda>(bs, w).
     let C = C\<lparr>c_media := w\<rparr>; datalen = of_le_bytes bs; dataRemaining = datalen + CRC_SIZE
     in if length bs \<noteq> 4 then Inr (False, s, C)
        else if dataRemaining \<le> of_nat work_buffer_size \<and> datalen < dataRemaining
        then bindR (read_frame v (index + 4) (unat dataRemaining) (Crc32_accumulate bs Crc32_reset) (c_buffer C) w) (\<lambda>(crc, buf, w).
             let C = C\<lparr>c_buffer := buf, c_media := w\<rparr>
             in if Crc32_isOkay crc
                then let C = C\<lparr>c_dataLen := datalen\<rparr>
                     in bindR (putData pl (c_buffer C) (c_dataLen C) s) (\<lambda>(ok, s). Inr (ok, s, C))
                else Inr (False, s, C))
        else Inr (False, s, C))"

definition Crc_updateData ::
  "'w media \<Rightarrow> 's payload \<Rightarrow> size_t \<Rightarrow> bool \<Rightarrow> 's \<Rightarrow> 'w crc_chunk \<Rightarrow> (bool \<times> 'w crc_chunk) result" where
  "Crc_updateData v pl index invalidate s C =
     (let C = C\<lparr>c_buffer := zero_buffer\<rparr>
      in bindR (getData pl (c_buffer C) (c_dataLen C) s) (\<lambda>(len, buf).
         let C = C\<lparr>c_buffer := buf\<rparr>
         in if len = 0 then Inr (False, C)
            else let C = (if invalidate then C\<lparr>c_buffer := zero_buffer\<rparr> else C);
                     C = C\<lparr>c_dataLen := len\<rparr>;
                     lenBytes = le_bytes 4 len;
                     data = take (unat len) (c_buffer C);
                     crcBuffer = Crc32_finalize (Crc32_accumulate data (Crc32_accumulate lenBytes Crc32_reset));
                     crcBuffer = (if invalidate then crcBuffer[0 := crcBuffer ! 0 XOR 0xA5] else crcBuffer)
                 in bindR (guardR OutOfBounds (unat len \<le> length (c_buffer C))) (\<lambda>_.
                    bindR (media_write v index lenBytes (c_media C)) (\<lambda>(ok1, w).
                    bindR (media_write v (index + 4) data w) (\<lambda>(ok2, w).
                    bindR (media_write v (index + 4 + len) crcBuffer w) (\<lambda>(ok3, w).
                    Inr (ok1 \<and> ok2 \<and> ok3, C\<lparr>c_media := w\<rparr>)))))))"

subsection \<open>Bytes in memory\<close>

lemma length_le_bytes [simp]: "length (le_bytes n w) = n"
  by (simp add: le_bytes_def)

lemma of_le_bytes_le_bytes: "8 * n = LENGTH('a) \<Longrightarrow> of_le_bytes (le_bytes n w) = w" for w :: "'a::len word"
proof -
  assume n: "8 * n = LENGTH('a)"
  have bits: "bit (of_le_bytes (map (\<lambda>i. ucast (drop_bit (8 * i) w)) [k..<k + m]) :: 'a word) j \<longleftrightarrow> j < 8 * m \<and> bit w (8 * k + j)" for k m j
  proof (induction m arbitrary: k j)
    case (Suc m)
    have "[k..<k + Suc m] = k # [Suc k..<Suc k + m]"
      by (simp add: upt_conv_Cons)
    then show ?case
      using Suc [of "Suc k" "j - 8"] bit_imp_le_length [of w "8 * k + j"]
      by (cases "j < 8") (auto simp: of_le_bytes_def bit_simps add.commute)
  qed (simp add: of_le_bytes_def)
  show ?thesis
    using bits [of 0 n] n bit_imp_le_length [of w] by (intro bit_word_eqI) (simp add: le_bytes_def)
qed

lemma of_le_bytes_sizes [simp]:
  "of_le_bytes (le_bytes 8 t) = (t :: u64)"
  "of_le_bytes (le_bytes 4 n) = (n :: u32)"
  by (simp_all add: of_le_bytes_le_bytes)

definition overwrite :: "nat \<Rightarrow> 'a list \<Rightarrow> 'a list \<Rightarrow> 'a list" where
  "overwrite i bs mem = take i mem @ bs @ drop (i + length bs) mem"

lemma length_overwrite [simp]: "i + length bs \<le> length mem \<Longrightarrow> length (overwrite i bs mem) = length mem"
  by (simp add: overwrite_def)

lemma overwrite_append:
  "i + length a + length b \<le> length mem \<Longrightarrow> overwrite (i + length a) b (overwrite i a mem) = overwrite i (a @ b) mem"
  by (simp add: overwrite_def ac_simps)

lemma overwrite_Nil [simp]: "overwrite i [] mem = mem"
  by (simp add: overwrite_def)

lemma overwrite_take_append:
  "i + length a + length b \<le> length mem \<Longrightarrow>
   overwrite (i + length a) (take (k - length a) b) (overwrite i (take k a) mem) = overwrite i (take k (a @ b)) mem"
  using overwrite_append [of i a "take (k - length a) b" mem] by (cases "k \<le> length a") auto

definition bytes_at :: "nat \<Rightarrow> nat \<Rightarrow> 'a list \<Rightarrow> 'a list" where
  "bytes_at i n mem = take n (drop i mem)"

lemma length_bytes_at [simp]: "i + n \<le> length mem \<Longrightarrow> length (bytes_at i n mem) = n"
  by (simp add: bytes_at_def)

lemma bytes_at_overwrite [simp]: "i + length bs \<le> length mem \<Longrightarrow> bytes_at i (length bs) (overwrite i bs mem) = bs"
  by (simp add: bytes_at_def overwrite_def)

lemma bytes_at_append: "bytes_at i (m + n) mem = bytes_at i m mem @ bytes_at (i + m) n mem"
  by (simp add: bytes_at_def take_add add.commute)

subsection \<open>Media\<close>

text \<open>
  A driver whose device is an array of bytes. The power may fail: \<open>energy\<close> is the number of bytes that still reach the
  device, and what is written after that is lost.
\<close>

locale nv_memory =
  fixes drv :: "'w nv_driver" and mem :: "'w \<Rightarrow> u8 list" and energy :: "'w \<Rightarrow> nat" and ok :: "'w \<Rightarrow> bool"
  assumes mem_size: "ok w \<Longrightarrow> length (mem w) < 2 ^ 32"
    and nv_read: "ok w \<Longrightarrow> 0 < n \<Longrightarrow> unat off + unat n \<le> length (mem w) \<Longrightarrow>
      \<exists>w'. nv_read drv off n w = (Some (bytes_at (unat off) (unat n) (mem w)), w') \<and> ok w' \<and> mem w' = mem w"
    and nv_write: "ok w \<Longrightarrow> bs \<noteq> [] \<Longrightarrow> unat off + length bs \<le> length (mem w) \<Longrightarrow>
      \<exists>w'. nv_write drv off bs w = (True, w') \<and> ok w' \<and> mem w' = overwrite (unat off) (take (energy w) bs) (mem w) \<and>
        energy w' = energy w - length bs"

text \<open>
  A region whose contents is an array of bytes; the operations on it do not touch the rest of the media.
\<close>

locale region_media =
  fixes v :: "'w media" and contents :: "'w \<Rightarrow> u8 list" and rest :: "'w \<Rightarrow> 'x" and energy :: "'w \<Rightarrow> nat" and ok :: "'w \<Rightarrow> bool"
  assumes size: "ok w \<Longrightarrow> unat (media_length v) = length (contents w)"
    and reads: "ok w \<Longrightarrow> 0 < n \<Longrightarrow> unat off + unat n \<le> length (contents w) \<Longrightarrow>
      \<exists>w'. media_read v off n w = Inr (bytes_at (unat off) (unat n) (contents w), w') \<and>
        ok w' \<and> contents w' = contents w \<and> rest w' = rest w"
    and writes: "ok w \<Longrightarrow> bs \<noteq> [] \<Longrightarrow> unat off + length bs \<le> length (contents w) \<Longrightarrow>
      \<exists>w'. media_write v off bs w = Inr (True, w') \<and> ok w' \<and>
        contents w' = overwrite (unat off) (take (energy w) bs) (contents w) \<and> rest w' = rest w \<and> energy w' = energy w - length bs"
begin

lemma size_bound: "ok w \<Longrightarrow> length (contents w) < 2 ^ 32"
  using size [of w] unat_below [of "media_length v"] by simp

lemma read_frame_full:
  assumes "ok w" "0 < n" "unat off + n \<le> length (contents w)"
  shows "\<exists>w'. read_frame v off n crc buf w =
      Inr (Crc32_accumulate (bytes_at (unat off) n (contents w)) crc, bytes_at (unat off) n (contents w) @ drop n buf, w') \<and>
    ok w' \<and> contents w' = contents w \<and> rest w' = rest w"
proof -
  have n: "unat (of_nat n :: size_t) = n"
    using assms(3) size_bound [OF assms(1)] by (intro unat_of_nat_small) simp
  then have "(0 :: size_t) < of_nat n"
    using assms(2) by (simp add: word_less_nat_alt)
  then obtain w' where "media_read v off (of_nat n) w = Inr (bytes_at (unat off) n (contents w), w')"
      "ok w'" "contents w' = contents w" "rest w' = rest w"
    using reads [OF assms(1), of "of_nat n" off] assms(3) n by auto
  moreover have "bytes_at (unat off) n (contents w) \<noteq> []"
    using assms(2,3) length_bytes_at [of "unat off" n "contents w"] by force
  ultimately show ?thesis
    using assms(2,3) by (subst read_frame.simps) (simp add: read_frame.simps [of _ _ 0])
qed

end

locale mirrored_media =
  fixes v :: "side \<Rightarrow> 'w media" and contents :: "side \<Rightarrow> 'w \<Rightarrow> u8 list" and energy :: "'w \<Rightarrow> nat" and ok :: "'w \<Rightarrow> bool"
  assumes region: "region_media (v s) (contents s) (contents (other s)) energy ok"
    and same_length: "media_length (v RegionA) = media_length (v RegionB)"

subsection \<open>Frames\<close>

text \<open>A copy of the mirrored chunk: the transaction number, the length, the data, and a checksum.\<close>

definition frame_head :: "u64 \<Rightarrow> u8 list \<Rightarrow> u8 list" where
  "frame_head t p = le_bytes 8 t @ le_bytes 4 (of_nat (length p) :: size_t) @ p"

definition checksum :: "u8 list \<Rightarrow> u8 list" where
  "checksum bs = Crc32_finalize (Crc32_accumulate bs Crc32_reset)"

definition passes :: "u8 list \<Rightarrow> bool" where
  "passes bs \<longleftrightarrow> Crc32_isOkay (Crc32_accumulate bs Crc32_reset)"

lemma length_frame_head [simp]: "length (frame_head t p) = 12 + length p"
  by (simp add: frame_head_def)

lemma length_checksum [simp]: "length (checksum bs) = 4"
  by (simp add: checksum_def)

lemma checksum_passes: "passes (bs @ checksum bs)"
  using finalize_passes by (simp add: passes_def checksum_def accumulate_append)

lemma bad_checksum_fails:
  assumes "length cs = 4" "cs \<noteq> checksum bs"
  shows "\<not> passes (bs @ cs)"
  using accumulate_burst [of cs "checksum bs" bs "[]" Crc32_reset] checksum_passes [of bs] assms
  by (auto simp: passes_def Crc32_isOkay_def)

definition has_bytes :: "nat \<Rightarrow> u8 list \<Rightarrow> u8 list \<Rightarrow> bool" where
  "has_bytes i bs mem \<longleftrightarrow> i + length bs \<le> length mem \<and> bytes_at i (length bs) mem = bs"

lemma has_bytes_append: "has_bytes i (a @ b) mem \<longleftrightarrow> has_bytes i a mem \<and> has_bytes (i + length a) b mem"
  by (auto simp: has_bytes_def bytes_at_append)

context region_media
begin

lemma reads_bytes:
  assumes "ok w" "has_bytes (unat off) bs (contents w)" "bs \<noteq> []" "n = of_nat (length bs)"
  shows "\<exists>w'. media_read v off n w = Inr (bs, w') \<and> ok w' \<and> contents w' = contents w \<and> rest w' = rest w"
proof -
  have "unat n = length bs"
    unfolding assms(4) using assms(2) size_bound [OF assms(1)] by (intro unat_of_nat_small) (simp add: has_bytes_def)
  then show ?thesis
    using reads [OF assms(1), of n off] assms(2,3) by (simp add: has_bytes_def word_less_nat_alt)
qed

end

lemma unat_offset: "unat index + n < 2 ^ 32 \<Longrightarrow> unat (index + of_nat n) = unat index + n" for index :: size_t
  using unat_word_add_no_wrap [of index "of_nat n"] by (simp add: unat_of_nat_small)

lemma data_length:
  assumes "length p \<le> 1020"
  shows "unat (of_nat (length p) :: size_t) = length p" "unat (of_nat (length p) + CRC_SIZE) = length p + 4"
    "(of_nat (length p) :: size_t) + CRC_SIZE \<le> of_nat work_buffer_size" "(of_nat (length p) :: size_t) < of_nat (length p) + CRC_SIZE"
proof -
  show l: "unat (of_nat (length p) :: size_t) = length p"
    using assms by (intro unat_of_nat_small) simp
  then show r: "unat (of_nat (length p) + CRC_SIZE) = length p + 4"
    using unat_offset [of "of_nat (length p)" 4] assms by (simp add: CRC_SIZE_def)
  show "(of_nat (length p) :: size_t) + CRC_SIZE \<le> of_nat work_buffer_size"
    using r assms by (simp add: word_le_nat_alt work_buffer_size_def)
  show "(of_nat (length p) :: size_t) < of_nat (length p) + CRC_SIZE"
    using l r by (simp add: word_less_nat_alt)
qed

context region_media
begin

lemma read_frame_bytes:
  assumes "ok w" "has_bytes (unat off) bs (contents w)" "bs \<noteq> []" "n = length bs"
  shows "\<exists>w'. read_frame v off n crc buf w = Inr (Crc32_accumulate bs crc, bs @ drop n buf, w') \<and>
    ok w' \<and> contents w' = contents w \<and> rest w' = rest w"
  using read_frame_full [OF assms(1), of n off crc buf] assms by (simp add: has_bytes_def)

lemma frame_offsets:
  fixes index :: size_t
  assumes "ok w" "has_bytes (unat index) (frame_head t p @ cs) (contents w)"
  shows "has_bytes (unat index) (le_bytes 8 t) (contents w)"
    "has_bytes (unat (index + 8)) (le_bytes 4 (of_nat (length p) :: size_t)) (contents w)"
    "has_bytes (unat (index + 8 + 4)) (p @ cs) (contents w)"
proof -
  have len: "unat index + (12 + length p + length cs) \<le> length (contents w)"
    using assms(2) by (simp add: has_bytes_def)
  then have off: "unat (index + 8) = unat index + 8" "unat (index + 8 + 4) = unat index + 12"
    using unat_offset [of index 8] unat_offset [of index 12] size_bound [OF assms(1)] by (simp_all add: add.assoc)
  have "has_bytes (unat index) (le_bytes 8 t @ le_bytes 4 (of_nat (length p) :: size_t) @ p @ cs) (contents w)"
    using assms(2) by (simp add: frame_head_def)
  then show "has_bytes (unat index) (le_bytes 8 t) (contents w)"
    "has_bytes (unat (index + 8)) (le_bytes 4 (of_nat (length p) :: size_t)) (contents w)"
    "has_bytes (unat (index + 8 + 4)) (p @ cs) (contents w)"
    unfolding has_bytes_append off by (simp_all add: add.commute add.left_commute)
qed

end

context mirrored_media
begin

lemma getTransactionId_frame:
  assumes "ok (m_media M)" "has_bytes (unat index) (frame_head t p @ cs) (contents s (m_media M))" "length cs = 4" "length p \<le> 1020"
  shows "\<exists>w. getTransactionId v s index M =
      Inr ((if passes (frame_head t p @ cs) then t else 0, of_nat (length p)),
           M\<lparr>m_buffer := p @ cs @ drop (length p + 4) (m_buffer M), m_media := w\<rparr>) \<and>
    ok w \<and> contents s w = contents s (m_media M) \<and> contents (other s) w = contents (other s) (m_media M)"
proof -
  note off = region_media.frame_offsets [OF region [of s] assms(1,2)]
  obtain w1 where w1: "media_read (v s) index 8 (m_media M) = Inr (le_bytes 8 t, w1)" "ok w1"
      "contents s w1 = contents s (m_media M)" "contents (other s) w1 = contents (other s) (m_media M)"
    using region_media.reads_bytes [OF region [of s] assms(1) off(1), of 8] by (auto simp: le_bytes_def)
  obtain w2 where w2: "media_read (v s) (index + 8) 4 w1 = Inr (le_bytes 4 (of_nat (length p) :: size_t), w2)" "ok w2"
      "contents s w2 = contents s (m_media M)" "contents (other s) w2 = contents (other s) (m_media M)"
    using region_media.reads_bytes [OF region [of s] w1(2), of "index + 8" "le_bytes 4 (of_nat (length p) :: size_t)" 4] off(2) w1(3,4)
    by (auto simp: le_bytes_def)
  have ne: "p @ cs \<noteq> []"
    using assms(3) by auto
  let ?crc = "Crc32_accumulate (le_bytes 4 (of_nat (length p) :: size_t)) (Crc32_accumulate (le_bytes 8 t) Crc32_reset)"
  obtain w3 where w3: "read_frame (v s) (index + 8 + 4) (length p + 4) ?crc (m_buffer M) w2 =
        Inr (Crc32_accumulate (p @ cs) ?crc, (p @ cs) @ drop (length p + 4) (m_buffer M), w3)" "ok w3"
      "contents s w3 = contents s (m_media M)" "contents (other s) w3 = contents (other s) (m_media M)"
    using region_media.read_frame_bytes [OF region [of s] w2(2), of "index + 8 + 4" "p @ cs" "length p + 4" ?crc "m_buffer M"] off(3) w2(3,4) assms(3) ne
    by (auto simp del: append_assoc)
  have "Crc32_accumulate (p @ cs) ?crc = Crc32_accumulate (frame_head t p @ cs) Crc32_reset"
    by (simp add: frame_head_def accumulate_append)
  then show ?thesis
    using w1 w2 w3 data_length [OF assms(4)] by (intro exI [of _ w3]) (simp add: getTransactionId_def Let_def passes_def)
qed

end

definition spoil :: "u8 list \<Rightarrow> u8 list" where
  "spoil cs = cs[0 := cs ! 0 XOR 0xA5]"

lemma spoil_differs: "length cs = 4 \<Longrightarrow> spoil cs \<noteq> cs"
proof
  assume "length cs = 4" "spoil cs = cs"
  then have "cs ! 0 XOR 0xA5 = cs ! 0"
    by (metis length_greater_0_conv list.size(3) nth_list_update_eq spoil_def zero_neq_numeral)
  then show False
    using xor_left_cancel [of "cs ! 0" "0xA5" 0] by simp
qed

lemma length_spoil [simp]: "length (spoil cs) = length cs"
  by (simp add: spoil_def)

text \<open>The checksum that is written for a copy: a wrong one for a record that is erased.\<close>

definition seal :: "bool \<Rightarrow> u8 list \<Rightarrow> u8 list" where
  "seal invalidate bs = (if invalidate then spoil (checksum bs) else checksum bs)"

lemma length_seal [simp]: "length (seal invalidate bs) = 4"
  by (simp add: seal_def)

lemma seal_passes: "passes (bs @ seal invalidate bs) \<longleftrightarrow> \<not> invalidate"
  using checksum_passes [of bs] bad_checksum_fails [of "spoil (checksum bs)" bs] spoil_differs [of "checksum bs"]
  by (simp add: seal_def)

lemma checksum_frame_head:
  "checksum (frame_head t p) =
     Crc32_finalize (Crc32_accumulate p (Crc32_accumulate (le_bytes 4 (of_nat (length p) :: size_t)) (Crc32_accumulate (le_bytes 8 t) Crc32_reset)))"
  by (simp add: checksum_def frame_head_def accumulate_append)

text \<open>Four writes one after the other.\<close>

context region_media
begin

lemma writes_on:
  assumes "ok w" "b \<noteq> []" "unat off + (length a + length b) \<le> length c" "off2 = off + of_nat (length a)"
    and "contents w = overwrite (unat off) (take k a) c" "energy w = k - length a"
  shows "\<exists>w'. media_write v off2 b w = Inr (True, w') \<and> ok w' \<and>
    contents w' = overwrite (unat off) (take k (a @ b)) c \<and> energy w' = k - length (a @ b) \<and> rest w' = rest w"
proof -
  have len: "length (contents w) = length c"
    using assms(3,5) by simp
  then have "unat off2 = unat off + length a"
    using unat_offset [of off "length a"] size_bound [OF assms(1)] assms(3,4) by simp
  then show ?thesis
    using writes [OF assms(1,2), of off2] len assms(3,5,6) overwrite_take_append [of "unat off" a b c k] by (auto simp: add.assoc)
qed

lemma writes_four:
  assumes "ok w" "a \<noteq> []" "b \<noteq> []" "c \<noteq> []" "d \<noteq> []" "unat off + (length a + length b + length c + length d) \<le> length (contents w)"
    and "off2 = off + of_nat (length a)" "off3 = off2 + of_nat (length b)" "off4 = off3 + of_nat (length c)"
  shows "\<exists>w1 w2 w3 w4. media_write v off a w = Inr (True, w1) \<and> media_write v off2 b w1 = Inr (True, w2) \<and>
    media_write v off3 c w2 = Inr (True, w3) \<and> media_write v off4 d w3 = Inr (True, w4) \<and> ok w4 \<and>
    contents w4 = overwrite (unat off) (take (energy w) (a @ b @ c @ d)) (contents w) \<and>
    energy w4 = energy w - length (a @ b @ c @ d) \<and> rest w4 = rest w"
proof -
  let ?k = "energy w" and ?i = "unat off"
  obtain w1 where w1: "media_write v off a w = Inr (True, w1)" "ok w1" "contents w1 = overwrite ?i (take ?k a) (contents w)"
      "energy w1 = ?k - length a" "rest w1 = rest w"
    using writes [OF assms(1,2), of off] assms(6) by auto
  obtain w2 where w2: "media_write v off2 b w1 = Inr (True, w2)" "ok w2" "contents w2 = overwrite ?i (take ?k (a @ b)) (contents w)"
      "energy w2 = ?k - length (a @ b)" "rest w2 = rest w"
    using writes_on [OF w1(2) assms(3) _ assms(7) w1(3,4)] w1(5) assms(6) by auto
  obtain w3 where w3: "media_write v off3 c w2 = Inr (True, w3)" "ok w3" "contents w3 = overwrite ?i (take ?k ((a @ b) @ c)) (contents w)"
      "energy w3 = ?k - length ((a @ b) @ c)" "rest w3 = rest w"
    using writes_on [OF w2(2) assms(4) _ _ w2(3,4), of off3] w2(5) assms(6,7,8) by (auto simp: add.assoc)
  obtain w4 where "media_write v off4 d w3 = Inr (True, w4)" "ok w4" "contents w4 = overwrite ?i (take ?k (((a @ b) @ c) @ d)) (contents w)"
      "energy w4 = ?k - length (((a @ b) @ c) @ d)" "rest w4 = rest w"
    using writes_on [OF w3(2) assms(5) _ _ w3(3,4), of off4] w3(5) assms(6-9) by (auto simp: add.assoc)
  then show ?thesis
    using w1(1) w2(1) w3(1) by (auto simp del: length_append)
qed

end

text \<open>A record of the length \<open>n\<close> that is in the work buffer.\<close>

definition loaded :: "u8 list \<Rightarrow> 'w mirrored \<Rightarrow> bool" where
  "loaded p M \<longleftrightarrow> m_dataLen M = of_nat (length p) \<and> p \<noteq> [] \<and> length p \<le> 1020 \<and>
     length p \<le> length (m_buffer M) \<and> take (length p) (m_buffer M) = p"

definition next_region :: "'w mirrored \<Rightarrow> side" where
  "next_region M = (if m_currentRegion M = Some RegionA then RegionB else RegionA)"

context mirrored_media
begin

lemma write_copy_frame:
  assumes "ok (m_media M)" "loaded p M" "r = next_region M" "fr = frame_head (m_transId M + 1) p"
    and "unat index + (16 + length p) \<le> length (contents r (m_media M))"
  shows "\<exists>w. write_copy v index invalidate M =
      Inr (True, M\<lparr>m_currentRegion := Some r, m_transId := m_transId M + 1, m_media := w\<rparr>) \<and> ok w \<and>
    contents r w = overwrite (unat index) (take (energy (m_media M)) (fr @ seal invalidate fr)) (contents r (m_media M)) \<and>
    energy w = energy (m_media M) - (16 + length p) \<and> contents (other r) w = contents (other r) (m_media M)"
proof -
  let ?t = "le_bytes 8 (m_transId M + 1)" and ?l = "le_bytes 4 (of_nat (length p) :: size_t)"
  have len: "unat (of_nat (length p) :: size_t) = length p"
    using assms(2) by (intro data_length(1)) (simp add: loaded_def)
  have ne: "?t \<noteq> []" "?l \<noteq> []" "p \<noteq> []" "seal invalidate fr \<noteq> []"
    using assms(2) length_le_bytes [of 8 "m_transId M + 1"] length_le_bytes [of 4 "of_nat (length p) :: size_t"] length_seal [of invalidate fr]
    by (auto simp: loaded_def simp del: length_le_bytes length_seal)
  obtain w1 w2 w3 w4 where w: "media_write (v r) index ?t (m_media M) = Inr (True, w1)" "media_write (v r) (index + 8) ?l w1 = Inr (True, w2)"
    "media_write (v r) (index + 8 + 4) p w2 = Inr (True, w3)"
    "media_write (v r) (index + 8 + 4 + of_nat (length p)) (seal invalidate fr) w3 = Inr (True, w4)"
    "ok w4" "contents r w4 = overwrite (unat index) (take (energy (m_media M)) (?t @ ?l @ p @ seal invalidate fr)) (contents r (m_media M))"
    "energy w4 = energy (m_media M) - (16 + length p)" "contents (other r) w4 = contents (other r) (m_media M)"
    using region_media.writes_four [OF region [of r] assms(1) ne, of index "index + 8" "index + 8 + 4" "index + 8 + 4 + of_nat (length p)"] assms(5)
    by auto
  have head: "?t @ ?l @ p @ seal invalidate fr = fr @ seal invalidate fr"
    by (simp add: assms(4) frame_head_def)
  have fin: "Crc32_finalize (Crc32_accumulate p (Crc32_accumulate ?l (Crc32_accumulate ?t Crc32_reset))) = checksum fr"
    by (simp add: assms(4) checksum_frame_head)
  show ?thesis
    using w assms(2) len fin unfolding write_copy_def next_region_def [symmetric] assms(3) [symmetric] head
    by (intro exI [of _ w4], cases invalidate) (simp_all add: loaded_def Let_def seal_def spoil_def del: bindR_eq_Inr)
qed

end

subsection \<open>Update and load\<close>

text \<open>What the chunk relies on in a record: the data it gives and the data it takes.\<close>

definition gives :: "'s payload \<Rightarrow> 's \<Rightarrow> size_t \<Rightarrow> u8 list \<Rightarrow> bool" where
  "gives pl s n p \<longleftrightarrow> p \<noteq> [] \<and> length p \<le> 1020 \<and>
     (\<exists>buf. getData pl zero_buffer n s = Inr (of_nat (length p), buf) \<and> length buf = work_buffer_size \<and> take (length p) buf = p)"

definition takes :: "'s payload \<Rightarrow> 's \<Rightarrow> u8 list \<Rightarrow> bool \<times> 's \<Rightarrow> bool" where
  "takes pl s p r \<longleftrightarrow> (\<forall>rest. putData pl (p @ rest) (of_nat (length p)) s = Inr r)"

text \<open>The two copies that an update writes, and the regions they go to.\<close>

definition sealed :: "bool \<Rightarrow> u64 \<Rightarrow> u8 list \<Rightarrow> u8 list" where
  "sealed invalidate t p = frame_head t p @ seal invalidate (frame_head t p)"

lemma length_sealed [simp]: "length (sealed invalidate t p) = 16 + length p"
  by (simp add: sealed_def)

lemma sealed_passes: "passes (sealed invalidate t p) \<longleftrightarrow> \<not> invalidate"
  by (simp add: sealed_def seal_passes)

context mirrored_media
begin

lemma lengths:
  assumes "ok w"
  shows "length (contents s w) = length (contents r w)" "length (contents s w) < 2 ^ 32"
  using region_media.size [OF region assms, of s] region_media.size [OF region assms, of r] same_length
    region_media.size_bound [OF region assms, of s] by (cases s; cases r; simp)+

lemma update_writes:
  assumes "ok (m_media M)" "m_currentRegion M \<noteq> None" "gives pl s (m_dataLen M) p"
    and "unat index + (16 + length p) \<le> length (contents RegionA (m_media M))"
    and "r = next_region M" "q = (if invalidate then replicate (length p) 0 else p)"
    and "e = energy (m_media M)"
  shows "\<exists>M'. Mirrored_updateData v pl index invalidate s M = Inr (True, M') \<and> ok (m_media M') \<and>
    contents r (m_media M') = overwrite (unat index) (take e (sealed invalidate (m_transId M + 1) q)) (contents r (m_media M)) \<and>
    contents (other r) (m_media M') =
      overwrite (unat index) (take (e - (16 + length p)) (sealed invalidate (m_transId M + 2) q)) (contents (other r) (m_media M)) \<and>
    m_currentRegion M' = Some (other r) \<and> m_transId M' = m_transId M + 2 \<and> m_dataLen M' = of_nat (length p)"
proof -
  obtain buf where buf: "getData pl zero_buffer (m_dataLen M) s = Inr (of_nat (length p), buf)" "length buf = work_buffer_size" "take (length p) buf = p"
      "p \<noteq> []" "length p \<le> 1020"
    using assms(3) by (auto simp: gives_def)
  let ?M = "M\<lparr>m_buffer := if invalidate then zero_buffer else buf, m_dataLen := of_nat (length p)\<rparr>"
  have q: "length q = length p" "loaded q ?M"
    using buf assms(6) by (auto simp: loaded_def work_buffer_size_def)
  have n: "(of_nat (length p) :: size_t) \<noteq> 0"
    using data_length(1) [of p] buf(4,5) by auto
  have fits: "unat index + (16 + length q) \<le> length (contents s w)" if "ok w" "length (contents RegionA w) = length (contents RegionA (m_media M))" for s w
    using lengths(1) [OF that(1), of s RegionA] that(2) assms(4) q(1) by simp
  obtain w1 where w1: "write_copy v index invalidate ?M = Inr (True, ?M\<lparr>m_currentRegion := Some r, m_transId := m_transId M + 1, m_media := w1\<rparr>)"
      "ok w1" "contents r w1 = overwrite (unat index) (take e (sealed invalidate (m_transId M + 1) q)) (contents r (m_media M))"
      "energy w1 = e - (16 + length p)" "contents (other r) w1 = contents (other r) (m_media M)"
    using write_copy_frame [of ?M q r "frame_head (m_transId M + 1) q" index invalidate] q fits [OF assms(1)] assms(1,5,7)
    by (auto simp: next_region_def sealed_def)
  let ?M1 = "?M\<lparr>m_currentRegion := Some r, m_transId := m_transId M + 1, m_media := w1\<rparr>"
  have "length (contents RegionA w1) = length (contents RegionA (m_media M))"
    using lengths(1) [OF w1(2), of RegionA "other r"] lengths(1) [OF assms(1), of RegionA "other r"] w1(5) by simp
  then have fits1: "unat index + (16 + length q) \<le> length (contents (other r) (m_media ?M1))"
    using fits [OF w1(2)] by simp
  have next1: "other r = next_region ?M1" "other (other r) = r"
    by (cases r; simp add: next_region_def)+
  have t2: "m_transId ?M1 + 1 = m_transId M + 2"
    by simp
  obtain w2 where w2: "write_copy v index invalidate ?M1 = Inr (True, ?M1\<lparr>m_currentRegion := Some (other r), m_transId := m_transId M + 2, m_media := w2\<rparr>)"
      "ok w2" "contents (other r) w2 = overwrite (unat index) (take (e - (16 + length p)) (sealed invalidate (m_transId M + 2) q)) (contents (other r) (m_media M))"
      "contents r w2 = contents r w1"
    using write_copy_frame [of ?M1 q "other r" "frame_head (m_transId ?M1 + 1) q" index invalidate] q w1 fits1 next1
    unfolding t2 by (auto simp: loaded_def sealed_def)
  have pull: "Mirrored_updateData v pl index invalidate s M = bindR (write_copy v index invalidate ?M) (\<lambda>(_, M). write_copy v index invalidate M)"
    using assms(2) buf(1) n by (simp add: Mirrored_updateData_def pullFromRecord_def Let_def)
  show ?thesis
    unfolding pull w1(1) using w2 w1(3)
    by (intro exI [of _ "?M1\<lparr>m_currentRegion := Some (other r), m_transId := m_transId M + 2, m_media := w2\<rparr>"]) simp
qed

end

context mirrored_media
begin

lemma load_frames:
  assumes "ok (m_media M)"
    and A: "has_bytes (unat index) (frame_head tA pA @ cA) (contents RegionA (m_media M))" "length cA = 4" "length pA \<le> 1020"
    and B: "has_bytes (unat index) (frame_head tB pB @ cB) (contents RegionB (m_media M))" "length cB = 4" "length pB \<le> 1020"
    and a: "a = (if passes (frame_head tA pA @ cA) then tA else 0)"
    and b: "b = (if passes (frame_head tB pB @ cB) then tB else 0)"
    and buf: "buf = pB @ cB @ drop (length pB + 4) (pA @ cA @ drop (length pA + 4) (m_buffer M))"
  shows "\<exists>M'. Mirrored_loadData v pl index s M =
      (if a = 0 \<and> b = 0 then Inr (False, s, M')
       else bindR (putData pl buf (of_nat (length (if a > b then pA else pB))) s) (\<lambda>(ok, s). Inr (ok, s, M'))) \<and>
    ok (m_media M') \<and> (\<forall>r. contents r (m_media M') = contents r (m_media M)) \<and>
    m_currentRegion M' = Some (if a = 0 \<and> b = 0 \<or> a > b then RegionA else RegionB) \<and> m_transId M' = max a b"
proof -
  obtain w1 where w1: "getTransactionId v RegionA index M = Inr ((a, of_nat (length pA)),
        M\<lparr>m_buffer := pA @ cA @ drop (length pA + 4) (m_buffer M), m_media := w1\<rparr>)" "ok w1"
      "contents RegionA w1 = contents RegionA (m_media M)" "contents RegionB w1 = contents RegionB (m_media M)"
    using getTransactionId_frame [OF assms(1) A] a by auto
  let ?M1 = "M\<lparr>m_buffer := pA @ cA @ drop (length pA + 4) (m_buffer M), m_media := w1\<rparr>"
  obtain w2 where w2: "getTransactionId v RegionB index ?M1 = Inr ((b, of_nat (length pB)), ?M1\<lparr>m_buffer := buf, m_media := w2\<rparr>)" "ok w2"
      "contents RegionA w2 = contents RegionA (m_media M)" "contents RegionB w2 = contents RegionB (m_media M)"
    using getTransactionId_frame [of ?M1 index tB pB cB RegionB] w1(2-4) B b buf by auto
  have len: "unat (media_length (v r)) = length (contents RegionA (m_media M))" for r
    using region_media.size [OF region assms(1), of r] lengths(1) [OF assms(1), of r RegionA] by simp
  have "16 \<le> length (contents RegionA (m_media M))" "length pA \<le> length (contents RegionA (m_media M))" "length pB \<le> length (contents RegionA (m_media M))"
    using A(1,2) B(1,2) lengths(1) [OF assms(1), of RegionB RegionA] by (simp_all add: has_bytes_def)
  then have fine: "media_length (v RegionA) - MIRRORED_OVERHEAD \<le> media_length (v RegionA)"
      "of_nat (length pA) \<le> media_length (v RegionA)" "of_nat (length pB) \<le> media_length (v RegionB)"
    using len data_length(1) [OF A(3)] data_length(1) [OF B(3)]
    by (simp_all add: word_le_nat_alt MIRRORED_OVERHEAD_def unat_word_sub_no_wrap)
  have r: "(\<forall>r. contents r w2 = contents r (m_media M)) \<longleftrightarrow> True"
    using w2(3,4) by (metis side.exhaust)
  consider "a = 0 \<and> b = 0" | "a \<noteq> 0" "a > b" | "b \<noteq> 0" "\<not> a > b"
    by (cases "a > b"; cases "a = 0"; cases "b = 0") (auto simp: word_gt_0)
  then show ?thesis
  proof cases
    case 1
    then show ?thesis
      using w1(1) w2(1,2) r fine(1) by (auto simp: Mirrored_loadData_def Let_def)
  next
    case 2
    then show ?thesis
      using w1(1) w2(1,2) r fine(2)
      by (intro exI [of _ "?M1\<lparr>m_buffer := buf, m_media := w2, m_currentRegion := Some RegionA, m_transId := a, m_dataLen := of_nat (length pA)\<rparr>"])
        (simp add: Mirrored_loadData_def Let_def pushToRecord_def bindR_assoc case_prod_beta' del: bindR_eq_Inr)
  next
    case 3
    then have "a \<le> b"
      by simp
    with 3 show ?thesis
      using w1(1) w2(1,2) r fine(3)
      by (intro exI [of _ "?M1\<lparr>m_buffer := buf, m_media := w2, m_currentRegion := Some RegionB, m_transId := b, m_dataLen := of_nat (length pB)\<rparr>"])
        (simp add: Mirrored_loadData_def Let_def pushToRecord_def bindR_assoc case_prod_beta' max_absorb2 del: bindR_eq_Inr)
  qed
qed

end

subsection \<open>Adapters on a device\<close>

lemma nth_overwrite:
  "i + length bs \<le> length mem \<Longrightarrow> j < length mem \<Longrightarrow> overwrite i bs mem ! j = (if i \<le> j \<and> j < i + length bs then bs ! (j - i) else mem ! j)"
  by (auto simp: overwrite_def nth_append min_def)

lemma nth_bytes_at: "j < n \<Longrightarrow> i + n \<le> length mem \<Longrightarrow> bytes_at i n mem ! j = mem ! (i + j)"
  by (simp add: bytes_at_def)

lemma bytes_at_bytes_at: "off + m \<le> n \<Longrightarrow> bytes_at off m (bytes_at a n mem) = bytes_at (a + off) m mem"
  by (simp add: bytes_at_def drop_take min_def add.commute)

lemma bytes_at_overwrite_inside:
  assumes "off + length bs \<le> n" "a + n \<le> length mem"
  shows "bytes_at a n (overwrite (a + off) bs mem) = overwrite off bs (bytes_at a n mem)"
  using assms by (intro nth_equalityI) (auto simp: nth_bytes_at nth_overwrite)

lemma bytes_at_overwrite_outside:
  assumes "b + n \<le> i \<or> i + length bs \<le> b" "b + n \<le> length mem" "i + length bs \<le> length mem"
  shows "bytes_at b n (overwrite i bs mem) = bytes_at b n mem"
  using assms by (intro nth_equalityI) (auto simp: nth_bytes_at nth_overwrite)

text \<open>Two ranges of a device of \<open>k\<close> bytes that do not overlap.\<close>

definition apart :: "nat \<Rightarrow> nat \<Rightarrow> nat \<Rightarrow> nat \<Rightarrow> nat \<Rightarrow> bool" where
  "apart a n b m k \<longleftrightarrow> a + n \<le> k \<and> b + m \<le> k \<and> (a + n \<le> b \<or> b + m \<le> a)"

lemma apart_sym: "apart a n b m k \<longleftrightarrow> apart b m a n k"
  by (auto simp: apart_def)

context nv_memory
begin

lemma adapter_region:
  "region_media (NVAdapter drv start len) (\<lambda>w. bytes_at (unat start) (unat len) (mem w)) (\<lambda>w. bytes_at b m (mem w)) energy
     (\<lambda>w. ok w \<and> apart (unat start) (unat len) b m (length (mem w)))"
proof unfold_locales
  let ?a = "unat start" and ?n = "unat len"
  fix w assume w: "ok w \<and> apart ?a ?n b m (length (mem w))"
  have fits: "?a + ?n \<le> length (mem w)" "b + m \<le> length (mem w)"
    using w by (simp_all add: apart_def)
  have bound: "length (mem w) < 2 ^ 32"
    using mem_size w by simp
  show "unat (media_length (NVAdapter drv start len)) = length (bytes_at ?a ?n (mem w))"
    using fits by (simp add: NVAdapter_def)
  have addr: "unat (off + start) = ?a + unat off" if "unat off \<le> ?n" for off
    using that fits bound unat_word_add_no_wrap [of off "start"] by simp
  { fix n off :: size_t
    assume n: "0 < n" "unat off + unat n \<le> length (bytes_at ?a ?n (mem w))"
    then have sum: "unat off + unat n \<le> ?n" "unat (off + n) = unat off + unat n"
      using fits unat_below [of len] unat_word_add_no_wrap [of off n] by simp_all
    then obtain w' where "nv_read drv (off + start) n w = (Some (bytes_at (?a + unat off) (unat n) (mem w)), w')" "ok w'" "mem w' = mem w"
      using nv_read [of w n "off + start"] w n(1) addr [of off] fits by auto
    then show "\<exists>w'. media_read (NVAdapter drv start len) off n w = Inr (bytes_at (unat off) (unat n) (bytes_at ?a ?n (mem w)), w') \<and>
        (ok w' \<and> apart ?a ?n b m (length (mem w'))) \<and> bytes_at ?a ?n (mem w') = bytes_at ?a ?n (mem w) \<and>
        bytes_at b m (mem w') = bytes_at b m (mem w)"
      using w n(1) sum by (simp add: NVAdapter_def NVAdapter_read_def word_less_nat_alt bytes_at_bytes_at) }
  { fix bs :: "u8 list" and off :: size_t
    assume bs: "bs \<noteq> []" "unat off + length bs \<le> length (bytes_at ?a ?n (mem w))"
    then have sum: "unat off + length bs \<le> ?n" "unat (off + of_nat (length bs)) = unat off + length bs"
      using fits unat_below [of len] unat_offset [of off "length bs"] by simp_all
    then obtain w' where w': "nv_write drv (off + start) bs w = (True, w')" "ok w'"
        "mem w' = overwrite (?a + unat off) (take (energy w) bs) (mem w)" "energy w' = energy w - length bs"
      using nv_write [of w bs "off + start"] w bs(1) addr [of off] fits by auto
    have "bytes_at ?a ?n (mem w') = overwrite (unat off) (take (energy w) bs) (bytes_at ?a ?n (mem w))"
      using w'(3) sum(1) fits by (simp add: bytes_at_overwrite_inside)
    moreover have "bytes_at b m (mem w') = bytes_at b m (mem w)"
      unfolding w'(3) using w sum(1) fits
      by (intro bytes_at_overwrite_outside) (auto simp: apart_def)
    moreover have "length (mem w') = length (mem w)"
      using w'(3) sum(1) fits by simp
    ultimately show "\<exists>w'. media_write (NVAdapter drv start len) off bs w = Inr (True, w') \<and> (ok w' \<and> apart ?a ?n b m (length (mem w'))) \<and>
        bytes_at ?a ?n (mem w') = overwrite (unat off) (take (energy w) bs) (bytes_at ?a ?n (mem w)) \<and>
        bytes_at b m (mem w') = bytes_at b m (mem w) \<and> energy w' = energy w - length bs"
      using w w'(1,2,4) bs(1) sum by (simp add: NVAdapter_def NVAdapter_write_def word_less_nat_alt) }
qed

lemma adapter_mirrored:
  "mirrored_media (\<lambda>s. NVAdapter drv (start s) len) (\<lambda>s w. bytes_at (unat (start s)) (unat len) (mem w)) energy
     (\<lambda>w. ok w \<and> apart (unat (start RegionA)) (unat len) (unat (start RegionB)) (unat len) (length (mem w)))"
proof (intro mirrored_media.intro)
  fix s
  show "region_media (NVAdapter drv (start s) len) (\<lambda>w. bytes_at (unat (start s)) (unat len) (mem w))
      (\<lambda>w. bytes_at (unat (start (other s))) (unat len) (mem w)) energy
      (\<lambda>w. ok w \<and> apart (unat (start RegionA)) (unat len) (unat (start RegionB)) (unat len) (length (mem w)))"
    using adapter_region [of "start s" len "unat (start (other s))" "unat len"] apart_sym by (cases s) simp_all
qed (simp add: NVAdapter_def)

end

text \<open>A device that keeps its bytes in an array.\<close>

definition ram_driver :: "(nat \<times> u8 list) nv_driver" where
  "ram_driver =
     \<lparr>nv_start = (\<lambda>w. (True, w)), nv_stop = (\<lambda>w. w),
      nv_write = (\<lambda>off bs (k, mem).
        if unat off + length bs \<le> length mem then (True, (k - length bs, overwrite (unat off) (take k bs) mem)) else (False, (k, mem))),
      nv_read = (\<lambda>off n (k, mem).
        if unat off + unat n \<le> length mem then (Some (bytes_at (unat off) (unat n) mem), (k, mem)) else (None, (k, mem))),
      nv_pageSize = 1, nv_totalSize = 64\<rparr>"

interpretation ram: nv_memory ram_driver snd fst "\<lambda>w. length (snd w) < 2 ^ 32"
  by unfold_locales (auto simp: ram_driver_def)

interpretation adapter: region_media "NVAdapter ram_driver start len" "\<lambda>w. bytes_at (unat start) (unat len) (snd w)" "\<lambda>w. bytes_at b m (snd w)" fst
    "\<lambda>w. length (snd w) < 2 ^ 32 \<and> apart (unat start) (unat len) b m (length (snd w))" for start len b m
  by (rule ram.adapter_region)

interpretation mirror: mirrored_media "\<lambda>s. NVAdapter ram_driver (start s) len" "\<lambda>s w. bytes_at (unat (start s)) (unat len) (snd w)" fst
    "\<lambda>w. length (snd w) < 2 ^ 32 \<and> apart (unat (start RegionA)) (unat len) (unat (start RegionB)) (unat len) (length (snd w))" for start len
  by (rule ram.adapter_mirrored)

subsection \<open>What survives\<close>

lemma has_bytes_overwrite: "i + length bs \<le> length mem \<Longrightarrow> has_bytes i bs (overwrite i bs mem)"
  by (simp add: has_bytes_def)

lemma successors_not_both_zero: "t + 1 \<noteq> 0 \<or> t + 2 \<noteq> 0" for t :: "'a::len word"
proof -
  have "t + 2 - (t + 1) \<noteq> 0"
    by simp
  then show ?thesis
    by force
qed

lemma other_other [simp]: "other (other s) = s"
  by (cases s) simp_all

context mirrored_media
begin

lemma load_copies:
  assumes "ok (m_media M)" "length p \<le> 1020" "tA \<noteq> 0 \<or> tB \<noteq> 0"
    and "has_bytes (unat index) (sealed invalidate tA p) (contents RegionA (m_media M))"
    and "has_bytes (unat index) (sealed invalidate tB p) (contents RegionB (m_media M))"
    and "takes pl s p r"
  shows "\<exists>M'. Mirrored_loadData v pl index s M = Inr (if invalidate then (False, s, M') else (fst r, snd r, M'))"
  using load_frames [OF assms(1) assms(4) [unfolded sealed_def] length_seal assms(2) assms(5) [unfolded sealed_def] length_seal assms(2) refl refl refl,
      of pl s] assms(3,6) sealed_passes [of invalidate tA p] sealed_passes [of invalidate tB p]
  by (cases invalidate) (auto simp: sealed_def [symmetric] takes_def case_prod_beta split: if_splits)

lemma update_then_load:
  assumes "ok (m_media M)" "m_currentRegion M \<noteq> None" "gives pl s (m_dataLen M) p"
    and "unat index + (16 + length p) \<le> length (contents RegionA (m_media M))"
    and "2 * (16 + length p) \<le> energy (m_media M)"
  shows "\<exists>M'. Mirrored_updateData v pl index invalidate s M = Inr (True, M') \<and> ok (m_media M') \<and>
    (\<forall>M0 s0 r. m_media M0 = m_media M' \<longrightarrow> takes pl s0 (if invalidate then replicate (length p) 0 else p) r \<longrightarrow>
      (\<exists>M''. Mirrored_loadData v pl index s0 M0 = Inr (if invalidate then (False, s0, M'') else (fst r, snd r, M''))))"
proof -
  let ?q = "if invalidate then replicate (length p) 0 else p" and ?r = "next_region M"
  have p: "length p \<le> 1020" "length ?q = length p"
    using assms(3) by (auto simp: gives_def)
  obtain M' where M': "Mirrored_updateData v pl index invalidate s M = Inr (True, M')" "ok (m_media M')"
    "contents ?r (m_media M') = overwrite (unat index) (sealed invalidate (m_transId M + 1) ?q) (contents ?r (m_media M))"
    "contents (other ?r) (m_media M') = overwrite (unat index) (sealed invalidate (m_transId M + 2) ?q) (contents (other ?r) (m_media M))"
    using update_writes [OF assms(1-4) refl refl refl, of invalidate] assms(5) p(2) by auto
  have fits: "unat index + length (sealed invalidate t ?q) \<le> length (contents s (m_media M))" for s t
    using lengths(1) [OF assms(1), of s RegionA] assms(4) p(2) by simp
  have h: "has_bytes (unat index) (sealed invalidate (m_transId M + 1) ?q) (contents ?r (m_media M'))"
      "has_bytes (unat index) (sealed invalidate (m_transId M + 2) ?q) (contents (other ?r) (m_media M'))"
    unfolding M'(3,4) by (intro has_bytes_overwrite fits)+
  have t: "m_transId M + 1 \<noteq> 0 \<or> m_transId M + 2 \<noteq> 0"
    by (rule successors_not_both_zero)
  have "\<exists>M''. Mirrored_loadData v pl index s0 M0 = Inr (if invalidate then (False, s0, M'') else (fst r, snd r, M''))"
    if "m_media M0 = m_media M'" "takes pl s0 ?q r" for M0 s0 r
  proof (cases ?r)
    case RegionA
    show ?thesis
      by (rule load_copies [where p = ?q and tA = "m_transId M + 1" and tB = "m_transId M + 2"])
        (use that M'(2) p t h RegionA in simp_all)
  next
    case RegionB
    show ?thesis
      by (rule load_copies [where p = ?q and tA = "m_transId M + 2" and tB = "m_transId M + 1"])
        (use that M'(2) p t h RegionB in \<open>simp_all, blast?\<close>)
  qed
  then show ?thesis
    using M'(1,2) by blast
qed

lemma crash_leaves_copy:
  assumes "ok (m_media M)" "m_currentRegion M = Some cur" "gives pl s (m_dataLen M) p"
    and "unat index + (16 + length p) \<le> length (contents RegionA (m_media M))"
    and "has_bytes (unat index) (sealed False t p0) (contents cur (m_media M))"
  shows "\<exists>M'. Mirrored_updateData v pl index False s M = Inr (True, M') \<and>
    (has_bytes (unat index) (sealed False t p0) (contents cur (m_media M')) \<or>
     has_bytes (unat index) (sealed False (m_transId M + 1) p) (contents (other cur) (m_media M')))"
proof -
  have r: "next_region M = other cur" "other (next_region M) = cur"
    using assms(2) by (cases cur; simp add: next_region_def)+
  obtain M' where M': "Mirrored_updateData v pl index False s M = Inr (True, M')"
    "contents (other cur) (m_media M') = overwrite (unat index) (take (energy (m_media M)) (sealed False (m_transId M + 1) p)) (contents (other cur) (m_media M))"
    "contents cur (m_media M') = overwrite (unat index) (take (energy (m_media M) - (16 + length p)) (sealed False (m_transId M + 2) p)) (contents cur (m_media M))"
    using update_writes [OF assms(1) _ assms(3,4) refl refl refl, of False] assms(2) unfolding r by auto
  have "unat index + length (sealed False (m_transId M + 1) p) \<le> length (contents (other cur) (m_media M))"
    using lengths(1) [OF assms(1), of "other cur" RegionA] assms(4) by simp
  then have new: "has_bytes (unat index) (sealed False (m_transId M + 1) p) (contents (other cur) (m_media M'))"
    if "16 + length p \<le> energy (m_media M)"
    unfolding M'(2) using that by (simp add: has_bytes_overwrite)
  have old: "contents cur (m_media M') = contents cur (m_media M)" if "\<not> 16 + length p \<le> energy (m_media M)"
    unfolding M'(3) using that by simp
  show ?thesis
    using M'(1) new old assms(5) by (intro exI [of _ M'], cases "16 + length p \<le> energy (m_media M)") simp_all
qed

end

lemma has_bytes_overwrite_prefix:
  assumes "has_bytes i (x @ y) c" "length x' = length x"
  shows "has_bytes i (x' @ y) (overwrite i x' c)"
proof -
  have "has_bytes (i + length x) y c" "i + length x + length y \<le> length c"
    using assms(1) by (simp_all add: has_bytes_append) (simp add: has_bytes_def)
  then have "has_bytes (i + length x') y (overwrite i x' c)"
    using assms(2) by (simp add: has_bytes_def bytes_at_overwrite_outside)
  moreover have "has_bytes i x' (overwrite i x' c)"
    using assms by (intro has_bytes_overwrite) (simp add: has_bytes_def)
  ultimately show ?thesis
    by (simp add: has_bytes_append)
qed

lemma torn_frame:
  assumes "has_bytes i (frame_head t' p0 @ cs) c" "length p = length p0" "j \<le> length p"
  shows "has_bytes i (frame_head t (take j p @ drop j p0) @ cs) (overwrite i (take (12 + j) (frame_head t p @ ds)) c)"
proof -
  let ?n = "le_bytes 4 (of_nat (length p) :: size_t)"
  have "frame_head t' p0 @ cs = (le_bytes 8 t' @ ?n @ take j p0) @ (drop j p0 @ cs)"
    using assms(2) by (simp add: frame_head_def)
  moreover have "take (12 + j) (frame_head t p @ ds) = le_bytes 8 t @ ?n @ take j p"
    using assms(3) by (simp add: frame_head_def)
  moreover have "frame_head t (take j p @ drop j p0) @ cs = (le_bytes 8 t @ ?n @ take j p) @ (drop j p0 @ cs)"
    using assms(2,3) by (simp add: frame_head_def)
  ultimately show ?thesis
    using has_bytes_overwrite_prefix [of i "le_bytes 8 t' @ ?n @ take j p0" "drop j p0 @ cs" c "le_bytes 8 t @ ?n @ take j p"] assms
    by (simp only: length_append length_le_bytes length_take)
qed

context mirrored_media
begin

lemma crash_tears_record:
  assumes "ok (m_media M)" "m_currentRegion M = Some RegionA" "gives pl s (m_dataLen M) p"
    and "has_bytes (unat index) (sealed False t p0) (contents RegionA (m_media M))"
    and "has_bytes (unat index) (sealed False t' p0) (contents RegionB (m_media M))"
    and "length p0 = length p" "t \<noteq> 0" "j \<le> length p" "energy (m_media M) = 12 + j"
    and "\<not> passes (frame_head (m_transId M + 1) (take j p @ drop j p0) @ checksum (frame_head t' p0))"
  shows "\<exists>M'. Mirrored_updateData v pl index False s M = Inr (True, M') \<and>
    (\<forall>M0 s0 r. m_media M0 = m_media M' \<longrightarrow> takes pl s0 (take j p @ drop j p0) r \<longrightarrow>
      (\<exists>M''. Mirrored_loadData v pl index s0 M0 = Inr (fst r, snd r, M'')))"
proof -
  let ?torn = "take j p @ drop j p0" and ?u = "m_transId M + 1"
  have p: "length p \<le> 1020" "length ?torn = length p"
    using assms(3,6,8) by (auto simp: gives_def)
  have fits: "unat index + (16 + length p) \<le> length (contents RegionA (m_media M))"
    using assms(4,6) by (simp add: has_bytes_def)
  obtain M' where M': "Mirrored_updateData v pl index False s M = Inr (True, M')" "ok (m_media M')"
    "contents RegionA (m_media M') = contents RegionA (m_media M)"
    "contents RegionB (m_media M') = overwrite (unat index) (take (12 + j) (sealed False ?u p)) (contents RegionB (m_media M))"
    using update_writes [OF assms(1) _ assms(3) fits refl refl refl, of False] assms(2,8,9) by (auto simp: next_region_def)
  have B: "has_bytes (unat index) (frame_head ?u ?torn @ checksum (frame_head t' p0)) (contents RegionB (m_media M'))"
    unfolding M'(4) sealed_def using assms(5,6,8) by (intro torn_frame) (simp_all add: sealed_def seal_def)
  have A: "has_bytes (unat index) (frame_head t p0 @ checksum (frame_head t p0)) (contents RegionA (m_media M'))"
    unfolding M'(3) using assms(4) by (simp add: sealed_def seal_def)
  have "\<exists>M''. Mirrored_loadData v pl index s0 M0 = Inr (fst r, snd r, M'')"
    if "m_media M0 = m_media M'" "takes pl s0 ?torn r" for M0 s0 r
  proof -
    have put: "putData pl (?torn @ rest) (of_nat (length p)) s0 = Inr r" for rest
      using that(2) unfolding takes_def p(2) by blast
    show ?thesis
      using load_frames [of M0 index t p0 "checksum (frame_head t p0)" ?u ?torn "checksum (frame_head t' p0)" _ _ _ pl s0, OF _ _ _ _ _ _ _ refl refl refl]
        that(1) put M'(2) A B p assms(6,7,10) checksum_passes [of "frame_head t p0"]
      by (auto simp: case_prod_beta word_gt_0)
  qed
  then show ?thesis
    using M'(1) by blast
qed

end

text \<open>The chunk with a single copy.\<close>

abbreviation crc_head :: "u8 list \<Rightarrow> u8 list" where
  "crc_head p \<equiv> le_bytes 4 (of_nat (length p) :: size_t) @ p"

context region_media
begin

lemma crc_update_writes:
  assumes "ok (c_media C)" "gives pl s (c_dataLen C) p"
    and "unat index + (8 + length p) \<le> length (contents (c_media C))" "8 + length p \<le> energy (c_media C)"
    and "q = (if invalidate then replicate (length p) 0 else p)"
  shows "\<exists>C'. Crc_updateData v pl index invalidate s C = Inr (True, C') \<and> ok (c_media C') \<and>
    contents (c_media C') = overwrite (unat index) (crc_head q @ seal invalidate (crc_head q)) (contents (c_media C))"
proof -
  let ?w = "c_media C" and ?l = "le_bytes 4 (of_nat (length p) :: size_t)" and ?cs = "seal invalidate (crc_head q)" and ?i = "unat index"
  obtain buf where buf: "getData pl zero_buffer (c_dataLen C) s = Inr (of_nat (length p), buf)" "length buf = work_buffer_size" "take (length p) buf = p"
      "p \<noteq> []" "length p \<le> 1020"
    using assms(2) by (auto simp: gives_def)
  have q: "length q = length p" "take (length p) (if invalidate then zero_buffer else buf) = q" "q \<noteq> []"
    using buf assms(5) by (auto simp: work_buffer_size_def)
  have n: "unat (of_nat (length p) :: size_t) = length p" "(of_nat (length p) :: size_t) \<noteq> 0"
    using data_length(1) [of p] buf(4,5) by auto
  obtain w1 where w1: "media_write v index ?l ?w = Inr (True, w1)" "ok w1" "contents w1 = overwrite ?i (take (energy ?w) ?l) (contents ?w)"
      "energy w1 = energy ?w - length ?l"
    using writes [OF assms(1), of ?l index] assms(3) length_le_bytes [of 4 "of_nat (length p) :: size_t"] by fastforce
  obtain w2 where w2: "media_write v (index + 4) q w1 = Inr (True, w2)" "ok w2" "contents w2 = overwrite ?i (take (energy ?w) (?l @ q)) (contents ?w)"
      "energy w2 = energy ?w - length (?l @ q)"
    using writes_on [OF w1(2) q(3) _ _ w1(3,4), of "index + 4"] assms(3) q(1) by auto
  have ne: "?cs \<noteq> []" "length ?cs = 4"
    using length_seal [of invalidate "crc_head q"] by (auto simp del: length_seal)
  obtain w3 where w3: "media_write v (index + 4 + of_nat (length p)) ?cs w2 = Inr (True, w3)" "ok w3"
      "contents w3 = overwrite ?i (take (energy ?w) ((?l @ q) @ ?cs)) (contents ?w)"
    using writes_on [OF w2(2) ne(1) _ _ w2(3,4), of "index + 4 + of_nat (length p)"] assms(3) q(1) ne(2)
    by (auto simp: ac_simps)
  have fin: "Crc32_finalize (Crc32_accumulate q (Crc32_accumulate ?l Crc32_reset)) = checksum (crc_head q)"
    using q(1) by (simp add: checksum_def accumulate_append)
  have "Crc_updateData v pl index invalidate s C = Inr (True, C\<lparr>c_buffer := if invalidate then zero_buffer else buf, c_dataLen := of_nat (length p), c_media := w3\<rparr>)"
    using buf(1,2,5) n q(2) w1(1) w2(1) w3(1) fin
    by (cases invalidate) (simp_all add: Crc_updateData_def Let_def seal_def spoil_def work_buffer_size_def del: bindR_eq_Inr)
  then show ?thesis
    using w3(2,3) q(1) assms(4) by simp
qed

lemma crc_load:
  assumes "ok (c_media C)" "length p \<le> 1020" "has_bytes (unat index) (crc_head p @ cs) (contents (c_media C))" "length cs = 4" "takes pl s p r"
  shows "\<exists>C'. Crc_loadData v pl index s C = Inr (if passes (crc_head p @ cs) then (fst r, snd r, C') else (False, s, C'))"
proof -
  let ?l = "le_bytes 4 (of_nat (length p) :: size_t)"
  have "unat (index + 4) = unat index + 4"
    using assms(3) size_bound [OF assms(1)] unat_offset [of index 4] by (simp add: has_bytes_def)
  then have h: "has_bytes (unat index) ?l (contents (c_media C))" "has_bytes (unat (index + 4)) (p @ cs) (contents (c_media C))"
    using assms(3) has_bytes_append [of "unat index" ?l "p @ cs"] by simp_all
  obtain w1 where w1: "media_read v index 4 (c_media C) = Inr (?l, w1)" "ok w1" "contents w1 = contents (c_media C)"
    using reads_bytes [OF assms(1) h(1), of 4] by (auto simp: le_bytes_def)
  have ne: "p @ cs \<noteq> []" "length p + 4 = length (p @ cs)"
    using assms(4) by auto
  obtain w2 where w2: "read_frame v (index + 4) (length p + 4) (Crc32_accumulate ?l Crc32_reset) (c_buffer C) w1 =
      Inr (Crc32_accumulate (p @ cs) (Crc32_accumulate ?l Crc32_reset), (p @ cs) @ drop (length p + 4) (c_buffer C), w2)"
    using read_frame_bytes [OF w1(2) _ ne(1,2), of "index + 4"] h(2) w1(3) by auto
  have crc: "Crc32_accumulate (p @ cs) (Crc32_accumulate ?l Crc32_reset) = Crc32_accumulate (crc_head p @ cs) Crc32_reset"
    by (simp add: accumulate_append)
  show ?thesis
    using w1(1) w2 data_length [OF assms(2)] assms(5) unfolding crc
    by (auto simp: Crc_loadData_def Let_def passes_def takes_def case_prod_beta)
qed

lemma crc_update_then_load:
  assumes "ok (c_media C)" "gives pl s (c_dataLen C) p"
    and "unat index + (8 + length p) \<le> length (contents (c_media C))" "8 + length p \<le> energy (c_media C)"
  shows "\<exists>C'. Crc_updateData v pl index invalidate s C = Inr (True, C') \<and> ok (c_media C') \<and>
    (\<forall>C0 s0 r. c_media C0 = c_media C' \<longrightarrow> takes pl s0 (if invalidate then replicate (length p) 0 else p) r \<longrightarrow>
      (\<exists>C''. Crc_loadData v pl index s0 C0 = Inr (if invalidate then (False, s0, C'') else (fst r, snd r, C''))))"
proof -
  let ?q = "if invalidate then replicate (length p) 0 else p"
  let ?f = "crc_head ?q"
  have p: "length p \<le> 1020" "length ?q = length p"
    using assms(2) by (auto simp: gives_def)
  obtain C' where C': "Crc_updateData v pl index invalidate s C = Inr (True, C')" "ok (c_media C')"
      "contents (c_media C') = overwrite (unat index) (?f @ seal invalidate ?f) (contents (c_media C))"
    using crc_update_writes [OF assms refl, of invalidate] by blast
  have h: "has_bytes (unat index) (?f @ seal invalidate ?f) (contents (c_media C'))"
    unfolding C'(3) using assms(3) p(2) by (intro has_bytes_overwrite) simp
  have "\<exists>C''. Crc_loadData v pl index s0 C0 = Inr (if invalidate then (False, s0, C'') else (fst r, snd r, C''))"
    if "c_media C0 = c_media C'" "takes pl s0 ?q r" for C0 s0 r
    using crc_load [of C0 ?q index "seal invalidate ?f" pl s0 r] that C'(2) h p seal_passes [of ?f invalidate] by (cases invalidate) auto
  then show ?thesis
    using C'(1,2) by blast
qed

end

subsection \<open>Properties\<close>

text \<open>A record that is a list of bytes.\<close>

definition byte_payload :: "u8 list payload" where
  "byte_payload =
     \<lparr>getData = (\<lambda>dst n s. if length s \<le> unat n then Inr (of_nat (length s), s @ drop (length s) dst) else Inr (0, dst)),
      putData = (\<lambda>buf n s. Inr (True, take (unat n) buf))\<rparr>"

lemma byte_payload_gives: "p \<noteq> [] \<Longrightarrow> length p \<le> 1020 \<Longrightarrow> length p \<le> unat n \<Longrightarrow> gives byte_payload p n p"
  by (auto simp: gives_def byte_payload_def work_buffer_size_def)

lemma byte_payload_takes: "length p \<le> 1020 \<Longrightarrow> takes byte_payload s p (True, p)"
  by (simp add: takes_def byte_payload_def data_length)


definition example_start :: "side \<Rightarrow> size_t" where
  "example_start side = (case side of RegionA \<Rightarrow> 0 | RegionB \<Rightarrow> 32)"

definition example_chunk :: "nat \<Rightarrow> u8 list \<Rightarrow> (nat \<times> u8 list) mirrored" where
  "example_chunk energy mem =
     \<lparr>m_transId = 2, m_dataLen = 8, m_currentRegion = Some RegionA, m_buffer = zero_buffer, m_media = (energy, mem)\<rparr>"


text \<open>
  C13. Loss of power. Whatever the moment in an update at which the power fails, one of the two regions holds a complete
  copy with a good checksum, of the old or of the new record.
\<close>

theorem mirrored_crash_leaves_copy:
  assumes "nv_memory drv mem energy ok" "ok (m_media M)"
    and "apart (unat (start RegionA)) (unat len) (unat (start RegionB)) (unat len) (length (mem (m_media M)))"
    and "m_currentRegion M = Some cur" "gives pl s (m_dataLen M) p" "unat index + (16 + length p) \<le> unat len"
    and "has_bytes (unat index) (sealed False t p0) (bytes_at (unat (start cur)) (unat len) (mem (m_media M)))"
  shows "\<exists>M'. Mirrored_updateData (\<lambda>side. NVAdapter drv (start side) len) pl index False s M = Inr (True, M') \<and>
    (has_bytes (unat index) (sealed False t p0) (bytes_at (unat (start cur)) (unat len) (mem (m_media M'))) \<or>
     has_bytes (unat index) (sealed False (m_transId M + 1) p) (bytes_at (unat (start (other cur))) (unat len) (mem (m_media M'))))"
proof -
  have "length (bytes_at (unat (start RegionA)) (unat len) (mem (m_media M))) = unat len"
    using assms(3) by (simp add: apart_def)
  then show ?thesis
    using mirrored_media.crash_leaves_copy [OF nv_memory.adapter_mirrored [OF assms(1), of start len] _ assms(4,5), where index = index and t = t]
      assms(2,3,6,7) by fastforce
qed

text \<open>A device with a copy of a record in both regions.\<close>

definition example_memory :: "u8 list \<Rightarrow> u8 list" where
  "example_memory p = overwrite 36 (sealed False 1 p) (overwrite 4 (sealed False 2 p) (replicate 64 0))"

lemma example_memory:
  assumes "length p \<le> 12"
  shows "length (example_memory p) = 64"
    "has_bytes 4 (sealed False 2 p) (bytes_at 0 32 (example_memory p))"
    "has_bytes 4 (sealed False 1 p) (bytes_at 32 32 (example_memory p))"
proof -
  show len: "length (example_memory p) = 64"
    using assms by (simp add: example_memory_def)
  have "bytes_at 0 32 (example_memory p) = overwrite 4 (sealed False 2 p) (replicate 32 0)"
    using assms bytes_at_overwrite_inside [of 4 "sealed False 2 p" 32 0 "replicate 64 0"]
    by (simp add: example_memory_def bytes_at_overwrite_outside) (simp add: bytes_at_def)
  then show "has_bytes 4 (sealed False 2 p) (bytes_at 0 32 (example_memory p))"
    using assms by (simp add: has_bytes_overwrite)
  have "bytes_at 32 32 (example_memory p) = overwrite 4 (sealed False 1 p) (bytes_at 32 32 (overwrite 4 (sealed False 2 p) (replicate 64 0)))"
    using assms bytes_at_overwrite_inside [of 4 "sealed False 1 p" 32 32 "overwrite 4 (sealed False 2 p) (replicate 64 0)"]
    by (simp add: example_memory_def)
  then show "has_bytes 4 (sealed False 1 p) (bytes_at 32 32 (example_memory p))"
    using assms by (simp add: has_bytes_overwrite)
qed

theorem mirrored_crash_leaves_copy_witness:
  "\<exists>M'. Mirrored_updateData (\<lambda>side. NVAdapter ram_driver (example_start side) 32) byte_payload 4 False [2, 2] (example_chunk 20 (example_memory [1, 1])) = Inr (True, M') \<and>
    (has_bytes 4 (sealed False 2 [1, 1]) (bytes_at 0 32 (snd (m_media M'))) \<or>
     has_bytes 4 (sealed False 3 [2, 2]) (bytes_at 32 32 (snd (m_media M'))))"
proof -
  have "gives byte_payload [2, 2] 8 [2, 2]"
    by (rule byte_payload_gives) simp_all
  then show ?thesis
    using mirrored_crash_leaves_copy [OF ram.nv_memory_axioms, of "example_chunk 20 (example_memory [1, 1])" example_start 32 RegionA byte_payload "[2, 2]" "[2, 2]" 4 2 "[1, 1]"]
      example_memory [of "[1, 1]"]
    by (simp add: example_chunk_def example_start_def apart_def)
qed

text \<open>
  C39. Torn records. When the power fails in an update after some of the new bytes have reached region B, and region A
  holds the previous record with a good checksum, the next load takes the length and the number of region A but hands
  the bytes of region B to the record: a mixture of the new and of the previous record, reported as valid. The load reads
  both regions into the same work buffer, region B last.
\<close>

theorem mirrored_crash_tears_record:
  assumes "nv_memory drv mem energy ok" "ok (m_media M)"
    and "apart (unat (start RegionA)) (unat len) (unat (start RegionB)) (unat len) (length (mem (m_media M)))"
    and "m_currentRegion M = Some RegionA" "gives pl s (m_dataLen M) p"
    and "has_bytes (unat index) (sealed False t p0) (bytes_at (unat (start RegionA)) (unat len) (mem (m_media M)))"
    and "has_bytes (unat index) (sealed False t' p0) (bytes_at (unat (start RegionB)) (unat len) (mem (m_media M)))"
    and "length p0 = length p" "t \<noteq> 0" "j \<le> length p" "energy (m_media M) = 12 + j"
    and "\<not> passes (frame_head (m_transId M + 1) (take j p @ drop j p0) @ checksum (frame_head t' p0))"
    and "takes pl s0 (take j p @ drop j p0) r"
  shows "\<exists>M' M''. Mirrored_updateData (\<lambda>side. NVAdapter drv (start side) len) pl index False s M = Inr (True, M') \<and>
    Mirrored_loadData (\<lambda>side. NVAdapter drv (start side) len) pl index s0 (M0\<lparr>m_media := m_media M'\<rparr>) = Inr (fst r, snd r, M'')"
proof -
  obtain M' where M': "Mirrored_updateData (\<lambda>side. NVAdapter drv (start side) len) pl index False s M = Inr (True, M')"
    "\<And>M0 s0 r. m_media M0 = m_media M' \<Longrightarrow> takes pl s0 (take j p @ drop j p0) r \<Longrightarrow>
      \<exists>M''. Mirrored_loadData (\<lambda>side. NVAdapter drv (start side) len) pl index s0 M0 = Inr (fst r, snd r, M'')"
    using mirrored_media.crash_tears_record [OF nv_memory.adapter_mirrored [OF assms(1), of start len] _ assms(4-12)] assms(2,3) by auto
  show ?thesis
    using M'(1) M'(2) [of "M0\<lparr>m_media := m_media M'\<rparr>" s0 r] assms(13) by fastforce
qed

theorem mirrored_crash_tears_record_witness:
  "\<exists>M' M''. Mirrored_updateData (\<lambda>side. NVAdapter ram_driver (example_start side) 32) byte_payload 4 False [2, 2] (example_chunk 13 (example_memory [1, 1])) = Inr (True, M') \<and>
    Mirrored_loadData (\<lambda>side. NVAdapter ram_driver (example_start side) 32) byte_payload 4 [] ((example_chunk 0 [])\<lparr>m_media := m_media M'\<rparr>) = Inr (True, [2, 1], M'')"
proof -
  have "gives byte_payload [2, 2] 8 [2, 2]"
    by (rule byte_payload_gives) simp_all
  moreover have "takes byte_payload [] [2, 1] (True, [2, 1])"
    by (rule byte_payload_takes) simp
  moreover have "\<not> passes (frame_head 3 [2, 1] @ checksum (frame_head 1 [1, 1]))"
    by code_simp
  ultimately show ?thesis
    using mirrored_crash_tears_record [OF ram.nv_memory_axioms, of "example_chunk 13 (example_memory [1, 1])" example_start 32 byte_payload "[2, 2]" "[2, 2]" 4 2 "[1, 1]" 1 1
        "[]" "(True, [2, 1])" "example_chunk 0 []"] example_memory [of "[1, 1]"]
    by (simp add: example_chunk_def example_start_def apart_def)
qed

text \<open>
  The chunk with one copy: what has been saved is loaded again, and an erased record is not found.
\<close>

lemma crc_chunk_update_then_load:
  assumes "nv_memory drv mem energy ok" "ok (c_media C)" "unat start + unat len \<le> length (mem (c_media C))"
    and "gives pl s (c_dataLen C) p" "unat index + (8 + length p) \<le> unat len" "8 + length p \<le> energy (c_media C)"
    and "takes pl s0 (if invalidate then replicate (length p) 0 else p) r"
  shows "\<exists>C' C''. Crc_updateData (NVAdapter drv start len) pl index invalidate s C = Inr (True, C') \<and>
    Crc_loadData (NVAdapter drv start len) pl index s0 (C0\<lparr>c_media := c_media C'\<rparr>) =
      Inr (if invalidate then (False, s0, C'') else (fst r, snd r, C''))"
proof -
  obtain C' where C': "Crc_updateData (NVAdapter drv start len) pl index invalidate s C = Inr (True, C')"
    "\<And>C0 s0 r. c_media C0 = c_media C' \<Longrightarrow> takes pl s0 (if invalidate then replicate (length p) 0 else p) r \<Longrightarrow>
      \<exists>C''. Crc_loadData (NVAdapter drv start len) pl index s0 C0 = Inr (if invalidate then (False, s0, C'') else (fst r, snd r, C''))"
    using region_media.crc_update_then_load [OF nv_memory.adapter_region [OF assms(1), of start len 0 0] _ assms(4), where index = index and invalidate = invalidate]
      assms(2,3,5,6) by (fastforce simp: apart_def)
  show ?thesis
    using C'(1) C'(2) [of "C0\<lparr>c_media := c_media C'\<rparr>" s0 r] assms(7) by fastforce
qed

lemma crc_chunk_update_then_load_witness:
  "\<exists>C' C''. Crc_updateData (NVAdapter ram_driver 3 20) byte_payload 1 False [7, 8]
        \<lparr>c_dataLen = 8, c_buffer = zero_buffer, c_media = (100, replicate 40 0)\<rparr> = Inr (True, C') \<and>
    Crc_loadData (NVAdapter ram_driver 3 20) byte_payload 1 [] \<lparr>c_dataLen = 12, c_buffer = zero_buffer, c_media = c_media C'\<rparr> = Inr (True, [7, 8], C'')"
proof -
  have "gives byte_payload [7, 8] 8 [7, 8]"
    by (rule byte_payload_gives) simp_all
  moreover have "takes byte_payload [] [7, 8] (True, [7, 8])"
    by (rule byte_payload_takes) simp
  ultimately show ?thesis
    using crc_chunk_update_then_load [OF ram.nv_memory_axioms, of "\<lparr>c_dataLen = 8, c_buffer = zero_buffer, c_media = (100, replicate 40 0)\<rparr>" 3 20 byte_payload
        "[7, 8]" "[7, 8]" 1 "[]" False "(True, [7, 8])" "\<lparr>c_dataLen = 12, c_buffer = zero_buffer, c_media = (0, [])\<rparr>"]
    by simp
qed

end
