(* ===== verification/Nv_Drivers.thy ===== *)
theory Nv_Drivers
  imports Persistent_Chunk
begin

text \<open>
  Drivers of non-volatile storage (src/src/Driver/NV): the serial EEPROM CAT24C512 on an I2C bus, and the gang that joins
  several drivers to one address space. Both are shown to be arrays of bytes for the persistent storage above them. The
  I2C master and the chip are parameters; a model of the chip according to its data sheet shows that the laws can hold.
\<close>

subsection \<open>CAT24C512\<close>

datatype i2c_result = eSUCCESS | eNO_ACK | eTIMEOUT | eNOT_STARTED | eERROR

text \<open>The I2C master, and the sleep of the calling thread.\<close>

record 'w i2c_master =
  writeToDevice :: "u8 \<Rightarrow> u8 list \<Rightarrow> 'w \<Rightarrow> i2c_result \<times> 'w"
  readFromDevice :: "u8 \<Rightarrow> size_t \<Rightarrow> 'w \<Rightarrow> (i2c_result \<times> u8 list) \<times> 'w"
  sleep :: "nat \<Rightarrow> 'w \<Rightarrow> 'w"

definition NUM_PAGES :: size_t where
  "NUM_PAGES = 512"

definition BYTES_PER_PAGE :: size_t where
  "BYTES_PER_PAGE = 128"

definition MAX_WAIT_RETRIES :: nat where
  "MAX_WAIT_RETRIES = 6"

text \<open>The bus and the flag \<open>m_started\<close> of the driver for each device address.\<close>

record 'w nv_world =
  w_bus :: 'w
  w_started :: "u8 \<Rightarrow> bool"

definition eeprom_start :: "'w i2c_master \<Rightarrow> u8 \<Rightarrow> 'w nv_world \<Rightarrow> bool \<times> 'w nv_world" where
  "eeprom_start i2c dev W =
     (if \<not> w_started W dev
      then let ((result, _), bus) = readFromDevice i2c dev 1 (w_bus W); W = W\<lparr>w_bus := bus\<rparr>
           in if result = eSUCCESS then (True, W\<lparr>w_started := (w_started W)(dev := True)\<rparr>) else (False, W)
      else (False, W))"

definition eeprom_stop :: "u8 \<Rightarrow> 'w nv_world \<Rightarrow> 'w nv_world" where
  "eeprom_stop dev W = W\<lparr>w_started := (w_started W)(dev := False)\<rparr>"

text \<open>The loop that retries a transaction while the chip is busy with a write cycle.\<close>

fun retry :: "'w i2c_master \<Rightarrow> u8 \<Rightarrow> u8 list \<Rightarrow> nat \<Rightarrow> 'w \<Rightarrow> bool \<times> 'w" where
  "retry i2c dev bs retryCount w =
     (case writeToDevice i2c dev bs w of
        (result, w) \<Rightarrow>
          if result = eSUCCESS then (True, w)
          else let w = sleep i2c MAX_WAIT_RETRIES w
               in case retryCount of 0 \<Rightarrow> (False, w) | Suc n \<Rightarrow> retry i2c dev bs n w)"

definition address_bytes :: "size_t \<Rightarrow> u8 list" where
  "address_bytes offset = [ucast (drop_bit 8 offset AND 0xFF), ucast (offset AND 0xFF)]"

definition setReadOffsetPointer :: "'w i2c_master \<Rightarrow> u8 \<Rightarrow> size_t \<Rightarrow> 'w \<Rightarrow> bool \<times> 'w" where
  "setReadOffsetPointer i2c dev newOffset = retry i2c dev (address_bytes newOffset) MAX_WAIT_RETRIES"

definition writePage :: "'w i2c_master \<Rightarrow> u8 \<Rightarrow> size_t \<Rightarrow> u8 list \<Rightarrow> 'w \<Rightarrow> bool \<times> 'w" where
  "writePage i2c dev offset src = retry i2c dev (address_bytes offset @ src) MAX_WAIT_RETRIES"

function write_pages :: "'w i2c_master \<Rightarrow> u8 \<Rightarrow> size_t \<Rightarrow> nat \<Rightarrow> u8 list \<Rightarrow> 'w \<Rightarrow> bool \<times> 'w" where
  "write_pages i2c dev dstOffset bytesRemainingInPage src w =
     (if src = [] then (True, w)
      else let bytesToWrite = (if length src > bytesRemainingInPage then bytesRemainingInPage else length src)
           in case writePage i2c dev dstOffset (take bytesToWrite src) w of
                (ok, w) \<Rightarrow>
                  if \<not> ok then (False, w)
                  else write_pages i2c dev (dstOffset + of_nat bytesToWrite) (unat BYTES_PER_PAGE) (drop bytesToWrite src) w)"
  by pat_completeness auto
termination
  by (relation "measure (\<lambda>(i2c, dev, off, n, src, w). 2 * length src + (if n = 0 then 1 else 0))")
    (auto simp: BYTES_PER_PAGE_def split: if_splits simp flip: length_greater_0_conv)

declare write_pages.simps [simp del] retry.simps [simp del]

definition eeprom_write :: "'w i2c_master \<Rightarrow> u8 \<Rightarrow> size_t \<Rightarrow> u8 list \<Rightarrow> 'w nv_world \<Rightarrow> bool \<times> 'w nv_world" where
  "eeprom_write i2c dev dstOffset src W =
     (if \<not> w_started W dev \<or> dstOffset + of_nat (length src) > NUM_PAGES * BYTES_PER_PAGE then (False, W)
      else let startPage = dstOffset div BYTES_PER_PAGE;
               bytesRemainingInPage = (startPage + 1) * BYTES_PER_PAGE - dstOffset;
               (ok, bus) = write_pages i2c dev dstOffset (unat bytesRemainingInPage) src (w_bus W)
           in (ok, W\<lparr>w_bus := bus\<rparr>))"

definition eeprom_read :: "'w i2c_master \<Rightarrow> u8 \<Rightarrow> size_t \<Rightarrow> size_t \<Rightarrow> 'w nv_world \<Rightarrow> u8 list option \<times> 'w nv_world" where
  "eeprom_read i2c dev srcOffset numBytesToRead W =
     (if \<not> w_started W dev \<or> srcOffset + numBytesToRead > NUM_PAGES * BYTES_PER_PAGE then (None, W)
      else let (ok, bus) = setReadOffsetPointer i2c dev srcOffset (w_bus W)
           in if \<not> ok then (None, W\<lparr>w_bus := bus\<rparr>)
              else let ((result, bs), bus) = readFromDevice i2c dev numBytesToRead bus
                   in (if result = eSUCCESS then Some bs else None, W\<lparr>w_bus := bus\<rparr>))"

definition CAT24C512 :: "'w i2c_master \<Rightarrow> u8 \<Rightarrow> 'w nv_world nv_driver" where
  "CAT24C512 i2c dev =
     \<lparr>nv_start = eeprom_start i2c dev, nv_stop = eeprom_stop dev, nv_write = eeprom_write i2c dev, nv_read = eeprom_read i2c dev,
      nv_pageSize = BYTES_PER_PAGE, nv_totalSize = NUM_PAGES * BYTES_PER_PAGE\<rparr>"

subsection \<open>Gang\<close>

record gang =
  g_pageSize :: size_t
  g_numPages :: size_t
  g_totalSize :: size_t

definition Gang :: "'w nv_driver list \<Rightarrow> gang" where
  "Gang drivers =
     (let m_totalSize = fold (\<lambda>d total. total + nv_totalSize d) drivers 0;
          m_pageSize = fold (\<lambda>d size. if nv_pageSize d < size then nv_pageSize d else size) drivers (NOT 0)
      in if m_pageSize \<noteq> 0 \<and> m_pageSize \<noteq> NOT 0
         then \<lparr>g_pageSize = m_pageSize, g_numPages = m_totalSize div m_pageSize, g_totalSize = m_totalSize\<rparr>
         else \<lparr>g_pageSize = 0, g_numPages = 0, g_totalSize = m_totalSize\<rparr>)"

text \<open>The state of the gang is the flag \<open>m_started\<close> and the state of its drivers.\<close>

fun start_drivers :: "'w nv_driver list \<Rightarrow> 'w \<Rightarrow> bool \<times> 'w" where
  "start_drivers [] w = (True, w)"
| "start_drivers (d # ds) w = (case nv_start d w of (ok, w) \<Rightarrow> if \<not> ok then (False, w) else start_drivers ds w)"

definition Gang_start :: "'w nv_driver list \<Rightarrow> bool \<times> 'w \<Rightarrow> bool \<times> bool \<times> 'w" where
  "Gang_start drivers W =
     (if \<not> fst W
      then case start_drivers drivers (snd W) of (ok, w) \<Rightarrow> if \<not> ok then (False, False, w) else (True, True, w)
      else (False, W))"

definition Gang_stop :: "'w nv_driver list \<Rightarrow> bool \<times> 'w \<Rightarrow> bool \<times> 'w" where
  "Gang_stop drivers W = (if fst W then (False, fold nv_stop drivers (snd W)) else W)"

text \<open>\<open>driverWrite\<close> returns what is left of the source.\<close>

definition driverWrite :: "'w nv_driver \<Rightarrow> size_t \<Rightarrow> u8 list \<Rightarrow> 'w \<Rightarrow> bool \<times> u8 list \<times> 'w" where
  "driverWrite d normalizedDstOffset src w =
     (let bytesThisDriver =
            (if normalizedDstOffset + of_nat (length src) > nv_totalSize d then unat (nv_totalSize d - normalizedDstOffset) else length src);
          (result, w) = nv_write d normalizedDstOffset (take bytesThisDriver src) w
      in (result, drop bytesThisDriver src, w))"

fun write_drivers :: "'w nv_driver list \<Rightarrow> size_t \<Rightarrow> u8 list \<Rightarrow> 'w \<Rightarrow> bool \<times> 'w" where
  "write_drivers [] dstOffset src w = (src = [], w)"
| "write_drivers (d # ds) dstOffset src w =
     (if src = [] then (True, w)
      else case driverWrite d dstOffset src w of
             (result, src, w) \<Rightarrow> if \<not> result then (False, w) else write_drivers ds 0 src w)"

fun find_driver :: "'w nv_driver list \<Rightarrow> size_t \<Rightarrow> size_t \<Rightarrow> ('w nv_driver list \<times> size_t) option" where
  "find_driver [] beginOffset offset = None"
| "find_driver (d # ds) beginOffset offset =
     (if offset < beginOffset + nv_totalSize d then Some (d # ds, offset - beginOffset)
      else find_driver ds (beginOffset + nv_totalSize d) offset)"

definition Gang_write :: "'w nv_driver list \<Rightarrow> size_t \<Rightarrow> u8 list \<Rightarrow> bool \<times> 'w \<Rightarrow> bool \<times> bool \<times> 'w" where
  "Gang_write drivers dstOffset src W =
     (if \<not> fst W \<or> dstOffset + of_nat (length src) > g_totalSize (Gang drivers) then (False, W)
      else case find_driver drivers 0 dstOffset of
             None \<Rightarrow> (False, W)
           | Some (ds, off) \<Rightarrow> (case write_drivers ds off src (snd W) of (ok, w) \<Rightarrow> (ok, fst W, w)))"

definition driverRead :: "'w nv_driver \<Rightarrow> size_t \<Rightarrow> nat \<Rightarrow> 'w \<Rightarrow> u8 list option \<times> nat \<times> 'w" where
  "driverRead d normalizedSrcOffset numBytesToRead w =
     (let bytesThisDriver =
            (if normalizedSrcOffset + of_nat numBytesToRead > nv_totalSize d then unat (nv_totalSize d - normalizedSrcOffset) else numBytesToRead);
          (bs, w) = nv_read d normalizedSrcOffset (of_nat bytesThisDriver) w
      in (bs, numBytesToRead - bytesThisDriver, w))"

fun read_drivers :: "'w nv_driver list \<Rightarrow> size_t \<Rightarrow> nat \<Rightarrow> 'w \<Rightarrow> u8 list option \<times> 'w" where
  "read_drivers [] srcOffset n w = (if n = 0 then Some [] else None, w)"
| "read_drivers (d # ds) srcOffset n w =
     (if n = 0 then (Some [], w)
      else case driverRead d srcOffset n w of
             (None, n, w) \<Rightarrow> (None, w)
           | (Some bs, n, w) \<Rightarrow> (case read_drivers ds 0 n w of (r, w) \<Rightarrow> (map_option ((@) bs) r, w)))"

definition Gang_read :: "'w nv_driver list \<Rightarrow> size_t \<Rightarrow> size_t \<Rightarrow> bool \<times> 'w \<Rightarrow> u8 list option \<times> bool \<times> 'w" where
  "Gang_read drivers srcOffset numBytesToRead W =
     (if \<not> fst W \<or> srcOffset + numBytesToRead > g_totalSize (Gang drivers) then (None, W)
      else case find_driver drivers 0 srcOffset of
             None \<Rightarrow> (None, W)
           | Some (ds, off) \<Rightarrow> (case read_drivers ds off (unat numBytesToRead) (snd W) of (r, w) \<Rightarrow> (r, fst W, w)))"

definition Gang_driver :: "'w nv_driver list \<Rightarrow> (bool \<times> 'w) nv_driver" where
  "Gang_driver drivers =
     \<lparr>nv_start = Gang_start drivers, nv_stop = Gang_stop drivers, nv_write = Gang_write drivers, nv_read = Gang_read drivers,
      nv_pageSize = g_pageSize (Gang drivers), nv_totalSize = g_totalSize (Gang drivers)\<rparr>"

subsection \<open>The EEPROM is an array of bytes\<close>

text \<open>
  What the data sheet of the chip and the bus promise. While the chip is busy with a write cycle it does not acknowledge.
  A write that stays inside a page stores its bytes; one that has only the address sets the pointer for the next read.
\<close>

locale eeprom_chip =
  fixes i2c :: "'w i2c_master" and dev :: u8 and mem :: "'w \<Rightarrow> u8 list" and pointer :: "'w \<Rightarrow> nat" and busy :: "'w \<Rightarrow> nat"
    and energy :: "'w \<Rightarrow> nat" and ok :: "'w \<Rightarrow> bool" and rest :: "'w \<Rightarrow> 'x"
  assumes size: "ok w \<Longrightarrow> length (mem w) = 65536"
    and write_cycle: "ok w \<Longrightarrow> busy w \<le> MAX_WAIT_RETRIES"
    and no_ack: "ok w \<Longrightarrow> 0 < busy w \<Longrightarrow> \<exists>e. writeToDevice i2c dev bs w = (e, w) \<and> e \<noteq> eSUCCESS"
    and wait: "ok w \<Longrightarrow> ok (sleep i2c MAX_WAIT_RETRIES w) \<and> mem (sleep i2c MAX_WAIT_RETRIES w) = mem w \<and> energy (sleep i2c MAX_WAIT_RETRIES w) = energy w \<and>
      rest (sleep i2c MAX_WAIT_RETRIES w) = rest w \<and> (0 < busy w \<longrightarrow> busy (sleep i2c MAX_WAIT_RETRIES w) < busy w)"
    and page_write: "ok w \<Longrightarrow> busy w = 0 \<Longrightarrow> bs \<noteq> [] \<Longrightarrow> unat a < 65536 \<Longrightarrow> unat a mod 128 + length bs \<le> 128 \<Longrightarrow>
      \<exists>w'. writeToDevice i2c dev (address_bytes a @ bs) w = (eSUCCESS, w') \<and> ok w' \<and>
        mem w' = overwrite (unat a) (take (energy w) bs) (mem w) \<and> energy w' = energy w - length bs \<and> rest w' = rest w"
    and set_pointer: "ok w \<Longrightarrow> busy w = 0 \<Longrightarrow> unat a < 65536 \<Longrightarrow>
      \<exists>w'. writeToDevice i2c dev (address_bytes a) w = (eSUCCESS, w') \<and> ok w' \<and> busy w' = 0 \<and> pointer w' = unat a \<and>
        mem w' = mem w \<and> energy w' = energy w \<and> rest w' = rest w"
    and current_read: "ok w \<Longrightarrow> busy w = 0 \<Longrightarrow> pointer w + unat n \<le> 65536 \<Longrightarrow>
      \<exists>w'. readFromDevice i2c dev n w = ((eSUCCESS, bytes_at (pointer w) (unat n) (mem w)), w') \<and> ok w' \<and>
        mem w' = mem w \<and> energy w' = energy w \<and> rest w' = rest w"
begin

text \<open>A transaction is repeated until the write cycle has ended.\<close>

lemma retry_until_ready:
  assumes "\<And>w. ok w \<Longrightarrow> busy w = 0 \<Longrightarrow> mem w = m \<Longrightarrow> energy w = e \<Longrightarrow> rest w = r \<Longrightarrow>
      \<exists>w'. writeToDevice i2c dev bs w = (eSUCCESS, w') \<and> P w'"
  shows "ok w \<Longrightarrow> busy w \<le> n \<Longrightarrow> mem w = m \<Longrightarrow> energy w = e \<Longrightarrow> rest w = r \<Longrightarrow> \<exists>w'. retry i2c dev bs n w = (True, w') \<and> P w'"
proof (induction n arbitrary: w)
  case 0
  then show ?case
    using assms [of w] by (auto simp: retry.simps)
next
  case (Suc n)
  show ?case
  proof (cases "busy w = 0")
    case True
    then show ?thesis
      using assms [of w] Suc.prems by (auto simp: retry.simps)
  next
    case False
    then obtain err where "writeToDevice i2c dev bs w = (err, w)" "err \<noteq> eSUCCESS"
      using no_ack Suc.prems(1) by blast
    then show ?thesis
      using Suc.IH [of "sleep i2c MAX_WAIT_RETRIES w"] wait [OF Suc.prems(1)] Suc.prems False
      by (subst retry.simps) simp
  qed
qed

lemma writePage_stores:
  assumes "ok w" "bs \<noteq> []" "unat a < 65536" "unat a mod 128 + length bs \<le> 128"
  shows "\<exists>w'. writePage i2c dev a bs w = (True, w') \<and> ok w' \<and>
    mem w' = overwrite (unat a) (take (energy w) bs) (mem w) \<and> energy w' = energy w - length bs \<and> rest w' = rest w"
  unfolding writePage_def
proof (rule retry_until_ready [OF _ assms(1) write_cycle [OF assms(1)] refl refl refl])
  fix w1
  assume "ok w1" "busy w1 = 0" "mem w1 = mem w" "energy w1 = energy w" "rest w1 = rest w"
  then show "\<exists>w'. writeToDevice i2c dev (address_bytes a @ bs) w1 = (eSUCCESS, w') \<and> ok w' \<and>
      mem w' = overwrite (unat a) (take (energy w) bs) (mem w) \<and> energy w' = energy w - length bs \<and> rest w' = rest w"
    using page_write [of w1 bs a] assms(2-4) by simp
qed

lemma setReadOffsetPointer_sets:
  assumes "ok w" "unat a < 65536"
  shows "\<exists>w'. setReadOffsetPointer i2c dev a w = (True, w') \<and> ok w' \<and> busy w' = 0 \<and> pointer w' = unat a \<and>
    mem w' = mem w \<and> energy w' = energy w \<and> rest w' = rest w"
  unfolding setReadOffsetPointer_def
proof (rule retry_until_ready [OF _ assms(1) write_cycle [OF assms(1)] refl refl refl])
  fix w1
  assume "ok w1" "busy w1 = 0" "mem w1 = mem w" "energy w1 = energy w" "rest w1 = rest w"
  then show "\<exists>w'. writeToDevice i2c dev (address_bytes a) w1 = (eSUCCESS, w') \<and> ok w' \<and> busy w' = 0 \<and> pointer w' = unat a \<and>
      mem w' = mem w \<and> energy w' = energy w \<and> rest w' = rest w"
    using set_pointer [of w1 a] assms(2) by simp
qed

lemma write_pages_store:
  "ok w \<Longrightarrow> unat a + length src \<le> 65536 \<Longrightarrow> n = 128 - unat a mod 128 \<or> src = [] \<Longrightarrow>
   \<exists>w'. write_pages i2c dev a n src w = (True, w') \<and> ok w' \<and>
     mem w' = overwrite (unat a) (take (energy w) src) (mem w) \<and> energy w' = energy w - length src \<and> rest w' = rest w"
proof (induction "length src" arbitrary: a n src w rule: less_induct)
  case less
  show ?case
  proof (cases "src = []")
    case True
    then show ?thesis
      using less.prems(1) by (simp add: write_pages.simps)
  next
    case False
    then have n: "n = 128 - unat a mod 128"
      using less.prems(3) by simp
    have pos: "0 < n" "unat a mod 128 + n = 128"
      unfolding n by (simp_all add: less_imp_le)
    let ?k = "if length src > n then n else length src"
    let ?now = "take ?k src" and ?later = "drop ?k src"
    have now: "?now \<noteq> []" "length ?now = ?k" "length ?later < length src" "src = ?now @ ?later"
      using False pos by auto
    have a: "unat a < 65536" "unat a mod 128 + length ?now \<le> 128"
      using less.prems(2) False pos by (auto simp flip: length_greater_0_conv)
    obtain w1 where w1: "writePage i2c dev a ?now w = (True, w1)" "ok w1" "mem w1 = overwrite (unat a) (take (energy w) ?now) (mem w)"
        "energy w1 = energy w - length ?now" "rest w1 = rest w"
      using writePage_stores [OF less.prems(1) now(1) a] by blast
    have a': "unat (a + of_nat ?k) = unat a + ?k"
      using less.prems(2) by (intro unat_offset) simp
    have "128 = 128 - unat (a + of_nat ?k) mod 128 \<or> ?later = []"
    proof (cases "length src > n")
      case True
      then show ?thesis
        using a' pos(2) by (simp add: mod_add_left_eq [of "unat a" 128 n, symmetric])
    qed simp
    then obtain w2 where w2: "write_pages i2c dev (a + of_nat ?k) 128 ?later w1 = (True, w2)" "ok w2"
        "mem w2 = overwrite (unat (a + of_nat ?k)) (take (energy w1) ?later) (mem w1)" "energy w2 = energy w1 - length ?later" "rest w2 = rest w1"
      using less.hyps [OF now(3) w1(2), of "a + of_nat ?k" 128] less.prems(2) a' by auto
    have "mem w2 = overwrite (unat a) (take (energy w) (?now @ ?later)) (mem w)"
      unfolding w2(3) w1(3,4) a' using overwrite_take_append [of "unat a" ?now ?later "mem w" "energy w"] size [OF less.prems(1)] less.prems(2) now(2)
      by (simp del: append_take_drop_id)
    then have "mem w2 = overwrite (unat a) (take (energy w) src) (mem w)" "energy w2 = energy w - length src"
      using now(4) w1(4) w2(4) by (metis, simp)
    moreover have "write_pages i2c dev a n src w = (True, w2)"
      using False w1(1) w2(1) by (subst write_pages.simps) (simp add: Let_def BYTES_PER_PAGE_def)
    ultimately show ?thesis
      using w2(2,5) w1(5) by auto
  qed
qed

lemma eeprom_write_stores:
  assumes "ok (w_bus W)" "w_started W dev" "bs \<noteq> []" "unat a + length bs \<le> 65536"
  shows "\<exists>w'. eeprom_write i2c dev a bs W = (True, W\<lparr>w_bus := w'\<rparr>) \<and> ok w' \<and>
    mem w' = overwrite (unat a) (take (energy (w_bus W)) bs) (mem (w_bus W)) \<and>
    energy w' = energy (w_bus W) - length bs \<and> rest w' = rest (w_bus W)"
proof -
  have a: "unat a < 65536"
    using assms(3,4) by (cases bs) auto
  have q: "unat (a div BYTES_PER_PAGE) = unat a div 128"
    by (simp add: BYTES_PER_PAGE_def unat_div)
  have p1: "unat ((a div BYTES_PER_PAGE + 1) * BYTES_PER_PAGE) = (unat a div 128 + 1) * 128"
    using a by (simp add: unat_word_ariths q) (simp add: BYTES_PER_PAGE_def)
  then have "unat ((a div BYTES_PER_PAGE + 1) * BYTES_PER_PAGE - a) = (unat a div 128 + 1) * 128 - unat a"
    using dividend_less_times_div [of 128 "unat a"] by (subst unat_word_sub_no_wrap) simp_all
  then have rem: "unat ((a div BYTES_PER_PAGE + 1) * BYTES_PER_PAGE - a) = 128 - unat a mod 128"
    by presburger
  have "unat (a + of_nat (length bs)) = unat a + length bs"
    using assms(4) by (intro unat_offset) simp
  then have "\<not> a + of_nat (length bs) > NUM_PAGES * BYTES_PER_PAGE"
    using assms(4) by (simp add: word_less_nat_alt NUM_PAGES_def BYTES_PER_PAGE_def)
  then show ?thesis
    using write_pages_store [OF assms(1,4) disjI1 [OF rem]] assms(2) by (auto simp: eeprom_write_def Let_def)
qed

lemma eeprom_read_delivers:
  assumes "ok (w_bus W)" "w_started W dev" "0 < n" "unat a + unat n \<le> 65536"
  shows "\<exists>w'. eeprom_read i2c dev a n W = (Some (bytes_at (unat a) (unat n) (mem (w_bus W))), W\<lparr>w_bus := w'\<rparr>) \<and> ok w' \<and>
    mem w' = mem (w_bus W) \<and> energy w' = energy (w_bus W) \<and> rest w' = rest (w_bus W)"
proof -
  have "unat a < 65536"
    using assms(3,4) by (simp add: word_less_nat_alt)
  then obtain w1 where w1: "setReadOffsetPointer i2c dev a (w_bus W) = (True, w1)" "ok w1" "busy w1 = 0" "pointer w1 = unat a"
      "mem w1 = mem (w_bus W)" "energy w1 = energy (w_bus W)" "rest w1 = rest (w_bus W)"
    using setReadOffsetPointer_sets [OF assms(1)] by blast
  have "unat (a + n) = unat a + unat n"
    using assms(4) by (intro unat_word_add_no_wrap) simp
  then have "\<not> a + n > NUM_PAGES * BYTES_PER_PAGE"
    using assms(4) by (simp add: word_less_nat_alt NUM_PAGES_def BYTES_PER_PAGE_def)
  then show ?thesis
    using current_read [OF w1(2,3), of n] w1 assms(2,4) by (auto simp: eeprom_read_def)
qed

lemma eeprom_memory:
  "nv_memory (CAT24C512 i2c dev) (\<lambda>W. mem (w_bus W)) (\<lambda>W. energy (w_bus W)) (\<lambda>W. ok (w_bus W) \<and> w_started W dev)"
proof unfold_locales
  fix W :: "'w nv_world" and n off :: size_t and bs :: "u8 list"
  assume W: "ok (w_bus W) \<and> w_started W dev"
  note len = size [of "w_bus W"]
  show "length (mem (w_bus W)) < 2 ^ 32"
    using W len by simp
  show "\<exists>W'. nv_read (CAT24C512 i2c dev) off n W = (Some (bytes_at (unat off) (unat n) (mem (w_bus W))), W') \<and>
      (ok (w_bus W') \<and> w_started W' dev) \<and> mem (w_bus W') = mem (w_bus W)"
    if "0 < n" "unat off + unat n \<le> length (mem (w_bus W))"
    using eeprom_read_delivers [of W n off] W that len by (auto simp: CAT24C512_def)
  show "\<exists>W'. nv_write (CAT24C512 i2c dev) off bs W = (True, W') \<and> (ok (w_bus W') \<and> w_started W' dev) \<and>
      mem (w_bus W') = overwrite (unat off) (take (energy (w_bus W)) bs) (mem (w_bus W)) \<and> energy (w_bus W') = energy (w_bus W) - length bs"
    if "bs \<noteq> []" "unat off + length bs \<le> length (mem (w_bus W))"
    using eeprom_write_stores [of W bs off] W that len by (auto simp: CAT24C512_def)
qed

end

text \<open>
  The chips on a bus. A write rolls over at the end of its page and starts a write cycle of five milliseconds, a read
  rolls over at the end of the memory.
\<close>

record chip =
  chip_mem :: "u8 list"
  chip_pointer :: nat
  chip_busy :: nat

record i2c_bus =
  bus_chips :: "u8 \<Rightarrow> chip"
  bus_energy :: nat

fun store_in_page :: "nat \<Rightarrow> u8 list \<Rightarrow> u8 list \<Rightarrow> u8 list" where
  "store_in_page a [] mem = mem"
| "store_in_page a (b # bs) mem = store_in_page (a div 128 * 128 + Suc a mod 128) bs (mem[a := b])"

definition chip_bus :: "i2c_bus i2c_master" where
  "chip_bus =
     \<lparr>writeToDevice = (\<lambda>dev bs B.
        let c = bus_chips B dev
        in if 0 < chip_busy c then (eNO_ACK, B)
           else case bs of
                  hi # lo # data \<Rightarrow>
                    let a = unat hi * 256 + unat lo;
                        c = (if data = [] then c\<lparr>chip_pointer := a\<rparr>
                             else c\<lparr>chip_mem := store_in_page a (take (bus_energy B) data) (chip_mem c), chip_busy := 5\<rparr>)
                    in (eSUCCESS, B\<lparr>bus_chips := (bus_chips B)(dev := c), bus_energy := bus_energy B - length data\<rparr>)
                | _ \<Rightarrow> (eSUCCESS, B)),
      readFromDevice = (\<lambda>dev n B.
        let c = bus_chips B dev
        in if 0 < chip_busy c then ((eNO_ACK, []), B)
           else ((eSUCCESS, take (unat n) (drop (chip_pointer c) (chip_mem c) @ chip_mem c)),
                 B\<lparr>bus_chips := (bus_chips B)(dev := c\<lparr>chip_pointer := (chip_pointer c + unat n) mod 65536\<rparr>)\<rparr>)),
      sleep = (\<lambda>ms B. B\<lparr>bus_chips := \<lambda>d. (bus_chips B d)\<lparr>chip_busy := chip_busy (bus_chips B d) - ms\<rparr>\<rparr>)\<rparr>"

lemma overwrite_Cons: "i < length mem \<Longrightarrow> overwrite i (b # bs) mem = overwrite (Suc i) bs (mem[i := b])"
  by (simp add: overwrite_def upd_conv_take_nth_drop take_Suc_conv_app_nth add.commute)

lemma store_in_page_overwrite:
  "a + length bs \<le> length mem \<Longrightarrow> a mod 128 + length bs \<le> 128 \<Longrightarrow> store_in_page a bs mem = overwrite a bs mem"
proof (induction bs arbitrary: a mem)
  case (Cons b bs)
  show ?case
  proof (cases bs)
    case Nil
    then show ?thesis
      using Cons.prems by (simp add: overwrite_Cons)
  next
    case (Cons c cs)
    have "a mod 128 + 1 < 128"
      using Cons Cons.prems by simp
    then have "Suc a mod 128 = Suc (a mod 128)"
      by (simp add: mod_Suc)
    then have "a div 128 * 128 + Suc a mod 128 = Suc a"
      using div_mult_mod_eq [of a 128] by simp
    then show ?thesis
      using Cons.IH [of "Suc a" "mem[a := b]"] Cons.prems \<open>Suc a mod 128 = Suc (a mod 128)\<close> by (simp add: overwrite_Cons)
  qed
qed simp

lemma address_of_bytes:
  assumes "unat a < 65536"
  shows "\<exists>hi lo. address_bytes a = [hi, lo] \<and> unat hi * 256 + unat lo = unat a"
proof -
  have low: "unat (ucast (x AND 0xFF :: size_t) :: u8) = unat x mod 256" for x :: size_t
  proof -
    have "x AND 0xFF = take_bit 8 x"
      by (simp add: take_bit_eq_mask mask_eq_exp_minus_1)
    then have "(ucast (x AND 0xFF) :: u8) = ucast x"
      by (intro bit_word_eqI) (auto simp: bit_simps)
    then show ?thesis
      by (simp add: unsigned_ucast_eq take_bit_eq_mod)
  qed
  have "unat (drop_bit 8 a) = unat a div 256"
    by (simp add: drop_bit_eq_div unat_div)
  then show ?thesis
    using assms low [of a] low [of "drop_bit 8 a"] by (auto simp: address_bytes_def)
qed

definition chips_ok :: "i2c_bus \<Rightarrow> bool" where
  "chips_ok B \<longleftrightarrow> (\<forall>d. length (chip_mem (bus_chips B d)) = 65536 \<and> chip_busy (bus_chips B d) \<le> 5)"

interpretation chip: eeprom_chip chip_bus dev "\<lambda>B. chip_mem (bus_chips B dev)" "\<lambda>B. chip_pointer (bus_chips B dev)"
    "\<lambda>B. chip_busy (bus_chips B dev)" bus_energy chips_ok "\<lambda>B d. if d = dev then [] else chip_mem (bus_chips B d)" for dev
proof unfold_locales
  fix B :: i2c_bus
  assume B: "chips_ok B"
  show "length (chip_mem (bus_chips B dev)) = 65536" "chip_busy (bus_chips B dev) \<le> MAX_WAIT_RETRIES"
    using B by (auto simp: chips_ok_def MAX_WAIT_RETRIES_def intro: order_trans)
  show "\<exists>e. writeToDevice chip_bus dev bs B = (e, B) \<and> e \<noteq> eSUCCESS" if "0 < chip_busy (bus_chips B dev)" for bs
    using that by (simp add: chip_bus_def)
  show "chips_ok (sleep chip_bus MAX_WAIT_RETRIES B) \<and> chip_mem (bus_chips (sleep chip_bus MAX_WAIT_RETRIES B) dev) = chip_mem (bus_chips B dev) \<and>
      bus_energy (sleep chip_bus MAX_WAIT_RETRIES B) = bus_energy B \<and>
      (\<lambda>d. if d = dev then [] else chip_mem (bus_chips (sleep chip_bus MAX_WAIT_RETRIES B) d)) = (\<lambda>d. if d = dev then [] else chip_mem (bus_chips B d)) \<and>
      (0 < chip_busy (bus_chips B dev) \<longrightarrow> chip_busy (bus_chips (sleep chip_bus MAX_WAIT_RETRIES B) dev) < chip_busy (bus_chips B dev))"
    using B by (auto simp: chip_bus_def chips_ok_def MAX_WAIT_RETRIES_def intro: order_trans [OF diff_le_self])
  fix a :: size_t
  assume ready: "chip_busy (bus_chips B dev) = 0"
  {
    assume a: "unat a < 65536"
    then obtain hi lo where ab: "address_bytes a = [hi, lo]" "unat hi * 256 + unat lo = unat a"
      using address_of_bytes by blast
    show "\<exists>B'. writeToDevice chip_bus dev (address_bytes a) B = (eSUCCESS, B') \<and> chips_ok B' \<and> chip_busy (bus_chips B' dev) = 0 \<and>
        chip_pointer (bus_chips B' dev) = unat a \<and> chip_mem (bus_chips B' dev) = chip_mem (bus_chips B dev) \<and> bus_energy B' = bus_energy B \<and>
        (\<lambda>d. if d = dev then [] else chip_mem (bus_chips B' d)) = (\<lambda>d. if d = dev then [] else chip_mem (bus_chips B d))"
      using B ready ab by (auto simp: chip_bus_def chips_ok_def Let_def)
    show "\<exists>B'. writeToDevice chip_bus dev (address_bytes a @ bs) B = (eSUCCESS, B') \<and> chips_ok B' \<and>
        chip_mem (bus_chips B' dev) = overwrite (unat a) (take (bus_energy B) bs) (chip_mem (bus_chips B dev)) \<and>
        bus_energy B' = bus_energy B - length bs \<and>
        (\<lambda>d. if d = dev then [] else chip_mem (bus_chips B' d)) = (\<lambda>d. if d = dev then [] else chip_mem (bus_chips B d))"
      if bs: "bs \<noteq> []" "unat a mod 128 + length bs \<le> 128" for bs
    proof -
      have "unat a div 128 < 512"
        using a by (simp add: less_mult_imp_div_less)
      then have "unat a + length bs \<le> 65536"
        using bs(2) mult_div_mod_eq [of 128 "unat a"] by linarith
      then have "store_in_page (unat a) (take (bus_energy B) bs) (chip_mem (bus_chips B dev)) =
          overwrite (unat a) (take (bus_energy B) bs) (chip_mem (bus_chips B dev))"
        using B bs(2) by (intro store_in_page_overwrite) (auto simp: chips_ok_def min_def)
      moreover have "length (overwrite (unat a) (take (bus_energy B) bs) (chip_mem (bus_chips B dev))) = 65536"
        using B \<open>unat a + length bs \<le> 65536\<close> by (subst length_overwrite) (auto simp: chips_ok_def)
      ultimately show ?thesis
        using B ready ab bs(1) by (auto simp: chip_bus_def chips_ok_def Let_def)
    qed
  }
  show "\<exists>B'. readFromDevice chip_bus dev n B = ((eSUCCESS, bytes_at (chip_pointer (bus_chips B dev)) (unat n) (chip_mem (bus_chips B dev))), B') \<and>
      chips_ok B' \<and> chip_mem (bus_chips B' dev) = chip_mem (bus_chips B dev) \<and> bus_energy B' = bus_energy B \<and>
      (\<lambda>d. if d = dev then [] else chip_mem (bus_chips B' d)) = (\<lambda>d. if d = dev then [] else chip_mem (bus_chips B d))"
    if "chip_pointer (bus_chips B dev) + unat n \<le> 65536" for n
    using B ready that by (auto simp: chip_bus_def chips_ok_def Let_def bytes_at_def)
qed

interpretation eeprom: nv_memory "CAT24C512 chip_bus dev" "\<lambda>W. chip_mem (bus_chips (w_bus W) dev)" "\<lambda>W. bus_energy (w_bus W)"
    "\<lambda>W. chips_ok (w_bus W) \<and> w_started W dev" for dev
  by (rule chip.eeprom_memory)

text \<open>The regions of the persistent storage on such a device.\<close>

interpretation eeprom_region: region_media "NVAdapter (CAT24C512 chip_bus dev) start len"
    "\<lambda>W. bytes_at (unat start) (unat len) (chip_mem (bus_chips (w_bus W) dev))" "\<lambda>W. bytes_at b m (chip_mem (bus_chips (w_bus W) dev))"
    "\<lambda>W. bus_energy (w_bus W)"
    "\<lambda>W. (chips_ok (w_bus W) \<and> w_started W dev) \<and> apart (unat start) (unat len) b m (length (chip_mem (bus_chips (w_bus W) dev)))" for dev start len b m
  by (rule eeprom.adapter_region)

interpretation eeprom_mirror: mirrored_media "\<lambda>s. NVAdapter (CAT24C512 chip_bus dev) (start s) len"
    "\<lambda>s W. bytes_at (unat (start s)) (unat len) (chip_mem (bus_chips (w_bus W) dev))" "\<lambda>W. bus_energy (w_bus W)"
    "\<lambda>W. (chips_ok (w_bus W) \<and> w_started W dev) \<and>
      apart (unat (start RegionA)) (unat len) (unat (start RegionB)) (unat len) (length (chip_mem (bus_chips (w_bus W) dev)))" for dev start len
  by (rule eeprom.adapter_mirrored)

text \<open>
  C24. The EEPROM driver. On every chip and bus that keep the promises of the data sheet, what is written with one call,
  however many pages it spans and whatever write cycle is still running, is read back with the next call.
\<close>

theorem eeprom_write_then_read:
  assumes "eeprom_chip i2c dev mem pointer busy energy ok rest" "ok (w_bus W)" "w_started W dev"
    and "bs \<noteq> []" "unat a + length bs \<le> 65536" "length bs \<le> energy (w_bus W)"
  shows "\<exists>W' W''. eeprom_write i2c dev a bs W = (True, W') \<and> eeprom_read i2c dev a (of_nat (length bs)) W' = (Some bs, W'')"
proof -
  obtain w' where w': "eeprom_write i2c dev a bs W = (True, W\<lparr>w_bus := w'\<rparr>)" "ok w'" "mem w' = overwrite (unat a) bs (mem (w_bus W))"
    using eeprom_chip.eeprom_write_stores [OF assms(1-5)] assms(6) by auto
  have n: "unat (of_nat (length bs) :: size_t) = length bs"
    using assms(5) by (intro unat_of_nat_small) simp
  moreover have "(0 :: size_t) < of_nat (length bs)"
    using n assms(4) by (simp add: word_less_nat_alt)
  moreover have "bytes_at (unat a) (length bs) (mem w') = bs"
    unfolding w'(3) using eeprom_chip.size [OF assms(1,2)] assms(5) by simp
  ultimately show ?thesis
    using eeprom_chip.eeprom_read_delivers [OF assms(1), of "W\<lparr>w_bus := w'\<rparr>" "of_nat (length bs)" a] w' assms(3,5) by auto
qed

theorem eeprom_write_then_read_witness:
  "\<exists>W' W''. eeprom_write chip_bus 0x50 126 [1, 2, 3, 4]
      \<lparr>w_bus = \<lparr>bus_chips = \<lambda>_. \<lparr>chip_mem = replicate 65536 0xFF, chip_pointer = 0, chip_busy = 3\<rparr>, bus_energy = 9\<rparr>, w_started = \<lambda>_. True\<rparr> = (True, W') \<and>
    eeprom_read chip_bus 0x50 126 4 W' = (Some [1, 2, 3, 4], W'')"
  using eeprom_write_then_read [OF chip.eeprom_chip_axioms [where dev = "0x50"], where bs = "[1, 2, 3, 4]" and a = 126
      and W = "\<lparr>w_bus = \<lparr>bus_chips = \<lambda>_. \<lparr>chip_mem = replicate 65536 0xFF, chip_pointer = 0, chip_busy = 3\<rparr>, bus_energy = 9\<rparr>, w_started = \<lambda>_. True\<rparr>"]
  by (simp add: chips_ok_def)

subsection \<open>A gang of drivers is one array of bytes\<close>

text \<open>
  The drivers of a gang: each is an array of bytes of the size it reports, and an operation on one of them does not touch
  the others.
\<close>

lemma overwrite_split:
  assumes "i + n = length xs" "i + length bs \<le> length xs + length ys"
  shows "overwrite i bs (xs @ ys) = overwrite i (take n bs) xs @ overwrite 0 (drop n bs) ys"
proof (cases "length bs \<le> n")
  case False
  then have "i + length bs - length xs = length bs - n"
    using assms(1) by simp
  moreover have "take n bs @ drop n bs @ zs = bs @ zs" for zs
    by (simp flip: append_assoc)
  ultimately show ?thesis
    using False assms by (simp add: overwrite_def)
qed (use assms in \<open>simp add: overwrite_def\<close>)

lemma overwrite_take_split:
  assumes "i + n = length xs" "i + length bs \<le> length xs + length ys"
  shows "overwrite i (take k bs) (xs @ ys) = overwrite i (take k (take n bs)) xs @ overwrite 0 (take (k - n) (drop n bs)) ys"
  using overwrite_split [of i n xs "take k bs" ys] assms by (simp add: drop_take min.commute)

lemma bytes_at_split:
  "i \<le> length xs \<Longrightarrow> bytes_at i n (xs @ ys) = bytes_at i (min n (length xs - i)) xs @ bytes_at 0 (n - (length xs - i)) ys"
  by (simp add: bytes_at_def min_def)

lemma overwrite_skip: "overwrite (length xs + i) bs (xs @ ys) = xs @ overwrite i bs ys"
  by (simp add: overwrite_def)

lemma bytes_at_skip: "bytes_at (length xs + i) n (xs @ ys) = bytes_at i n ys"
  by (simp add: bytes_at_def)

text \<open>The contents of the drivers one after the other.\<close>

definition gang_contents :: "'w nv_driver list \<Rightarrow> (nat \<Rightarrow> 'w \<Rightarrow> u8 list) \<Rightarrow> 'w \<Rightarrow> u8 list" where
  "gang_contents drivers part w = concat (map (\<lambda>k. part k w) [0..<length drivers])"

locale gang_parts =
  fixes drivers :: "'w nv_driver list" and part :: "nat \<Rightarrow> 'w \<Rightarrow> u8 list" and energy :: "'w \<Rightarrow> nat" and ok :: "'w \<Rightarrow> bool"
  assumes part_size: "ok w \<Longrightarrow> k < length drivers \<Longrightarrow> unat (nv_totalSize (drivers ! k)) = length (part k w)"
    and part_not_empty: "ok w \<Longrightarrow> k < length drivers \<Longrightarrow> part k w \<noteq> []"
    and total: "ok w \<Longrightarrow> length (concat (map (\<lambda>k. part k w) [0..<length drivers])) < 2 ^ 32"
    and part_read: "ok w \<Longrightarrow> k < length drivers \<Longrightarrow> 0 < n \<Longrightarrow> unat off + unat n \<le> length (part k w) \<Longrightarrow>
      \<exists>w'. nv_read (drivers ! k) off n w = (Some (bytes_at (unat off) (unat n) (part k w)), w') \<and> ok w' \<and>
        (\<forall>j < length drivers. part j w' = part j w)"
    and part_write: "ok w \<Longrightarrow> k < length drivers \<Longrightarrow> bs \<noteq> [] \<Longrightarrow> unat off + length bs \<le> length (part k w) \<Longrightarrow>
      \<exists>w'. nv_write (drivers ! k) off bs w = (True, w') \<and> ok w' \<and> part k w' = overwrite (unat off) (take (energy w) bs) (part k w) \<and>
        (\<forall>j < length drivers. j \<noteq> k \<longrightarrow> part j w' = part j w) \<and> energy w' = energy w - length bs"
begin

abbreviation parts :: "nat \<Rightarrow> 'w \<Rightarrow> u8 list" where
  "parts i w \<equiv> concat (map (\<lambda>k. part k w) [i..<length drivers])"

lemma parts_Cons: "i < length drivers \<Longrightarrow> parts i w = part i w @ parts (Suc i) w"
  by (simp add: upt_conv_Cons)

lemma parts_end: "length drivers \<le> i \<Longrightarrow> parts i w = []"
  by simp

lemma parts_cong: "\<forall>j < length drivers. i \<le> j \<longrightarrow> part j w' = part j w \<Longrightarrow> parts i w' = parts i w"
  by (auto intro: arg_cong [where f = concat])

lemma parts_length: "ok w \<Longrightarrow> length (parts i w) < 2 ^ 32"
proof -
  assume "ok w"
  have "length (parts i w) \<le> length (parts 0 w)"
  proof (cases "i \<le> length drivers")
    case True
    then have "[0..<length drivers] = [0..<i] @ [i..<length drivers]"
      using upt_add_eq_append [of 0 i "length drivers - i"] by simp
    then show ?thesis by simp
  qed simp
  then show ?thesis using total [OF \<open>ok w\<close>] by simp
qed

lemma rest_of_driver:
  assumes "ok w" "k < length drivers" "unat off < length (part k w)" "unat off + n < 2 ^ 32"
  shows "nv_totalSize (drivers ! k) < off + of_nat n \<longleftrightarrow> length (part k w) - unat off < n"
    and "unat (nv_totalSize (drivers ! k) - off) = length (part k w) - unat off"
proof -
  have "unat (of_nat n :: size_t) = n"
    using assms(4) by (intro unat_of_nat_small) simp
  then have "unat (off + of_nat n) = unat off + n"
    using assms(4) by (subst unat_word_add_no_wrap) simp_all
  then show "nv_totalSize (drivers ! k) < off + of_nat n \<longleftrightarrow> length (part k w) - unat off < n"
    using part_size [OF assms(1,2)] assms(3) by (auto simp: word_less_nat_alt)
  show "unat (nv_totalSize (drivers ! k) - off) = length (part k w) - unat off"
    using part_size [OF assms(1,2)] assms(3) by (subst unat_word_sub_no_wrap) simp_all
qed

lemma driverWrite_part:
  assumes "ok w" "k < length drivers" "bs \<noteq> []" "unat off < length (part k w)" "unat off + length bs < 2 ^ 32"
  defines "m \<equiv> length (part k w) - unat off"
  shows "\<exists>w'. driverWrite (drivers ! k) off bs w = (True, drop m bs, w') \<and> ok w' \<and>
    part k w' = overwrite (unat off) (take (energy w) (take m bs)) (part k w) \<and>
    (\<forall>j < length drivers. j \<noteq> k \<longrightarrow> part j w' = part j w) \<and> energy w' = energy w - length (take m bs)"
proof -
  have "take m bs \<noteq> []" "unat off + length (take m bs) \<le> length (part k w)"
    using assms(3,4) by (auto simp: m_def)
  note stores = part_write [OF assms(1,2) this]
  have "driverWrite (drivers ! k) off bs w = (case nv_write (drivers ! k) off (take m bs) w of (r, w) \<Rightarrow> (r, drop m bs, w))"
    using rest_of_driver [OF assms(1,2,4,5)] by (simp add: driverWrite_def Let_def m_def)
  then show ?thesis using stores by auto
qed

lemma driverRead_part:
  assumes "ok w" "k < length drivers" "0 < n" "unat off < length (part k w)" "unat off + n < 2 ^ 32"
  defines "m \<equiv> length (part k w) - unat off"
  shows "\<exists>w'. driverRead (drivers ! k) off n w = (Some (bytes_at (unat off) (min n m) (part k w)), n - m, w') \<and> ok w' \<and>
    (\<forall>j < length drivers. part j w' = part j w)"
proof -
  have n: "unat (of_nat (min n m) :: size_t) = min n m"
    using assms(5) by (intro unat_of_nat_small) simp
  moreover have "(0 :: size_t) < of_nat (min n m)"
    using n assms(3,4) by (simp add: word_less_nat_alt m_def)
  moreover have "unat off + min n m \<le> length (part k w)"
    using assms(4) by (simp add: m_def)
  ultimately obtain w' where w': "nv_read (drivers ! k) off (of_nat (min n m)) w = (Some (bytes_at (unat off) (min n m) (part k w)), w')" "ok w'"
      "\<forall>j < length drivers. part j w' = part j w"
    using part_read [OF assms(1,2), of "of_nat (min n m)" off] by auto
  have "driverRead (drivers ! k) off n w = (case nv_read (drivers ! k) off (of_nat (min n m)) w of (r, w) \<Rightarrow> (r, n - m, w))"
    using rest_of_driver [OF assms(1,2,4,5)] by (simp add: driverRead_def Let_def m_def min_def not_less)
  then show ?thesis using w' by auto
qed

lemma write_drivers_part:
  assumes "ok w" "i < length drivers \<Longrightarrow> unat off < length (part i w)" "unat off + length bs \<le> length (parts i w)"
  shows "\<exists>w'. write_drivers (drop i drivers) off bs w = (True, w') \<and> ok w' \<and>
    parts i w' = overwrite (unat off) (take (energy w) bs) (parts i w) \<and>
    (\<forall>j < length drivers. j < i \<longrightarrow> part j w' = part j w) \<and> energy w' = energy w - length bs"
  using assms
proof (induction "length drivers - i" arbitrary: i off bs w)
  case 0
  then show ?case by simp
next
  case (Suc x)
  show ?case
  proof (cases "bs = []")
    case True
    then show ?thesis using Suc(3) by (cases "drop i drivers") auto
  next
    case False
    let ?m = "length (part i w) - unat off"
    have i: "i < length drivers" "drop i drivers = drivers ! i # drop (Suc i) drivers" "x = length drivers - Suc i"
      using Suc(2) by (auto intro: Cons_nth_drop_Suc [symmetric])
    have "unat off + length bs < 2 ^ 32"
      using Suc(5) parts_length [OF Suc(3), of i] by simp
    then obtain w1 where w1: "driverWrite (drivers ! i) off bs w = (True, drop ?m bs, w1)" "ok w1"
        "part i w1 = overwrite (unat off) (take (energy w) (take ?m bs)) (part i w)"
        "\<forall>j < length drivers. j \<noteq> i \<longrightarrow> part j w1 = part j w" "energy w1 = energy w - length (take ?m bs)"
      using driverWrite_part [OF Suc(3) i(1) False Suc(4) [OF i(1)]] by blast
    have rest: "parts (Suc i) w1 = parts (Suc i) w"
      using w1(4) by (intro parts_cong) auto
    have "Suc i < length drivers \<Longrightarrow> unat (0 :: size_t) < length (part (Suc i) w1)"
      using part_not_empty [OF w1(2)] by simp
    moreover have "unat (0 :: size_t) + length (drop ?m bs) \<le> length (parts (Suc i) w1)"
      using Suc(4,5) i(1) unfolding rest by (simp add: parts_Cons)
    ultimately obtain w' where w': "write_drivers (drop (Suc i) drivers) 0 (drop ?m bs) w1 = (True, w')" "ok w'"
        "parts (Suc i) w' = overwrite 0 (take (energy w1) (drop ?m bs)) (parts (Suc i) w)"
        "\<forall>j < length drivers. j < Suc i \<longrightarrow> part j w' = part j w1" "energy w' = energy w1 - length (drop ?m bs)"
      using Suc(1) [OF i(3) w1(2), of 0 "drop ?m bs"] unfolding rest by auto
    have "take (energy w1) (drop ?m bs) = take (energy w - ?m) (drop ?m bs)"
      using w1(5) by (cases "length bs \<le> ?m") (auto simp: min_def)
    then have "parts i w' = overwrite (unat off) (take (energy w) bs) (parts i w)"
      using w' w1(3) i(1) Suc(4,5) overwrite_take_split [of "unat off" ?m "part i w" bs "parts (Suc i) w" "energy w"]
      by (simp add: parts_Cons)
    moreover have "energy w' = energy w - length bs"
      using w'(5) w1(5) by (auto simp: min_def)
    moreover have "write_drivers (drop i drivers) off bs w = (True, w')"
      using w'(1) w1(1) i(2) False by simp
    moreover have "\<forall>j < length drivers. j < i \<longrightarrow> part j w' = part j w"
      using w'(4) w1(4) by simp
    ultimately show ?thesis
      using w'(2) by blast
  qed
qed

lemma read_drivers_part:
  assumes "ok w" "i < length drivers \<Longrightarrow> unat off < length (part i w)" "unat off + n \<le> length (parts i w)"
  shows "\<exists>w'. read_drivers (drop i drivers) off n w = (Some (bytes_at (unat off) n (parts i w)), w') \<and> ok w' \<and>
    (\<forall>j < length drivers. part j w' = part j w)"
  using assms
proof (induction "length drivers - i" arbitrary: i off n w)
  case 0
  then show ?case by (simp add: bytes_at_def)
next
  case (Suc x)
  show ?case
  proof (cases "n = 0")
    case True
    then show ?thesis using Suc(3) by (cases "drop i drivers") (auto simp: bytes_at_def)
  next
    case False
    let ?m = "length (part i w) - unat off"
    have i: "i < length drivers" "drop i drivers = drivers ! i # drop (Suc i) drivers" "x = length drivers - Suc i"
      using Suc(2) by (auto intro: Cons_nth_drop_Suc [symmetric])
    have "unat off + n < 2 ^ 32"
      using Suc(5) parts_length [OF Suc(3), of i] by simp
    then obtain w1 where w1: "driverRead (drivers ! i) off n w = (Some (bytes_at (unat off) (min n ?m) (part i w)), n - ?m, w1)" "ok w1"
        "\<forall>j < length drivers. part j w1 = part j w"
      using driverRead_part [OF Suc(3) i(1) _ Suc(4) [OF i(1)], of n] False by blast
    have rest: "parts (Suc i) w1 = parts (Suc i) w"
      using w1(3) by (intro parts_cong) auto
    have "Suc i < length drivers \<Longrightarrow> unat (0 :: size_t) < length (part (Suc i) w1)"
      using part_not_empty [OF w1(2)] by simp
    moreover have "unat (0 :: size_t) + (n - ?m) \<le> length (parts (Suc i) w1)"
      using Suc(4,5) i(1) unfolding rest by (simp add: parts_Cons)
    ultimately obtain w' where w': "read_drivers (drop (Suc i) drivers) 0 (n - ?m) w1 = (Some (bytes_at 0 (n - ?m) (parts (Suc i) w)), w')"
        "ok w'" "\<forall>j < length drivers. part j w' = part j w1"
      using Suc(1) [OF i(3) w1(2), of 0 "n - ?m"] unfolding rest by auto
    have "bytes_at (unat off) n (parts i w) = bytes_at (unat off) (min n ?m) (part i w) @ bytes_at 0 (n - ?m) (parts (Suc i) w)"
      using Suc(4) i(1) by (simp add: parts_Cons bytes_at_split)
    then have "read_drivers (drop i drivers) off n w = (Some (bytes_at (unat off) n (parts i w)), w')"
      using w'(1) w1(1) i(2) False by simp
    then show ?thesis
      using w'(2,3) w1(3) by auto
  qed
qed

lemma find_driver_part:
  assumes "ok w" "unat off = unat start + r" "r < length (parts i w)" "unat start + length (parts i w) < 2 ^ 32"
  shows "\<exists>k off'. find_driver (drop i drivers) start off = Some (drop k drivers, off') \<and> i \<le> k \<and> k < length drivers \<and>
    unat off' < length (part k w) \<and> r = length (concat (map (\<lambda>j. part j w) [i..<k])) + unat off'"
  using assms
proof (induction "length drivers - i" arbitrary: i start r)
  case 0
  then show ?case by simp
next
  case (Suc x)
  have i: "i < length drivers" "drop i drivers = drivers ! i # drop (Suc i) drivers" "x = length drivers - Suc i"
    using Suc(2) by (auto intro: Cons_nth_drop_Suc [symmetric])
  let ?start = "start + nv_totalSize (drivers ! i)"
  have s: "unat ?start = unat start + length (part i w)"
    using part_size [OF Suc(3) i(1)] Suc(6) i(1) by (subst unat_word_add_no_wrap) (simp_all add: parts_Cons)
  show ?case
  proof (cases "off < ?start")
    case True
    then have "r < length (part i w)"
      using s Suc(4) by (simp add: word_less_nat_alt)
    moreover have "unat (off - start) = r"
      using Suc(4) by (subst unat_word_sub_no_wrap) simp_all
    ultimately show ?thesis
      using True i by (intro exI [of _ i] exI [of _ "off - start"]) simp
  next
    case False
    then have r: "length (part i w) \<le> r"
      using s Suc(4) by (simp add: word_less_nat_alt)
    then have "r - length (part i w) < length (parts (Suc i) w)"
      using Suc(5) i(1) by (simp add: parts_Cons less_diff_conv2)
    then obtain k off' where "find_driver (drop (Suc i) drivers) ?start off = Some (drop k drivers, off')" "Suc i \<le> k" "k < length drivers"
        "unat off' < length (part k w)" "r - length (part i w) = length (concat (map (\<lambda>j. part j w) [Suc i..<k])) + unat off'"
      using Suc(1) [OF i(3) Suc(3), of ?start "r - length (part i w)"] s r Suc(4,5,6) i(1) by (auto simp: parts_Cons)
    then show ?thesis
      using False i r by (intro exI [of _ k] exI [of _ off']) (auto simp: upt_conv_Cons)
  qed
qed

lemma total_size_part:
  "ok w \<Longrightarrow> unat acc + length (parts i w) < 2 ^ 32 \<Longrightarrow>
   unat (fold (\<lambda>d total. total + nv_totalSize d) (drop i drivers) acc) = unat acc + length (parts i w)"
proof (induction "length drivers - i" arbitrary: i acc)
  case (Suc x)
  have i: "i < length drivers" "drop i drivers = drivers ! i # drop (Suc i) drivers" "x = length drivers - Suc i"
    using Suc(2) by (auto intro: Cons_nth_drop_Suc [symmetric])
  have "unat (acc + nv_totalSize (drivers ! i)) = unat acc + length (part i w)"
    using part_size [OF Suc(3) i(1)] Suc(4) i(1) by (subst unat_word_add_no_wrap) (simp_all add: parts_Cons)
  then show ?case
    using Suc(1) [OF i(3) Suc(3), of "acc + nv_totalSize (drivers ! i)"] Suc(4) i(1,2) by (simp add: parts_Cons)
qed simp

lemma gang_size: "ok w \<Longrightarrow> unat (g_totalSize (Gang drivers)) = length (parts 0 w)"
  using total_size_part [of w 0 0] total [of w] by (simp add: Gang_def Let_def)

lemma parts_split: "k \<le> length drivers \<Longrightarrow> parts 0 w = concat (map (\<lambda>j. part j w) [0..<k]) @ parts k w"
  using upt_add_eq_append [of 0 k "length drivers - k"] by simp

lemma gang_find:
  assumes "ok w" "unat off + n \<le> length (parts 0 w)" "0 < n"
  shows "\<exists>k off'. find_driver drivers 0 off = Some (drop k drivers, off') \<and> k < length drivers \<and> unat off' < length (part k w) \<and>
    unat off = length (concat (map (\<lambda>j. part j w) [0..<k])) + unat off' \<and> unat off' + n \<le> length (parts k w)"
    and "\<not> g_totalSize (Gang drivers) < off + of_nat n"
proof -
  obtain k off' where k: "find_driver drivers 0 off = Some (drop k drivers, off')" "k < length drivers"
      "unat off' < length (part k w)" "unat off = length (concat (map (\<lambda>j. part j w) [0..<k])) + unat off'"
    using find_driver_part [of w off 0 "unat off" 0] total [OF assms(1)] assms by auto
  moreover have "unat off' + n \<le> length (parts k w)"
    using parts_split [of k w] k(2,4) assms(2) by simp
  ultimately show "\<exists>k off'. find_driver drivers 0 off = Some (drop k drivers, off') \<and> k < length drivers \<and> unat off' < length (part k w) \<and>
      unat off = length (concat (map (\<lambda>j. part j w) [0..<k])) + unat off' \<and> unat off' + n \<le> length (parts k w)"
    by blast
  have "unat (of_nat n :: size_t) = n"
    using total [OF assms(1)] assms(2) by (intro unat_of_nat_small) simp
  then show "\<not> g_totalSize (Gang drivers) < off + of_nat n"
    using gang_size [OF assms(1)] total [OF assms(1)] assms(2) by (simp add: word_less_nat_alt unat_word_add_no_wrap)
qed

lemma gang_reads:
  assumes "fst W" "ok (snd W)" "0 < n" "unat off + unat n \<le> length (parts 0 (snd W))"
  shows "\<exists>w'. Gang_read drivers off n W = (Some (bytes_at (unat off) (unat n) (parts 0 (snd W))), True, w') \<and> ok w' \<and>
    parts 0 w' = parts 0 (snd W)"
proof -
  have n: "0 < unat n"
    using assms(3) by (simp add: word_less_nat_alt)
  obtain k off' where k: "find_driver drivers 0 off = Some (drop k drivers, off')" "k < length drivers" "unat off' < length (part k (snd W))"
      "unat off = length (concat (map (\<lambda>j. part j (snd W)) [0..<k])) + unat off'" "unat off' + unat n \<le> length (parts k (snd W))"
    using gang_find(1) [OF assms(2,4) n] by blast
  obtain w' where w': "read_drivers (drop k drivers) off' (unat n) (snd W) = (Some (bytes_at (unat off') (unat n) (parts k (snd W))), w')"
      "ok w'" "\<forall>j < length drivers. part j w' = part j (snd W)"
    using read_drivers_part [OF assms(2), of k off' "unat n"] k(3,5) by blast
  moreover have "parts 0 w' = parts 0 (snd W)"
    using w'(3) by (intro parts_cong) simp
  ultimately show ?thesis
    using assms(1) gang_find(2) [OF assms(2,4) n] k(1,2,4) by (simp add: Gang_read_def parts_split [of k] bytes_at_skip)
qed

lemma gang_writes:
  assumes "fst W" "ok (snd W)" "bs \<noteq> []" "unat off + length bs \<le> length (parts 0 (snd W))"
  shows "\<exists>w'. Gang_write drivers off bs W = (True, True, w') \<and> ok w' \<and>
    parts 0 w' = overwrite (unat off) (take (energy (snd W)) bs) (parts 0 (snd W)) \<and> energy w' = energy (snd W) - length bs"
proof -
  have n: "0 < length bs"
    using assms(3) by simp
  obtain k off' where k: "find_driver drivers 0 off = Some (drop k drivers, off')" "k < length drivers" "unat off' < length (part k (snd W))"
      "unat off = length (concat (map (\<lambda>j. part j (snd W)) [0..<k])) + unat off'" "unat off' + length bs \<le> length (parts k (snd W))"
    using gang_find(1) [OF assms(2,4) n] by blast
  obtain w' where w': "write_drivers (drop k drivers) off' bs (snd W) = (True, w')" "ok w'"
      "parts k w' = overwrite (unat off') (take (energy (snd W)) bs) (parts k (snd W))"
      "\<forall>j < length drivers. j < k \<longrightarrow> part j w' = part j (snd W)" "energy w' = energy (snd W) - length bs"
    using write_drivers_part [OF assms(2), of k off' bs] k(3,5) by blast
  have "map (\<lambda>j. part j w') [0..<k] = map (\<lambda>j. part j (snd W)) [0..<k]"
    using w'(4) k(2) by simp
  then have "parts 0 w' = overwrite (unat off) (take (energy (snd W)) bs) (parts 0 (snd W))"
    using k(2,4) w'(3) by (simp only: parts_split [of k] less_imp_le overwrite_skip)
  then show ?thesis
    using assms(1) gang_find(2) [OF assms(2,4) n] k(1) w'(1,2,5) by (simp add: Gang_write_def)
qed

lemma gang_memory:
  "nv_memory (Gang_driver drivers) (\<lambda>W. parts 0 (snd W)) (\<lambda>W. energy (snd W)) (\<lambda>W. fst W \<and> ok (snd W))"
proof unfold_locales
  fix W :: "bool \<times> 'w" and n off :: size_t and bs :: "u8 list"
  assume W: "fst W \<and> ok (snd W)"
  then show "length (parts 0 (snd W)) < 2 ^ 32"
    using total by simp
  show "\<exists>W'. nv_read (Gang_driver drivers) off n W = (Some (bytes_at (unat off) (unat n) (parts 0 (snd W))), W') \<and>
      (fst W' \<and> ok (snd W')) \<and> parts 0 (snd W') = parts 0 (snd W)"
    if "0 < n" "unat off + unat n \<le> length (parts 0 (snd W))"
    using gang_reads [OF _ _ that] W by (fastforce simp: Gang_driver_def)
  show "\<exists>W'. nv_write (Gang_driver drivers) off bs W = (True, W') \<and> (fst W' \<and> ok (snd W')) \<and>
      parts 0 (snd W') = overwrite (unat off) (take (energy (snd W)) bs) (parts 0 (snd W)) \<and> energy (snd W') = energy (snd W) - length bs"
    if "bs \<noteq> []" "unat off + length bs \<le> length (parts 0 (snd W))"
    using gang_writes [OF _ _ that] W by (fastforce simp: Gang_driver_def)
qed

end

text \<open>A gang of EEPROMs on one bus, each with its own device address.\<close>

lemma other_chips:
  "(\<lambda>d. if d = dev then [] else chip_mem (bus_chips B d)) = (\<lambda>d. if d = dev then [] else chip_mem (bus_chips C d)) \<Longrightarrow> d \<noteq> dev \<Longrightarrow>
   chip_mem (bus_chips B d) = chip_mem (bus_chips C d)"
  by (drule fun_cong [of _ _ d]) simp

lemma eeprom_gang_parts:
  assumes "distinct devs"
  shows "gang_parts (map (CAT24C512 chip_bus) devs) (\<lambda>k W. chip_mem (bus_chips (w_bus W) (devs ! k))) (\<lambda>W. bus_energy (w_bus W))
    (\<lambda>W. chips_ok (w_bus W) \<and> (\<forall>d \<in> set devs. w_started W d))"
proof unfold_locales
  fix W :: "i2c_bus nv_world" and k :: nat and n off :: size_t and bs :: "u8 list"
  assume W: "chips_ok (w_bus W) \<and> (\<forall>d \<in> set devs. w_started W d)"
  have size: "length (chip_mem (bus_chips (w_bus W) d)) = 65536" for d
    using W by (simp add: chips_ok_def)
  have "length devs \<le> card (UNIV :: u8 set)"
    using distinct_card [OF assms] card_mono [of "UNIV :: u8 set" "set devs"] by simp
  then show "length (concat (map (\<lambda>k. chip_mem (bus_chips (w_bus W) (devs ! k))) [0..<length (map (CAT24C512 chip_bus) devs)])) < 2 ^ 32"
    by (simp add: length_concat comp_def size sum_list_triv card_word)
  assume k: "k < length (map (CAT24C512 chip_bus) devs)"
  then have started: "w_started W (devs ! k)"
    using W by simp
  show "unat (nv_totalSize (map (CAT24C512 chip_bus) devs ! k)) = length (chip_mem (bus_chips (w_bus W) (devs ! k)))"
    using k size by (simp add: CAT24C512_def NUM_PAGES_def BYTES_PER_PAGE_def)
  show "chip_mem (bus_chips (w_bus W) (devs ! k)) \<noteq> []"
    using size [of "devs ! k"] by auto
  show "\<exists>W'. nv_read (map (CAT24C512 chip_bus) devs ! k) off n W = (Some (bytes_at (unat off) (unat n) (chip_mem (bus_chips (w_bus W) (devs ! k)))), W') \<and>
      (chips_ok (w_bus W') \<and> (\<forall>d \<in> set devs. w_started W' d)) \<and>
      (\<forall>j < length (map (CAT24C512 chip_bus) devs). chip_mem (bus_chips (w_bus W') (devs ! j)) = chip_mem (bus_chips (w_bus W) (devs ! j)))"
    if n: "0 < n" "unat off + unat n \<le> length (chip_mem (bus_chips (w_bus W) (devs ! k)))"
  proof -
    obtain B where B: "eeprom_read chip_bus (devs ! k) off n W = (Some (bytes_at (unat off) (unat n) (chip_mem (bus_chips (w_bus W) (devs ! k)))), W\<lparr>w_bus := B\<rparr>)"
        "chips_ok B" "chip_mem (bus_chips B (devs ! k)) = chip_mem (bus_chips (w_bus W) (devs ! k))"
        and rest: "(\<lambda>d. if d = devs ! k then [] else chip_mem (bus_chips B d)) = (\<lambda>d. if d = devs ! k then [] else chip_mem (bus_chips (w_bus W) d))"
      using chip.eeprom_read_delivers [OF _ started n(1), of off] n(2) W size by auto
    have "chip_mem (bus_chips B d) = chip_mem (bus_chips (w_bus W) d)" for d
      using B(3) other_chips [OF rest, of d] by (cases "d = devs ! k") auto
    then show ?thesis
      using B(1,2) W k by (simp add: CAT24C512_def)
  qed
  show "\<exists>W'. nv_write (map (CAT24C512 chip_bus) devs ! k) off bs W = (True, W') \<and> (chips_ok (w_bus W') \<and> (\<forall>d \<in> set devs. w_started W' d)) \<and>
      chip_mem (bus_chips (w_bus W') (devs ! k)) = overwrite (unat off) (take (bus_energy (w_bus W)) bs) (chip_mem (bus_chips (w_bus W) (devs ! k))) \<and>
      (\<forall>j < length (map (CAT24C512 chip_bus) devs). j \<noteq> k \<longrightarrow> chip_mem (bus_chips (w_bus W') (devs ! j)) = chip_mem (bus_chips (w_bus W) (devs ! j))) \<and>
      bus_energy (w_bus W') = bus_energy (w_bus W) - length bs"
    if n: "bs \<noteq> []" "unat off + length bs \<le> length (chip_mem (bus_chips (w_bus W) (devs ! k)))"
  proof -
    obtain B where B: "eeprom_write chip_bus (devs ! k) off bs W = (True, W\<lparr>w_bus := B\<rparr>)" "chips_ok B"
        "chip_mem (bus_chips B (devs ! k)) = overwrite (unat off) (take (bus_energy (w_bus W)) bs) (chip_mem (bus_chips (w_bus W) (devs ! k)))"
        "bus_energy B = bus_energy (w_bus W) - length bs"
        and rest: "(\<lambda>d. if d = devs ! k then [] else chip_mem (bus_chips B d)) = (\<lambda>d. if d = devs ! k then [] else chip_mem (bus_chips (w_bus W) d))"
      using chip.eeprom_write_stores [OF _ started n(1), of off] n(2) W size by auto
    moreover have "j < length devs \<Longrightarrow> j \<noteq> k \<Longrightarrow> devs ! j \<noteq> devs ! k" for j
      using k nth_eq_iff_index_eq [OF assms] by simp
    ultimately show ?thesis
      using W k other_chips [OF rest] by (simp add: CAT24C512_def)
  qed
qed

interpretation pair: gang_parts "map (CAT24C512 chip_bus) [0x50, 0x51]" "\<lambda>k W. chip_mem (bus_chips (w_bus W) ([0x50, 0x51] ! k))"
    "\<lambda>W. bus_energy (w_bus W)" "\<lambda>W. chips_ok (w_bus W) \<and> (\<forall>d \<in> set [0x50, 0x51]. w_started W d)"
  by (rule eeprom_gang_parts) simp

interpretation gang: nv_memory "Gang_driver (map (CAT24C512 chip_bus) [0x50, 0x51])"
    "\<lambda>W. concat (map (\<lambda>k. chip_mem (bus_chips (w_bus (snd W)) ([0x50, 0x51] ! k))) [0..<length (map (CAT24C512 chip_bus) [0x50, 0x51])])"
    "\<lambda>W. bus_energy (w_bus (snd W))" "\<lambda>W. fst W \<and> chips_ok (w_bus (snd W)) \<and> (\<forall>d \<in> set [0x50, 0x51]. w_started (snd W) d)"
  by (rule pair.gang_memory)

text \<open>
  C23. The gang. For every number of storage drivers that each behave like an array of bytes, the gang of them behaves like
  one array that holds their contents one after the other: a read delivers the bytes of that array and a write replaces
  exactly its bytes, over the borders between the drivers too.
\<close>

theorem gang_refines_one_memory:
  assumes "gang_parts drivers part energy ok" "fst W" "ok (snd W)"
  shows "(0 < n \<and> unat off + unat n \<le> length (gang_contents drivers part (snd W)) \<longrightarrow>
      (\<exists>w'. Gang_read drivers off n W = (Some (bytes_at (unat off) (unat n) (gang_contents drivers part (snd W))), True, w') \<and>
        ok w' \<and> gang_contents drivers part w' = gang_contents drivers part (snd W))) \<and>
    (bs \<noteq> [] \<and> unat off + length bs \<le> length (gang_contents drivers part (snd W)) \<longrightarrow>
      (\<exists>w'. Gang_write drivers off bs W = (True, True, w') \<and> ok w' \<and> energy w' = energy (snd W) - length bs \<and>
        gang_contents drivers part w' = overwrite (unat off) (take (energy (snd W)) bs) (gang_contents drivers part (snd W))))"
  using gang_parts.gang_reads [OF assms(1-3), of n off] gang_parts.gang_writes [OF assms(1-3), of bs off]
  by (auto simp: gang_contents_def)

text \<open>A write over the border between two chips.\<close>

theorem gang_refines_one_memory_witness:
  "\<exists>w'. Gang_write (map (CAT24C512 chip_bus) [0x50, 0x51]) 65534 [1, 2, 3, 4]
      (True, \<lparr>w_bus = \<lparr>bus_chips = \<lambda>_. \<lparr>chip_mem = replicate 65536 0xFF, chip_pointer = 0, chip_busy = 3\<rparr>, bus_energy = 9\<rparr>, w_started = \<lambda>_. True\<rparr>) = (True, True, w') \<and>
    gang_contents (map (CAT24C512 chip_bus) [0x50, 0x51]) (\<lambda>k W. chip_mem (bus_chips (w_bus W) ([0x50, 0x51] ! k))) w' =
      overwrite 65534 [1, 2, 3, 4] (replicate 65536 0xFF @ replicate 65536 0xFF)"
  using gang_refines_one_memory [OF eeprom_gang_parts [of "[0x50, 0x51]"], where n = 0 and off = 65534 and bs = "[1, 2, 3, 4]"
      and W = "(True, \<lparr>w_bus = \<lparr>bus_chips = \<lambda>_. \<lparr>chip_mem = replicate 65536 0xFF, chip_pointer = 0, chip_busy = 3\<rparr>, bus_energy = 9\<rparr>, w_started = \<lambda>_. True\<rparr>)"]
  by (auto simp: chips_ok_def gang_contents_def)

end
