(* ===== verification/Doubly_Linked_List.thy ===== *)
theory Doubly_Linked_List
  imports Prelude
begin

text \<open>
  The doubly linked list of the library (src/src/Cpl/Container/DList.h with Item.h and Item.cpp). It is
  intrusive: the links are members of the items, so the model is a store with the link fields of all items
  and the head and tail pointers of all lists; items and lists are addresses. Each item remembers the list
  it is in, and inserting it a second time is a fatal error.
\<close>

record items =
  m_nextPtr :: "nat \<Rightarrow> nat option"
  m_prevPtr :: "nat \<Rightarrow> nat option"
  m_inListPtr :: "nat \<Rightarrow> nat option"
  m_headPtr :: "nat \<Rightarrow> nat option"
  m_tailPtr :: "nat \<Rightarrow> nat option"

subsection \<open>Item\<close>

definition set_next :: "nat \<Rightarrow> nat option \<Rightarrow> items \<Rightarrow> items" where
  "set_next i p h = h\<lparr>m_nextPtr := (m_nextPtr h)(i := p)\<rparr>"

definition set_prev :: "nat \<Rightarrow> nat option \<Rightarrow> items \<Rightarrow> items" where
  "set_prev i p h = h\<lparr>m_prevPtr := (m_prevPtr h)(i := p)\<rparr>"

definition set_head :: "nat \<Rightarrow> nat option \<Rightarrow> items \<Rightarrow> items" where
  "set_head l p h = h\<lparr>m_headPtr := (m_headPtr h)(l := p)\<rparr>"

definition set_tail :: "nat \<Rightarrow> nat option \<Rightarrow> items \<Rightarrow> items" where
  "set_tail l p h = h\<lparr>m_tailPtr := (m_tailPtr h)(l := p)\<rparr>"

definition insert_ptr :: "nat \<Rightarrow> nat \<Rightarrow> items \<Rightarrow> items result" where
  "insert_ptr i newContainer h =
     (if m_inListPtr h i \<noteq> None then Inl FatalError
      else Inr (h\<lparr>m_inListPtr := (m_inListPtr h)(i := Some newContainer)\<rparr>))"

definition isInContainer :: "nat \<Rightarrow> nat \<Rightarrow> items \<Rightarrow> bool" where
  "isInContainer i container h \<longleftrightarrow> m_inListPtr h i = Some container"

definition remove_ptr :: "nat \<Rightarrow> items \<Rightarrow> items" where
  "remove_ptr i h = h\<lparr>m_inListPtr := (m_inListPtr h)(i := None)\<rparr>"

subsection \<open>DList\<close>

definition DList_putFirst :: "nat \<Rightarrow> nat \<Rightarrow> items \<Rightarrow> items result" where
  "DList_putFirst l item h =
     bindR (insert_ptr item l h) (\<lambda>h.
     let h = (case m_headPtr h l of
                Some first \<Rightarrow> set_head l (Some item) (set_prev first (Some item) (set_next item (Some first) h))
              | None \<Rightarrow> set_next item None (set_head l (Some item) (set_tail l (Some item) h)))
     in Inr (set_prev item None h))"

text \<open>
  The tail pointer is dereferenced whenever the head pointer is set; a null tail is the failure
  DanglingPointer.
\<close>

definition DList_put :: "nat \<Rightarrow> nat \<Rightarrow> items \<Rightarrow> items result" where
  "DList_put l item h =
     bindR (insert_ptr item l h) (\<lambda>h.
     bindR (case m_headPtr h l of
              Some _ \<Rightarrow> (case m_tailPtr h l of
                          Some final \<Rightarrow> Inr (set_prev item (Some final) (set_next final (Some item) h))
                        | None \<Rightarrow> Inl DanglingPointer)
            | None \<Rightarrow> Inr (set_prev item None (set_head l (Some item) h))) (\<lambda>h.
     Inr (set_tail l (Some item) (set_next item None h))))"

definition DList_putLast :: "nat \<Rightarrow> nat \<Rightarrow> items \<Rightarrow> items result" where
  "DList_putLast l item h = DList_put l item h"

definition DList_remove :: "nat \<Rightarrow> nat \<Rightarrow> items \<Rightarrow> bool \<times> items" where
  "DList_remove l item h =
     (if isInContainer item l h then
        let prvPtr = m_prevPtr h item;
            nxtPtr = m_nextPtr h item;
            h = (case prvPtr of
                   Some p \<Rightarrow>
                     (let h = set_next p nxtPtr h
                      in case nxtPtr of None \<Rightarrow> set_tail l (Some p) h | Some n \<Rightarrow> set_prev n (Some p) h)
                 | None \<Rightarrow>
                     (let h = set_head l nxtPtr h
                      in case nxtPtr of None \<Rightarrow> set_tail l None h | Some n \<Rightarrow> set_prev n None h))
        in (True, remove_ptr item h)
      else (False, h))"

definition DList_get :: "nat \<Rightarrow> items \<Rightarrow> nat option \<times> items" where
  "DList_get l h = (case m_headPtr h l of Some i \<Rightarrow> (Some i, snd (DList_remove l i h)) | None \<Rightarrow> (None, h))"

definition DList_getLast :: "nat \<Rightarrow> items \<Rightarrow> nat option \<times> items" where
  "DList_getLast l h = (case m_tailPtr h l of Some i \<Rightarrow> (Some i, snd (DList_remove l i h)) | None \<Rightarrow> (None, h))"

definition DList_insertAfter :: "nat \<Rightarrow> nat \<Rightarrow> nat \<Rightarrow> items \<Rightarrow> items result" where
  "DList_insertAfter l after item h =
     bindR (insert_ptr item l h) (\<lambda>h.
     let nxtPtr = m_nextPtr h after;
         h = set_next after (Some item) (set_prev item (Some after) (set_next item nxtPtr h))
     in Inr (case nxtPtr of None \<Rightarrow> set_tail l (Some item) h | Some n \<Rightarrow> set_prev n (Some item) h))"

definition DList_insertBefore :: "nat \<Rightarrow> nat \<Rightarrow> nat \<Rightarrow> items \<Rightarrow> items result" where
  "DList_insertBefore l before item h =
     bindR (insert_ptr item l h) (\<lambda>h.
     let prvPtr = m_prevPtr h before;
         h = set_prev before (Some item) (set_next item (Some before) (set_prev item prvPtr h))
     in Inr (case prvPtr of None \<Rightarrow> set_head l (Some item) h | Some p \<Rightarrow> set_next p (Some item) h))"

definition DList_find :: "nat \<Rightarrow> nat \<Rightarrow> items \<Rightarrow> bool" where
  "DList_find l item h = isInContainer item l h"

definition DList_first :: "nat \<Rightarrow> items \<Rightarrow> nat option" where
  "DList_first l h = m_headPtr h l"

definition DList_last :: "nat \<Rightarrow> items \<Rightarrow> nat option" where
  "DList_last l h = m_tailPtr h l"

definition DList_next :: "nat \<Rightarrow> items \<Rightarrow> nat option" where
  "DList_next cur h = m_nextPtr h cur"

definition DList_previous :: "nat \<Rightarrow> items \<Rightarrow> nat option" where
  "DList_previous cur h = m_prevPtr h cur"

text \<open>\<open>clearTheList\<close> and \<open>move\<close> loop until \<open>get\<close> finds the list empty.\<close>

partial_function (option) DList_clearTheList :: "nat \<Rightarrow> items \<Rightarrow> items option" where
  "DList_clearTheList l h = (case DList_get l h of (None, h) \<Rightarrow> Some h | (Some _, h) \<Rightarrow> DList_clearTheList l h)"

partial_function (option) DList_move_loop :: "nat \<Rightarrow> nat \<Rightarrow> items \<Rightarrow> items result option" where
  "DList_move_loop src dst h =
     (case DList_get src h of
        (None, h) \<Rightarrow> Some (Inr h)
      | (Some i, h) \<Rightarrow> (case DList_put dst i h of Inl e \<Rightarrow> Some (Inl e) | Inr h \<Rightarrow> DList_move_loop src dst h))"

definition DList_move :: "nat \<Rightarrow> nat \<Rightarrow> items \<Rightarrow> items result option" where
  "DList_move src dst h = Option.bind (DList_clearTheList dst h) (DList_move_loop src dst)"

subsection \<open>The lists as sequences\<close>

definition first_of :: "'a list \<Rightarrow> 'a option" where
  "first_of xs = (case xs of [] \<Rightarrow> None | x # _ \<Rightarrow> Some x)"

fun succ_in :: "'a list \<Rightarrow> 'a \<Rightarrow> 'a option" where
  "succ_in [] a = None"
| "succ_in (x # xs) a = (if x = a then first_of xs else succ_in xs a)"

text \<open>The list \<open>l\<close> of the store holds the items \<open>xs\<close>, in this order.\<close>

definition holds :: "items \<Rightarrow> nat \<Rightarrow> nat list \<Rightarrow> bool" where
  "holds h l xs \<longleftrightarrow> distinct xs \<and> m_headPtr h l = first_of xs \<and> m_tailPtr h l = first_of (rev xs) \<and>
     (\<forall>i. m_inListPtr h i = Some l \<longleftrightarrow> i \<in> set xs) \<and>
     (\<forall>i \<in> set xs. m_nextPtr h i = succ_in xs i \<and> m_prevPtr h i = succ_in (rev xs) i)"

definition represents :: "items \<Rightarrow> (nat \<Rightarrow> nat list) \<Rightarrow> bool" where
  "represents h f \<longleftrightarrow> (\<forall>l. holds h l (f l))"

lemma first_of_simps [simp]:
  "first_of [] = None" "first_of (x # xs) = Some x" "first_of (xs @ ys) = (if xs = [] then first_of ys else first_of xs)"
  by (simp_all add: first_of_def split: list.split)

lemma first_of_None [simp]: "first_of xs = None \<longleftrightarrow> xs = []" "None = first_of xs \<longleftrightarrow> xs = []"
  by (simp_all add: first_of_def split: list.split)

lemma succ_in_notin [simp]: "a \<notin> set xs \<Longrightarrow> succ_in xs a = None"
  by (induction xs) auto

lemma succ_in_append:
  "distinct xs \<Longrightarrow> succ_in (xs @ ys) a =
     (if a \<in> set xs then if succ_in xs a = None then first_of ys else succ_in xs a else succ_in ys a)"
proof (induction xs)
  case (Cons x xs)
  then show ?case
    by (cases "x = a") simp_all
qed simp

lemma succ_in_last [simp]: "distinct (xs @ [a]) \<Longrightarrow> succ_in (xs @ [a]) a = None"
  by (simp add: succ_in_append)

lemmas store_defs = set_next_def set_prev_def set_head_def set_tail_def insert_ptr_def remove_ptr_def isInContainer_def

lemma represents_upd:
  assumes "represents h f" "holds h' l xs"
    and "\<And>l' i. l' \<noteq> l \<Longrightarrow> m_headPtr h' l' = m_headPtr h l' \<and> m_tailPtr h' l' = m_tailPtr h l' \<and>
      (m_inListPtr h' i = Some l' \<longleftrightarrow> m_inListPtr h i = Some l')"
    and "\<And>l' i. l' \<noteq> l \<Longrightarrow> i \<in> set (f l') \<Longrightarrow> m_nextPtr h' i = m_nextPtr h i \<and> m_prevPtr h' i = m_prevPtr h i"
  shows "represents h' (f(l := xs))"
  using assms unfolding represents_def holds_def by simp

lemma represents_distinct: "represents h f \<Longrightarrow> distinct (f l)"
  by (simp add: represents_def holds_def)

lemma represents_first: "represents h f \<Longrightarrow> DList_first l h = first_of (f l)"
  by (simp add: represents_def holds_def DList_first_def)

lemma represents_next: "represents h f \<Longrightarrow> i \<in> set (f l) \<Longrightarrow> DList_next i h = succ_in (f l) i"
  by (simp add: represents_def holds_def DList_next_def)

lemma represents_find: "represents h f \<Longrightarrow> DList_find l i h \<longleftrightarrow> i \<in> set (f l)"
  by (simp add: represents_def holds_def DList_find_def isInContainer_def)

text \<open>An item is in one list only.\<close>

lemma represents_disjoint: "represents h f \<Longrightarrow> i \<in> set (f l) \<Longrightarrow> i \<in> set (f l') \<longleftrightarrow> l' = l"
  unfolding represents_def holds_def by (metis option.inject)

definition free_item :: "(nat \<Rightarrow> nat list) \<Rightarrow> nat \<Rightarrow> bool" where
  "free_item f i \<longleftrightarrow> (\<forall>l. i \<notin> set (f l))"

lemma represents_free: "represents h f \<Longrightarrow> m_inListPtr h i = None \<longleftrightarrow> free_item f i"
  unfolding represents_def holds_def free_item_def by (metis not_None_eq)

text \<open>
  Every insertion links the item between two neighbours, of which each may be missing; removing unlinks it
  from them.
\<close>

definition poke :: "(nat \<Rightarrow> 'a) \<Rightarrow> nat option \<Rightarrow> 'a \<Rightarrow> nat \<Rightarrow> 'a" where
  "poke m a v = (case a of None \<Rightarrow> m | Some i \<Rightarrow> m(i := v))"

definition link_between :: "nat \<Rightarrow> nat option \<Rightarrow> nat \<Rightarrow> nat option \<Rightarrow> items \<Rightarrow> items" where
  "link_between l a i b h = h\<lparr>m_nextPtr := poke ((m_nextPtr h)(i := b)) a (Some i),
     m_prevPtr := poke ((m_prevPtr h)(i := a)) b (Some i), m_inListPtr := (m_inListPtr h)(i := Some l),
     m_headPtr := (if a = None then (m_headPtr h)(l := Some i) else m_headPtr h),
     m_tailPtr := (if b = None then (m_tailPtr h)(l := Some i) else m_tailPtr h)\<rparr>"

definition unlink :: "nat \<Rightarrow> nat option \<Rightarrow> nat \<Rightarrow> nat option \<Rightarrow> items \<Rightarrow> items" where
  "unlink l a i b h = h\<lparr>m_nextPtr := poke (m_nextPtr h) a b, m_prevPtr := poke (m_prevPtr h) b a,
     m_inListPtr := (m_inListPtr h)(i := None),
     m_headPtr := (if a = None then (m_headPtr h)(l := b) else m_headPtr h),
     m_tailPtr := (if b = None then (m_tailPtr h)(l := a) else m_tailPtr h)\<rparr>"

lemma first_of_in: "first_of xs = Some x \<Longrightarrow> x \<in> set xs"
  by (cases xs) auto

lemma poke_simps: "poke m None v = m" "poke m (Some i) v = m(i := v)"
  by (simp_all add: poke_def)

lemma poke_other: "a \<noteq> Some j \<Longrightarrow> poke m a v j = m j"
  by (auto simp: poke_def split: option.splits)

lemma link_succ:
  assumes "distinct (as @ bs)" "i \<notin> set (as @ bs)" "j \<in> set (as @ i # bs)" "\<forall>j \<in> set (as @ bs). m j = succ_in (as @ bs) j"
  shows "poke (m(i := first_of bs)) (first_of (rev as)) (Some i) j = succ_in (as @ i # bs) j"
proof -
  have m: "j \<noteq> i \<Longrightarrow> m j = succ_in (as @ bs) j"
    using assms(3,4) by simp
  show ?thesis
  proof (cases as rule: rev_cases)
    case Nil
    then show ?thesis
      using m assms(2) by (cases "j = i") (simp_all add: poke_simps)
  next
    case (snoc as' a)
    have "distinct as'" "a \<notin> set as'" "i \<notin> set as'" "a \<noteq> i"
      using assms(1,2) snoc by auto
    then show ?thesis
      using m snoc by (cases "j = i"; cases "j = a") (simp_all add: poke_simps succ_in_append)
  qed
qed

lemma unlink_succ:
  assumes "distinct (as @ i # bs)" "j \<in> set (as @ bs)" "\<forall>j \<in> set (as @ i # bs). m j = succ_in (as @ i # bs) j"
  shows "poke m (first_of (rev as)) (first_of bs) j = succ_in (as @ bs) j"
proof -
  have m: "m j = succ_in (as @ i # bs) j" and j: "j \<noteq> i"
    using assms by auto
  show ?thesis
  proof (cases as rule: rev_cases)
    case Nil
    then show ?thesis
      using m j by (simp add: poke_simps)
  next
    case (snoc as' a)
    have "distinct as'" "a \<notin> set as'" "a \<noteq> i"
      using assms(1) snoc by auto
    then show ?thesis
      using m j snoc by (cases "j = a") (simp_all add: poke_simps succ_in_append)
  qed
qed

lemma holds_list: "represents h f \<Longrightarrow> f l = xs \<Longrightarrow> holds h l xs"
  by (auto simp: represents_def)

lemma holds_facts:
  assumes "holds h l xs"
  shows "distinct xs" "m_headPtr h l = first_of xs" "m_tailPtr h l = first_of (rev xs)"
    "m_inListPtr h i = Some l \<longleftrightarrow> i \<in> set xs" "\<forall>i \<in> set xs. m_nextPtr h i = succ_in xs i"
    "\<forall>i \<in> set (rev xs). m_prevPtr h i = succ_in (rev xs) i" "distinct (rev xs)"
  using assms unfolding holds_def by simp_all

lemma link_refines:
  assumes "represents h f" "free_item f i" "f l = as @ bs" "a = first_of (rev as)" "b = first_of bs"
  shows "represents (link_between l a i b h) (f(l := as @ i # bs))"
proof (rule represents_upd [OF assms(1)])
  note h = holds_facts [OF holds_list [OF assms(1,3)]]
  note p = h(6,7) [unfolded rev_append]
  have i: "i \<notin> set (f l')" for l'
    using assms(2) by (simp add: free_item_def)
  then have n: "i \<notin> set (as @ bs)" "i \<notin> set (rev bs @ rev as)"
    using i [of l] by (simp_all add: assms(3))
  have nx: "m_nextPtr (link_between l a i b h) j = succ_in (as @ i # bs) j" if "j \<in> set (as @ i # bs)" for j
    using link_succ [OF h(1) n(1) that h(5)] by (simp add: link_between_def assms(4,5))
  have pv: "m_prevPtr (link_between l a i b h) j = succ_in (rev bs @ i # rev as) j" if "j \<in> set (as @ i # bs)" for j
    using link_succ [OF p(2) n(2) _ p(1), of j] that by (auto simp add: link_between_def assms(4,5))
  have "m_headPtr (link_between l a i b h) l = first_of (as @ i # bs)"
    using h(2) by (cases as) (simp_all add: link_between_def assms(4))
  moreover have "m_tailPtr (link_between l a i b h) l = first_of (rev (as @ i # bs))"
    using h(3) by (cases bs rule: rev_cases) (simp_all add: link_between_def assms(5))
  moreover have "m_inListPtr (link_between l a i b h) j = Some l \<longleftrightarrow> j \<in> set (as @ i # bs)" for j
    using h(4) by (simp add: link_between_def)
  moreover have "distinct (as @ i # bs)"
    using h(1) n(1) by simp
  ultimately show "holds (link_between l a i b h) l (as @ i # bs)"
    unfolding holds_def by (intro conjI ballI allI) (simp_all add: nx pv)
  fix l' j
  assume l': "l' \<noteq> l"
  show "m_headPtr (link_between l a i b h) l' = m_headPtr h l' \<and> m_tailPtr (link_between l a i b h) l' = m_tailPtr h l' \<and>
      (m_inListPtr (link_between l a i b h) j = Some l' \<longleftrightarrow> m_inListPtr h j = Some l')"
    using l' represents_free [OF assms(1), of i] assms(2) by (cases "j = i") (simp_all add: link_between_def)
  assume "j \<in> set (f l')"
  then have "j \<notin> set (f l)" "j \<noteq> i"
    using represents_disjoint [OF assms(1), of j l' l] l' i by auto
  then have "a \<noteq> Some j" "b \<noteq> Some j" "j \<noteq> i"
    using assms(3-5) first_of_in [of "rev as" j] first_of_in [of bs j] by auto
  then show "m_nextPtr (link_between l a i b h) j = m_nextPtr h j \<and> m_prevPtr (link_between l a i b h) j = m_prevPtr h j"
    by (simp add: link_between_def poke_other)
qed

lemma unlink_refines:
  assumes "represents h f" "f l = as @ i # bs" "a = first_of (rev as)" "b = first_of bs"
  shows "represents (unlink l a i b h) (f(l := as @ bs))"
proof (rule represents_upd [OF assms(1)])
  note h = holds_facts [OF holds_list [OF assms(1,2)]]
  note p = h(6,7) [unfolded rev_append rev.simps append_assoc append.simps]
  have nx: "m_nextPtr (unlink l a i b h) j = succ_in (as @ bs) j" if "j \<in> set (as @ bs)" for j
    using unlink_succ [OF h(1) that h(5)] by (simp add: unlink_def assms(3,4))
  have pv: "m_prevPtr (unlink l a i b h) j = succ_in (rev bs @ rev as) j" if "j \<in> set (as @ bs)" for j
    using unlink_succ [OF p(2) _ p(1), of j] that by (auto simp: unlink_def assms(3,4))
  have "m_headPtr (unlink l a i b h) l = first_of (as @ bs)"
    using h(2) by (cases as) (simp_all add: unlink_def assms(3,4))
  moreover have "m_tailPtr (unlink l a i b h) l = first_of (rev (as @ bs))"
    using h(3) by (cases bs rule: rev_cases) (simp_all add: unlink_def assms(3,4))
  moreover have "m_inListPtr (unlink l a i b h) j = Some l \<longleftrightarrow> j \<in> set (as @ bs)" for j
    using h(1,4) by (auto simp: unlink_def)
  moreover have "distinct (as @ bs)"
    using h(1) by simp
  ultimately show "holds (unlink l a i b h) l (as @ bs)"
    unfolding holds_def by (intro conjI ballI allI) (simp_all add: nx pv)
  fix l' j
  assume l': "l' \<noteq> l"
  have "m_inListPtr h i = Some l"
    using h(4) by simp
  then show "m_headPtr (unlink l a i b h) l' = m_headPtr h l' \<and> m_tailPtr (unlink l a i b h) l' = m_tailPtr h l' \<and>
      (m_inListPtr (unlink l a i b h) j = Some l' \<longleftrightarrow> m_inListPtr h j = Some l')"
    using l' by (cases "j = i") (simp_all add: unlink_def)
  assume "j \<in> set (f l')"
  then have "j \<notin> set (f l)"
    using represents_disjoint [OF assms(1), of j l' l] l' by auto
  then have "a \<noteq> Some j" "b \<noteq> Some j"
    using assms(2-4) first_of_in [of "rev as" j] first_of_in [of bs j] by auto
  then show "m_nextPtr (unlink l a i b h) j = m_nextPtr h j \<and> m_prevPtr (unlink l a i b h) j = m_prevPtr h j"
    by (simp add: unlink_def poke_other)
qed

text \<open>The operations in these terms.\<close>

lemma insert_eqs:
  assumes "m_inListPtr h i = None"
  shows "m_headPtr h l \<noteq> Some i \<Longrightarrow> DList_putFirst l i h = Inr (link_between l None i (m_headPtr h l) h)"
    and "m_headPtr h l = None \<longleftrightarrow> m_tailPtr h l = None \<Longrightarrow> m_tailPtr h l \<noteq> Some i \<Longrightarrow>
      DList_put l i h = Inr (link_between l (m_tailPtr h l) i None h)"
    and "x \<noteq> i \<Longrightarrow> m_nextPtr h x \<noteq> Some i \<Longrightarrow> DList_insertAfter l x i h = Inr (link_between l (Some x) i (m_nextPtr h x) h)"
    and "x \<noteq> i \<Longrightarrow> m_prevPtr h x \<noteq> Some i \<Longrightarrow> DList_insertBefore l x i h = Inr (link_between l (m_prevPtr h x) i (Some x) h)"
  using assms
  by (auto simp: DList_putFirst_def DList_put_def DList_insertAfter_def DList_insertBefore_def store_defs link_between_def poke_def
      Let_def fun_upd_twist simp del: bindR_eq_Inr split: option.splits)

lemma remove_eq:
  "m_inListPtr h i = Some l \<Longrightarrow> DList_remove l i h = (True, unlink l (m_prevPtr h i) i (m_nextPtr h i) h)"
  by (auto simp: DList_remove_def store_defs unlink_def poke_def Let_def split: option.splits)


lemma put_refines:
  assumes "represents h f" "free_item f i"
  shows "\<exists>h'. DList_put l i h = Inr h' \<and> represents h' (f(l := f l @ [i]))"
proof -
  note h = holds_facts [OF holds_list [OF assms(1) refl, of l]]
  have "m_inListPtr h i = None" "i \<notin> set (f l)"
    using represents_free [OF assms(1)] assms(2) by (simp_all add: free_item_def)
  then show ?thesis
    using insert_eqs(2) [of h i l] h(2,3) first_of_in [of "rev (f l)" i] link_refines [OF assms, of l "f l" "[]"] by auto
qed

lemma putFirst_refines:
  assumes "represents h f" "free_item f i"
  shows "\<exists>h'. DList_putFirst l i h = Inr h' \<and> represents h' (f(l := i # f l))"
proof -
  note h = holds_facts [OF holds_list [OF assms(1) refl, of l]]
  have "m_inListPtr h i = None" "i \<notin> set (f l)"
    using represents_free [OF assms(1)] assms(2) by (simp_all add: free_item_def)
  then show ?thesis
    using insert_eqs(1) [of h i l] h(2) first_of_in [of "f l" i] link_refines [OF assms, of l "[]" "f l"] by auto
qed

lemma insert_refines:
  assumes "represents h f" "free_item f i" "f l = as @ x # bs"
  shows "\<exists>h'. DList_insertAfter l x i h = Inr h' \<and> represents h' (f(l := as @ x # i # bs))"
    and "\<exists>h'. DList_insertBefore l x i h = Inr h' \<and> represents h' (f(l := as @ i # x # bs))"
proof -
  note h = holds_facts [OF holds_list [OF assms(1,3)]]
  have i: "m_inListPtr h i = None" "i \<notin> set (as @ x # bs)"
    using represents_free [OF assms(1)] assms(2,3) by (simp, metis free_item_def)
  have nx: "m_nextPtr h x = first_of bs" "m_prevPtr h x = first_of (rev as)"
    using h(1,5-7) by (simp_all add: succ_in_append)
  show "\<exists>h'. DList_insertAfter l x i h = Inr h' \<and> represents h' (f(l := as @ x # i # bs))"
    using insert_eqs(3) [OF i(1), of x l] i(2) nx first_of_in [of bs i] link_refines [OF assms(1,2), of l "as @ [x]" bs] assms(3) by auto
  show "\<exists>h'. DList_insertBefore l x i h = Inr h' \<and> represents h' (f(l := as @ i # x # bs))"
    using insert_eqs(4) [OF i(1), of x l] i(2) nx first_of_in [of "rev as" i] link_refines [OF assms(1,2), of l as "x # bs"] assms(3) by auto
qed

lemma double_insert:
  assumes "represents h f" "\<not> free_item f i"
  shows "DList_put l i h = Inl FatalError" "DList_putFirst l i h = Inl FatalError"
    "DList_insertAfter l x i h = Inl FatalError" "DList_insertBefore l x i h = Inl FatalError"
  using represents_free [OF assms(1), of i] assms(2)
  by (simp_all add: DList_put_def DList_putFirst_def DList_insertAfter_def DList_insertBefore_def insert_ptr_def)

lemma remove_refines:
  assumes "represents h f"
  shows "\<exists>h'. DList_remove l i h = (i \<in> set (f l), h') \<and> represents h' (f(l := remove1 i (f l)))"
proof (cases "i \<in> set (f l)")
  case True
  then obtain as bs where ab: "f l = as @ i # bs" "i \<notin> set as"
    by (meson split_list_first)
  note h = holds_facts [OF holds_list [OF assms ab(1)]]
  have nx: "m_nextPtr h i = first_of bs" "m_prevPtr h i = first_of (rev as)"
    using h(1,5-7) by (simp_all add: succ_in_append)
  have "m_inListPtr h i = Some l"
    using h(4) by simp
  then show ?thesis
    using remove_eq [of h i l] nx unlink_refines [OF assms ab(1) refl refl] ab by (simp add: remove1_append)
next
  case False
  then have "m_inListPtr h i \<noteq> Some l"
    using holds_facts(4) [OF holds_list [OF assms refl]] by simp
  then show ?thesis
    using False assms by (simp add: DList_remove_def isInContainer_def remove1_idem)
qed

lemma get_refines:
  assumes "represents h f"
  shows "\<exists>h'. DList_get l h = (first_of (f l), h') \<and> represents h' (f(l := tl (f l)))"
    and "\<exists>h'. DList_getLast l h = (first_of (rev (f l)), h') \<and> represents h' (f(l := butlast (f l)))"
proof -
  note h = holds_facts [OF holds_list [OF assms refl, of l]]
  show "\<exists>h'. DList_get l h = (first_of (f l), h') \<and> represents h' (f(l := tl (f l)))"
  proof (cases "f l")
    case (Cons x xs)
    then show ?thesis
      using h(2) remove_refines [OF assms, of l x] by (auto simp: DList_get_def)
  qed (use h(2) assms in \<open>simp add: DList_get_def fun_upd_idem\<close>)
  show "\<exists>h'. DList_getLast l h = (first_of (rev (f l)), h') \<and> represents h' (f(l := butlast (f l)))"
  proof (cases "f l" rule: rev_cases)
    case (snoc xs x)
    then show ?thesis
      using h(1,3) remove_refines [OF assms, of l x] by (auto simp: DList_getLast_def remove1_append)
  qed (use h(3) assms in \<open>simp add: DList_getLast_def fun_upd_idem\<close>)
qed

lemma clear_refines:
  "represents h f \<Longrightarrow> \<exists>h'. DList_clearTheList l h = Some h' \<and> represents h' (f(l := []))"
proof (induction "f l" arbitrary: h f)
  case Nil
  then show ?case
    using get_refines(1) [OF Nil.prems, of l] by (subst DList_clearTheList.simps) auto
next
  case (Cons x xs)
  obtain h1 where h1: "DList_get l h = (Some x, h1)" "represents h1 (f(l := xs))"
    using get_refines(1) [OF Cons.prems, of l] Cons.hyps(2) [symmetric] by auto
  then show ?case
    using Cons.hyps(1) [of "f(l := xs)" h1] by (subst DList_clearTheList.simps) simp
qed

lemma move_loop_refines:
  assumes "src \<noteq> dst" "represents h f"
  shows "\<exists>h'. DList_move_loop src dst h = Some (Inr h') \<and> represents h' (f(src := [], dst := f dst @ f src))"
  using assms(2)
proof (induction "f src" arbitrary: h f)
  case Nil
  then have "f(src := [], dst := f dst @ f src) = f"
    by (auto simp: fun_eq_iff)
  then show ?case
    using get_refines(1) [OF Nil.prems, of src] Nil by (subst DList_move_loop.simps) (auto simp: fun_upd_idem)
next
  case (Cons x xs)
  obtain h1 where h1: "DList_get src h = (Some x, h1)" "represents h1 (f(src := xs))"
    using get_refines(1) [OF Cons.prems, of src] Cons.hyps(2) [symmetric] by auto
  have "distinct (f src)"
    using holds_facts(1) [OF holds_list [OF Cons.prems refl]] .
  then have "free_item (f(src := xs)) x"
    using represents_disjoint [OF Cons.prems, of x src] Cons.hyps(2) [symmetric] by (auto simp: free_item_def)
  then obtain h2 where h2: "DList_put dst x h1 = Inr h2" "represents h2 (f(src := xs, dst := f dst @ [x]))"
    using put_refines [OF h1(2), of x dst] assms(1) by auto
  have "\<exists>h'. DList_move_loop src dst h2 = Some (Inr h') \<and> represents h' (f(src := [], dst := f dst @ f src))"
    using Cons.hyps(1) [OF _ h2(2)] assms(1) Cons.hyps(2) [symmetric] by (simp add: fun_upd_twist)
  then show ?case
    using h1(1) h2(1) by (subst DList_move_loop.simps) simp
qed

subsection \<open>Sequences of calls\<close>

datatype dl_op =
    PutFirst nat nat | Put nat nat | InsertAfter nat nat nat | InsertBefore nat nat nat
  | Remove nat nat | Get nat | GetLast nat | Find nat nat | First nat | Last nat | Next nat nat | Previous nat nat

datatype dl_answer = Done | Flag bool | Item "nat option"

fun dl_step :: "dl_op \<Rightarrow> items \<Rightarrow> (dl_answer \<times> items) result" where
  "dl_step (PutFirst l i) h = bindR (DList_putFirst l i h) (\<lambda>h. Inr (Done, h))"
| "dl_step (Put l i) h = bindR (DList_put l i h) (\<lambda>h. Inr (Done, h))"
| "dl_step (InsertAfter l x i) h = bindR (DList_insertAfter l x i h) (\<lambda>h. Inr (Done, h))"
| "dl_step (InsertBefore l x i) h = bindR (DList_insertBefore l x i h) (\<lambda>h. Inr (Done, h))"
| "dl_step (Remove l i) h = (let (b, h) = DList_remove l i h in Inr (Flag b, h))"
| "dl_step (Get l) h = (let (r, h) = DList_get l h in Inr (Item r, h))"
| "dl_step (GetLast l) h = (let (r, h) = DList_getLast l h in Inr (Item r, h))"
| "dl_step (Find l i) h = Inr (Flag (DList_find l i h), h)"
| "dl_step (First l) h = Inr (Item (DList_first l h), h)"
| "dl_step (Last l) h = Inr (Item (DList_last l h), h)"
| "dl_step (Next l i) h = Inr (Item (DList_next i h), h)"
| "dl_step (Previous l i) h = Inr (Item (DList_previous i h), h)"

text \<open>
  The specification works on sequences. An item that is in a list already cannot be inserted. The
  reference item of an insertion and of a step must be in the list.
\<close>

definition put_spec :: "nat \<Rightarrow> nat \<Rightarrow> nat list \<Rightarrow> (nat \<Rightarrow> nat list) \<Rightarrow> (dl_answer \<times> (nat \<Rightarrow> nat list)) result" where
  "put_spec l i xs f = (if \<exists>k. i \<in> set (f k) then Inl FatalError else Inr (Done, f(l := xs)))"

fun dl_spec :: "dl_op \<Rightarrow> (nat \<Rightarrow> nat list) \<Rightarrow> (dl_answer \<times> (nat \<Rightarrow> nat list)) result" where
  "dl_spec (PutFirst l i) f = put_spec l i (i # f l) f"
| "dl_spec (Put l i) f = put_spec l i (f l @ [i]) f"
| "dl_spec (InsertAfter l x i) f =
     put_spec l i (takeWhile (\<lambda>y. y \<noteq> x) (f l) @ x # i # tl (dropWhile (\<lambda>y. y \<noteq> x) (f l))) f"
| "dl_spec (InsertBefore l x i) f =
     put_spec l i (takeWhile (\<lambda>y. y \<noteq> x) (f l) @ i # dropWhile (\<lambda>y. y \<noteq> x) (f l)) f"
| "dl_spec (Remove l i) f = Inr (Flag (i \<in> set (f l)), f(l := remove1 i (f l)))"
| "dl_spec (Get l) f = Inr (Item (first_of (f l)), f(l := tl (f l)))"
| "dl_spec (GetLast l) f = Inr (Item (first_of (rev (f l))), f(l := butlast (f l)))"
| "dl_spec (Find l i) f = Inr (Flag (i \<in> set (f l)), f)"
| "dl_spec (First l) f = Inr (Item (first_of (f l)), f)"
| "dl_spec (Last l) f = Inr (Item (first_of (rev (f l))), f)"
| "dl_spec (Next l i) f = Inr (Item (succ_in (f l) i), f)"
| "dl_spec (Previous l i) f = Inr (Item (succ_in (rev (f l)) i), f)"

fun dl_legal :: "dl_op \<Rightarrow> (nat \<Rightarrow> nat list) \<Rightarrow> bool" where
  "dl_legal (InsertAfter l x i) f = (x \<in> set (f l))"
| "dl_legal (InsertBefore l x i) f = (x \<in> set (f l))"
| "dl_legal (Next l x) f = (x \<in> set (f l))"
| "dl_legal (Previous l x) f = (x \<in> set (f l))"
| "dl_legal _ f = True"

lemma put_spec_cases:
  assumes "\<not> free_item f i \<Longrightarrow> m = Inl FatalError" "free_item f i \<Longrightarrow> \<exists>h. m = Inr h \<and> represents h (f(l := xs))"
  shows "put_spec l i xs f = Inl e \<Longrightarrow> bindR m (\<lambda>h. Inr (Done, h)) = Inl e"
    and "put_spec l i xs f = Inr (r, f') \<Longrightarrow> \<exists>h. bindR m (\<lambda>h. Inr (Done, h)) = Inr (r, h) \<and> represents h f'"
proof -
  have spec: "put_spec l i xs f = (if free_item f i then Inr (Done, f(l := xs)) else Inl FatalError)"
    by (simp add: put_spec_def free_item_def)
  show "put_spec l i xs f = Inl e \<Longrightarrow> bindR m (\<lambda>h. Inr (Done, h)) = Inl e"
    using assms(1) by (cases "free_item f i") (simp_all add: spec)
  show "put_spec l i xs f = Inr (r, f') \<Longrightarrow> \<exists>h. bindR m (\<lambda>h. Inr (Done, h)) = Inr (r, h) \<and> represents h f'"
    using assms(2) by (cases "free_item f i") (auto simp: spec)
qed

lemma split_at:
  assumes "x \<in> set xs"
  shows "\<exists>as bs. xs = as @ x # bs \<and> takeWhile (\<lambda>y. y \<noteq> x) xs = as \<and> dropWhile (\<lambda>y. y \<noteq> x) xs = x # bs"
proof -
  obtain as bs where "xs = as @ x # bs" "x \<notin> set as"
    using assms by (meson split_list_first)
  moreover from this have "takeWhile (\<lambda>y. y \<noteq> x) xs = as" "dropWhile (\<lambda>y. y \<noteq> x) xs = x # bs"
    by (auto simp: takeWhile_append dropWhile_append)
  ultimately show ?thesis
    by blast
qed

lemma dl_step_refines:
  assumes "represents h f" "dl_legal x f"
  shows "dl_spec x f = Inl e \<Longrightarrow> dl_step x h = Inl e"
    and "dl_spec x f = Inr (r, f') \<Longrightarrow> \<exists>h'. dl_step x h = Inr (r, h') \<and> represents h' f'"
proof -
  note h = holds_facts [OF holds_list [OF assms(1) refl]]
  have "(dl_spec x f = Inl e \<longrightarrow> dl_step x h = Inl e) \<and>
    (dl_spec x f = Inr (r, f') \<longrightarrow> (\<exists>h'. dl_step x h = Inr (r, h') \<and> represents h' f'))"
  proof (cases x)
    case (PutFirst l i)
    then show ?thesis
      using put_spec_cases [of f i "DList_putFirst l i h" l "i # f l"] double_insert(2) [OF assms(1)] putFirst_refines [OF assms(1)]
      by (simp del: bindR_eq_Inr)
  next
    case (Put l i)
    then show ?thesis
      using put_spec_cases [of f i "DList_put l i h" l "f l @ [i]"] double_insert(1) [OF assms(1)] put_refines [OF assms(1)]
      by (simp del: bindR_eq_Inr)
  next
    case (InsertAfter l y i)
    then obtain as bs where "f l = as @ y # bs" "takeWhile (\<lambda>z. z \<noteq> y) (f l) = as" "dropWhile (\<lambda>z. z \<noteq> y) (f l) = y # bs"
      using split_at [of y "f l"] assms(2) by auto
    then show ?thesis
      using put_spec_cases [of f i "DList_insertAfter l y i h" l "as @ y # i # bs"] double_insert(3) [OF assms(1)]
        insert_refines(1) [OF assms(1)] InsertAfter by (simp del: bindR_eq_Inr)
  next
    case (InsertBefore l y i)
    then obtain as bs where "f l = as @ y # bs" "takeWhile (\<lambda>z. z \<noteq> y) (f l) = as" "dropWhile (\<lambda>z. z \<noteq> y) (f l) = y # bs"
      using split_at [of y "f l"] assms(2) by auto
    then show ?thesis
      using put_spec_cases [of f i "DList_insertBefore l y i h" l "as @ i # y # bs"] double_insert(4) [OF assms(1)]
        insert_refines(2) [OF assms(1)] InsertBefore by (simp del: bindR_eq_Inr)
  next
    case (Remove l i)
    then show ?thesis
      using remove_refines [OF assms(1), of l i] by (auto split: prod.splits)
  next
    case (Get l)
    then show ?thesis
      using get_refines(1) [OF assms(1), of l] by auto
  next
    case (GetLast l)
    then show ?thesis
      using get_refines(2) [OF assms(1), of l] by auto
  qed (use h assms in \<open>auto simp: DList_find_def isInContainer_def DList_first_def DList_last_def DList_next_def DList_previous_def\<close>)
  then show "dl_spec x f = Inl e \<Longrightarrow> dl_step x h = Inl e"
    and "dl_spec x f = Inr (r, f') \<Longrightarrow> \<exists>h'. dl_step x h = Inr (r, h') \<and> represents h' f'"
    by blast+
qed

interpretation dlist: refinement represents dl_legal dl_step dl_spec
proof unfold_locales
qed (erule (2) dl_step_refines)+

text \<open>A store in which every list is empty.\<close>

definition no_items :: items where
  "no_items = \<lparr>m_nextPtr = (\<lambda>_. None), m_prevPtr = (\<lambda>_. None), m_inListPtr = (\<lambda>_. None),
     m_headPtr = (\<lambda>_. None), m_tailPtr = (\<lambda>_. None)\<rparr>"

lemma no_items_represents: "represents no_items (\<lambda>_. [])"
  by (simp add: represents_def holds_def no_items_def)

subsection \<open>Properties\<close>

text \<open>
  C32. The linked lists are sequences. Every sequence of calls on any number of lists that share their items
  answers like the same calls on plain sequences, from the empty lists on, and fails, with a fatal error,
  exactly when an item is inserted that is in a list already; the reference items of insertions and steps
  must be in the list they are used with. Afterwards the links form exactly the sequences, forwards and
  backwards.
\<close>

theorem dlist_refines_sequences:
  assumes "legal_ops dl_legal dl_spec ops (\<lambda>_. [])"
  shows "case run_ops dl_spec ops (\<lambda>_. []) of
      Inl e \<Rightarrow> run_ops dl_step ops no_items = Inl e
    | Inr (answers, f) \<Rightarrow> \<exists>h. run_ops dl_step ops no_items = Inr (answers, h) \<and> represents h f"
  using dlist.run_fails [OF no_items_represents assms] dlist.run_works [OF no_items_represents assms]
  by (auto split: sum.split)

theorem dlist_refines_sequences_witness:
  "\<exists>h. run_ops dl_step [Put 0 7, PutFirst 0 8, InsertAfter 0 8 9, Remove 0 8, Get 0, Next 0 7] no_items
     = Inr ([Done, Done, Done, Flag True, Item (Some 9), Item None], h) \<and> holds h 0 [7]"
proof -
  let ?ops = "[Put 0 7, PutFirst 0 8, InsertAfter 0 8 9, Remove 0 8, Get 0, Next 0 7]"
  have "legal_ops dl_legal dl_spec ?ops (\<lambda>_. [])" "run_ops dl_spec ?ops (\<lambda>_. [])
      = Inr ([Done, Done, Done, Flag True, Item (Some 9), Item None], (\<lambda>_. [])(0 := [7]))"
    by (simp_all add: put_spec_def)
  then obtain h where h: "run_ops dl_step ?ops no_items = Inr ([Done, Done, Done, Flag True, Item (Some 9), Item None], h)"
      "represents h ((\<lambda>_. [])(0 := [7]))"
    using dlist_refines_sequences [of ?ops] by (auto simp del: run_ops.simps legal_ops.simps)
  have "holds h 0 [7]"
    by (rule holds_list [OF h(2)]) simp
  with h(1) show ?thesis
    by blast
qed

text \<open>
  C33. Emptying a list and moving one list to another always end, on every store that represents sequences:
  the moved items keep their order, the destination loses its old items, and no insertion fails.
\<close>

theorem dlist_move_ends:
  assumes "represents h f" "src \<noteq> dst"
  shows "(\<exists>h'. DList_clearTheList src h = Some h' \<and> represents h' (f(src := []))) \<and>
    (\<exists>h'. DList_move src dst h = Some (Inr h') \<and> represents h' (f(src := [], dst := f src)))"
proof
  show "\<exists>h'. DList_clearTheList src h = Some h' \<and> represents h' (f(src := []))"
    by (rule clear_refines [OF assms(1)])
  obtain h1 where h1: "DList_clearTheList dst h = Some h1" "represents h1 (f(dst := []))"
    using clear_refines [OF assms(1)] by blast
  then show "\<exists>h'. DList_move src dst h = Some (Inr h') \<and> represents h' (f(src := [], dst := f src))"
    using move_loop_refines [OF assms(2) h1(2)] assms(2) by (simp add: DList_move_def fun_upd_twist)
qed

theorem dlist_move_ends_witness:
  "\<exists>h h'. run_ops dl_step [Put 0 7, Put 0 8, Put 1 9] no_items = Inr ([Done, Done, Done], h) \<and>
     DList_move 0 1 h = Some (Inr h') \<and> holds h' 1 [7, 8]"
proof -
  let ?ops = "[Put 0 7, Put 0 8, Put 1 9]" and ?f = "(\<lambda>_ :: nat. [])(0 := [7, 8 :: nat], 1 := [9])"
  have "legal_ops dl_legal dl_spec ?ops (\<lambda>_. [])" "run_ops dl_spec ?ops (\<lambda>_. []) = Inr ([Done, Done, Done], ?f)"
    by (auto simp: put_spec_def)
  then obtain h where h: "run_ops dl_step ?ops no_items = Inr ([Done, Done, Done], h)" "represents h ?f"
    using dlist.run_works [OF no_items_represents, of ?ops] by blast
  have "\<exists>h'. DList_move 0 1 h = Some (Inr h') \<and> represents h' (?f(0 := [], 1 := ?f 0))"
    by (rule conjunct2 [OF dlist_move_ends [OF h(2) zero_neq_one]])
  then obtain h' where h': "DList_move 0 1 h = Some (Inr h')" "represents h' (?f(0 := [], 1 := ?f 0))"
    by (elim exE conjE)
  have "holds h' 1 [7, 8]"
    by (rule holds_list [OF h'(2)]) simp
  with h(1) h'(1) show ?thesis
    by blast
qed

end
