(* ===== verification/Elapsed_Time.thy ===== *)
theory Elapsed_Time
  imports Prelude
begin

text \<open>
  Cpl::System::ElapsedTime (src/src/Cpl/System/ElapsedTime.h, ElapsedTime.cpp, ElapsedTime2.cpp): time in
  seconds with a millisecond fraction. \<open>unsigned long\<close> is 32 bits wide, as on the ARM targets and
  on Windows. The structure is a datatype so that its comparison operators give an instance of
  \<open>linorder\<close>. The platform's tick source CplSystemElapsedTime_getTimeInMilliseconds is not part of
  the sources that are modelled: its result is an argument of the operations that call it.
\<close>

datatype Precision_T = Precision_T (m_seconds: u32) (m_thousandths: u16)

definition plus_eq :: "Precision_T \<Rightarrow> Precision_T \<Rightarrow> Precision_T" where
  "plus_eq this x =
     (let th = m_thousandths this + m_thousandths x;
          sec = m_seconds this + (m_seconds x + ucast (th div 1000))
      in Precision_T sec (th mod 1000))"

definition setFromMilliseconds :: "u32 \<Rightarrow> Precision_T" where
  "setFromMilliseconds ms = Precision_T (ms div 1000) (ucast (ms mod 1000))"

definition op_eq :: "Precision_T \<Rightarrow> Precision_T \<Rightarrow> bool" where
  "op_eq this other \<longleftrightarrow>
     m_seconds this = m_seconds other \<and> m_thousandths this = m_thousandths other"

definition op_gt :: "Precision_T \<Rightarrow> Precision_T \<Rightarrow> bool" where
  "op_gt this other \<longleftrightarrow>
     m_seconds this > m_seconds other \<or>
     m_seconds this = m_seconds other \<and> m_thousandths this > m_thousandths other"

definition op_ge :: "Precision_T \<Rightarrow> Precision_T \<Rightarrow> bool" where
  "op_ge this other \<longleftrightarrow> op_eq this other \<or> op_gt this other"

definition op_lt :: "Precision_T \<Rightarrow> Precision_T \<Rightarrow> bool" where
  "op_lt this other \<longleftrightarrow>
     m_seconds this < m_seconds other \<or>
     m_seconds this = m_seconds other \<and> m_thousandths this < m_thousandths other"

definition op_le :: "Precision_T \<Rightarrow> Precision_T \<Rightarrow> bool" where
  "op_le this other \<longleftrightarrow> op_eq this other \<or> op_lt this other"

definition asFlatTime :: "Precision_T \<Rightarrow> u64" where
  "asFlatTime p = ucast (m_seconds p * 1000 + ucast (m_thousandths p) :: u32)"

definition setFlatTime :: "u64 \<Rightarrow> Precision_T" where
  "setFlatTime ms = Precision_T (ucast (ms div 1000)) (ucast (ms mod 1000))"

definition asMilliseconds :: "Precision_T \<Rightarrow> u32" where
  "asMilliseconds p = m_seconds p * 1000 + ucast (m_thousandths p)"

definition deltaPrecision :: "Precision_T \<Rightarrow> Precision_T \<Rightarrow> Precision_T" where
  "deltaPrecision startTime endTime =
     (let sec = m_seconds endTime - m_seconds startTime;
          th = m_thousandths endTime - m_thousandths startTime
      in if th > 0x7FFF then Precision_T (sec - 1) (th + 1000) else Precision_T sec th)"

definition expiredPrecision :: "Precision_T \<Rightarrow> Precision_T \<Rightarrow> Precision_T \<Rightarrow> bool" where
  "expiredPrecision timeMarker duration currentTime =
     (let delta = deltaPrecision timeMarker currentTime
      in m_seconds delta > m_seconds duration \<or>
         m_seconds delta = m_seconds duration \<and> m_thousandths delta \<ge> m_thousandths duration)"

definition deltaMilliseconds :: "u32 \<Rightarrow> u32 \<Rightarrow> u32" where
  "deltaMilliseconds startTime endTime = endTime - startTime"

definition expiredMilliseconds :: "u32 \<Rightarrow> u32 \<Rightarrow> u32 \<Rightarrow> bool" where
  "expiredMilliseconds timeMarker duration currentTime \<longleftrightarrow>
     deltaMilliseconds timeMarker currentTime \<ge> duration"

subsection \<open>The real time clock\<close>

record clock =
  elapsedMsec :: u32
  elapsedSec :: u32
  lastMsec :: u32
  sumDeltaMs :: u32

definition clock_notify :: "u32 \<Rightarrow> clock" where
  "clock_notify now = \<lparr>elapsedMsec = 0, elapsedSec = 0, lastMsec = now, sumDeltaMs = 0\<rparr>"

function carry_seconds :: "u32 \<Rightarrow> u32 \<Rightarrow> u32 \<times> u32" where
  "carry_seconds sec ms = (if ms \<ge> 1000 then carry_seconds (sec + 1) (ms - 1000) else (sec, ms))"
  by pat_completeness auto
termination
  by (relation "measure (\<lambda>(sec, ms). unat ms)") (auto simp: word_le_nat_alt unat_sub)

declare carry_seconds.simps [simp del]

definition millisecondsInRealTime :: "u32 \<Rightarrow> clock \<Rightarrow> u32 \<times> clock" where
  "millisecondsInRealTime newTime c =
     (let delta = newTime - lastMsec c;
          (sec, ms) = carry_seconds (elapsedSec c) (sumDeltaMs c + delta);
          c' = c\<lparr>lastMsec := newTime, elapsedMsec := elapsedMsec c + delta, elapsedSec := sec,
                 sumDeltaMs := ms\<rparr>
      in (elapsedMsec c', c'))"

definition secondsInRealTime :: "u32 \<Rightarrow> clock \<Rightarrow> u32 \<times> clock" where
  "secondsInRealTime newTime c =
     (let c' = snd (millisecondsInRealTime newTime c) in (elapsedMsec c' div 1000, c'))"

definition precisionInRealTime :: "u32 \<Rightarrow> clock \<Rightarrow> Precision_T \<times> clock" where
  "precisionInRealTime newTime c =
     (let c' = snd (millisecondsInRealTime newTime c)
      in (Precision_T (elapsedSec c') (ucast (elapsedMsec c' mod 1000)), c'))"

subsection \<open>Times as numbers of milliseconds\<close>

definition well_formed :: "Precision_T \<Rightarrow> bool" where
  "well_formed p \<longleftrightarrow> unat (m_thousandths p) < 1000"

definition prec_ms :: "Precision_T \<Rightarrow> int" where
  "prec_ms p = uint (m_seconds p) * 1000 + uint (m_thousandths p)"

text \<open>The range of representable times: \<open>2 ^ 32\<close> seconds.\<close>

abbreviation time_range :: int where
  "time_range \<equiv> 4294967296000"

lemma carry_mod:
  fixes x r :: int
  assumes "0 \<le> r" "r < 1000"
  shows "(x * 1000 + r) mod time_range = (x mod 4294967296) * 1000 + r"
proof -
  have "(x * 1000 + r) div 1000 = x" "(x * 1000 + r) mod 1000 = r"
    using assms by simp_all
  then show ?thesis using zmod_zmult2_eq [of 4294967296 "x * 1000 + r" 1000] by simp
qed

lemma lex_less_iff:
  fixes a b c d :: int
  assumes "0 \<le> b" "b < 1000" "0 \<le> d" "d < 1000"
  shows "(a < c \<or> a = c \<and> b < d) \<longleftrightarrow> a * 1000 + b < c * 1000 + d"
proof -
  consider "a + 1 \<le> c" | "a = c" | "c + 1 \<le> a" by linarith
  then show ?thesis using assms by cases linarith+
qed

lemma thousandths_bounds:
  "well_formed p \<Longrightarrow> 0 \<le> uint (m_thousandths p) \<and> uint (m_thousandths p) < 1000"
  by (simp add: well_formed_def uint_less_numeral)

lemma well_formedI: "uint (m_thousandths p) < 1000 \<Longrightarrow> well_formed p"
  by (simp add: well_formed_def uint_less_numeral)

lemma seconds_bounds: "0 \<le> uint (m_seconds p) \<and> uint (m_seconds p) < 4294967296"
  using uint_lt2p [of "m_seconds p"] by simp

lemma prec_ms_bounds: "well_formed p \<Longrightarrow> 0 \<le> prec_ms p \<and> prec_ms p < time_range"
  using seconds_bounds [of p] thousandths_bounds [of p] unfolding prec_ms_def by linarith

lemma prec_ms_mod:
  assumes "well_formed p" "uint (m_seconds p) = x mod 4294967296"
  shows "prec_ms p = (x * 1000 + uint (m_thousandths p)) mod time_range"
proof -
  note b = thousandths_bounds [OF assms(1)]
  show ?thesis
    unfolding prec_ms_def assms(2) carry_mod [OF conjunct1 [OF b] conjunct2 [OF b]] ..
qed

lemma op_lt_iff_ms:
  assumes "well_formed p" "well_formed q"
  shows "op_lt p q \<longleftrightarrow> prec_ms p < prec_ms q"
  using lex_less_iff [of "uint (m_thousandths p)" "uint (m_thousandths q)"]
    thousandths_bounds [OF assms(1)] thousandths_bounds [OF assms(2)]
  by (simp add: op_lt_def prec_ms_def word_less_def word_uint_eq_iff)

text \<open>The difference of two millisecond fractions, with the borrow the code detects by range.\<close>

lemma borrow_mod:
  fixes x y :: int
  assumes "0 \<le> x" "x < 1000" "0 \<le> y" "y < 1000"
  shows "y \<le> x \<Longrightarrow> (x - y) mod 65536 = x - y"
    and "x < y \<Longrightarrow> (x - y) mod 65536 = x - y + 65536"
proof -
  show "y \<le> x \<Longrightarrow> (x - y) mod 65536 = x - y"
    using assms by simp
  have "(x - y) mod 65536 = (x - y + 65536) mod 65536" by simp
  also have "x < y \<Longrightarrow> \<dots> = x - y + 65536"
    using assms by (intro mod_pos_pos_trivial) simp_all
  finally show "x < y \<Longrightarrow> (x - y) mod 65536 = x - y + 65536" .
qed

lemma uint_numeral_16: "uint (0x7FFF :: u16) = 0x7FFF"
  by simp

lemma thousandths_diff:
  fixes a b :: u16
  assumes a: "0 \<le> uint a \<and> uint a < 1000" and b: "0 \<le> uint b \<and> uint b < 1000"
  shows "uint b \<le> uint a \<Longrightarrow> uint (a - b) = uint a - uint b \<and> \<not> a - b > 0x7FFF"
    and "uint a < uint b \<Longrightarrow> uint (a - b + 1000) = uint a - uint b + 1000 \<and> a - b > 0x7FFF"
proof -
  have d: "uint (a - b) = (uint a - uint b) mod 65536"
    by (simp add: uint_word_ariths)
  have e: "uint (a - b + 1000) = (uint (a - b) + 1000) mod 65536"
    using uint_word_ariths(1) [of "a - b" 1000] by simp
  show "uint (a - b) = uint a - uint b \<and> \<not> a - b > 0x7FFF" if "uint b \<le> uint a"
  proof -
    have "uint (a - b) = uint a - uint b"
      using that a b borrow_mod(1) [of "uint a" "uint b"] d by simp
    moreover from this have "\<not> uint (0x7FFF :: u16) < uint (a - b)"
      using a b by (simp only: uint_numeral_16) linarith
    ultimately show ?thesis unfolding word_less_def ..
  qed
  show "uint (a - b + 1000) = uint a - uint b + 1000 \<and> a - b > 0x7FFF" if "uint a < uint b"
  proof -
    have ab: "uint (a - b) = uint a - uint b + 65536"
      using that a b borrow_mod(2) [of "uint a" "uint b"] d by simp
    then have "uint (a - b) + 1000 = uint a - uint b + 1000 + 65536" by simp
    with e have "uint (a - b + 1000) = (uint a - uint b + 1000 + 65536) mod 65536" by simp
    then have "uint (a - b + 1000) = (uint a - uint b + 1000) mod 65536" by (simp only: mod_add_self2)
    also have "\<dots> = uint a - uint b + 1000"
      using that a b by (intro mod_pos_pos_trivial) linarith+
    finally have "uint (a - b + 1000) = uint a - uint b + 1000" .
    moreover have "uint (0x7FFF :: u16) < uint (a - b)"
      unfolding ab using a b by (simp only: uint_numeral_16) linarith
    ultimately show ?thesis unfolding word_less_def ..
  qed
qed

lemma uint_minus_one: "uint (w - 1 :: u32) = (uint w - 1) mod 4294967296"
  using uint_word_ariths(2) [of w 1] by simp

lemma deltaPrecision_ms:
  assumes s: "well_formed s" and e: "well_formed e"
  shows "well_formed (deltaPrecision s e) \<and>
    prec_ms (deltaPrecision s e) = (prec_ms e - prec_ms s) mod time_range"
proof -
  let ?D = "deltaPrecision s e"
  let ?sec = "uint (m_seconds e) - uint (m_seconds s)"
    and ?th = "uint (m_thousandths e) - uint (m_thousandths s)"
  note bs = thousandths_bounds [OF s] thousandths_bounds [OF e]
  have goal: ?thesis if "?D = Precision_T u v" "uint v = t" "0 \<le> t \<and> t < 1000"
      "uint u = x mod 4294967296" "x * 1000 + t = prec_ms e - prec_ms s" for t x u v
  proof -
    have wf: "well_formed ?D" using that by (intro well_formedI) simp
    moreover have "prec_ms ?D = (x * 1000 + t) mod time_range"
      using prec_ms_mod [OF wf, of x] that by simp
    ultimately show ?thesis using that(5) by simp
  qed
  show ?thesis
  proof (cases "uint (m_thousandths s) \<le> uint (m_thousandths e)")
    case True
    note d = thousandths_diff(1) [OF bs(2,1) True]
    show ?thesis
    proof (rule goal)
      show "?D = Precision_T (m_seconds e - m_seconds s) (m_thousandths e - m_thousandths s)"
        using d [THEN conjunct2] by (simp add: deltaPrecision_def Let_def)
      show "uint (m_thousandths e - m_thousandths s) = ?th" using d by (rule conjunct1)
      show "0 \<le> ?th \<and> ?th < 1000" using bs True by linarith
      show "uint (m_seconds e - m_seconds s) = ?sec mod 4294967296" by (simp add: uint_word_ariths)
      show "?sec * 1000 + ?th = prec_ms e - prec_ms s" by (simp add: prec_ms_def)
    qed
  next
    case False
    then have "uint (m_thousandths e) < uint (m_thousandths s)" by simp
    note d = thousandths_diff(2) [OF bs(2,1) this]
    show ?thesis
    proof (rule goal)
      show "?D = Precision_T (m_seconds e - m_seconds s - 1) (m_thousandths e - m_thousandths s + 1000)"
        using d [THEN conjunct2] by (simp add: deltaPrecision_def Let_def)
      show "uint (m_thousandths e - m_thousandths s + 1000) = ?th + 1000" using d by (rule conjunct1)
      show "0 \<le> ?th + 1000 \<and> ?th + 1000 < 1000" using bs False by linarith
      show "uint (m_seconds e - m_seconds s - 1) = (?sec - 1) mod 4294967296"
        by (simp add: uint_minus_one uint_word_ariths(2) mod_diff_left_eq)
      show "(?sec - 1) * 1000 + (?th + 1000) = prec_ms e - prec_ms s" by (simp add: prec_ms_def)
    qed
  qed
qed

lemma expiredPrecision_ms:
  assumes "well_formed m" "well_formed d" "well_formed now"
  shows "expiredPrecision m d now \<longleftrightarrow> prec_ms d \<le> (prec_ms now - prec_ms m) mod time_range"
proof -
  let ?D = "deltaPrecision m now"
  note D = deltaPrecision_ms [OF assms(1,3)]
  have "expiredPrecision m d now \<longleftrightarrow> \<not> op_lt ?D d"
    by (auto simp: expiredPrecision_def Let_def op_lt_def)
  with D op_lt_iff_ms [of ?D d] assms(2) show ?thesis by auto
qed

lemma plus_eq_ms:
  assumes a: "well_formed a" and b: "well_formed b"
  shows "well_formed (plus_eq a b) \<and> prec_ms (plus_eq a b) = (prec_ms a + prec_ms b) mod time_range"
proof -
  let ?t = "m_thousandths a + m_thousandths b"
    and ?th = "uint (m_thousandths a) + uint (m_thousandths b)"
  note bs = thousandths_bounds [OF a] thousandths_bounds [OF b]
  have t: "uint ?t = ?th"
  proof -
    have "uint ?t = ?th mod 65536" using uint_word_ariths(1) [of "m_thousandths a" "m_thousandths b"] by simp
    also have "\<dots> = ?th" using bs by (intro mod_pos_pos_trivial) linarith+
    finally show ?thesis .
  qed
  have md: "uint (?t mod 1000) = ?th mod 1000" using t by (simp add: uint_mod)
  have dv: "uint (ucast (?t div 1000) :: u32) = ?th div 1000"
    using t by (simp add: uint_div unsigned_ucast_eq take_bit_int_eq_self_iff) (use bs in linarith)
  have wf: "well_formed (plus_eq a b)"
    by (rule well_formedI) (simp add: plus_eq_def Let_def md)
  have "uint (m_seconds (plus_eq a b)) =
      (uint (m_seconds a) + uint (m_seconds b) + ?th div 1000) mod 4294967296"
    using uint_word_ariths(1) [of "m_seconds a" "m_seconds b + ucast (?t div 1000)"]
      uint_word_ariths(1) [of "m_seconds b" "ucast (?t div 1000) :: u32"]
    by (simp add: plus_eq_def Let_def dv mod_add_right_eq add.assoc)
  from prec_ms_mod [OF wf this]
  have "prec_ms (plus_eq a b) =
      ((uint (m_seconds a) + uint (m_seconds b) + ?th div 1000) * 1000 + ?th mod 1000) mod time_range"
    by (simp add: plus_eq_def Let_def md)
  moreover have "(uint (m_seconds a) + uint (m_seconds b) + ?th div 1000) * 1000 + ?th mod 1000
      = prec_ms a + prec_ms b"
    unfolding prec_ms_def by (simp add: algebra_simps)
  ultimately show ?thesis using wf by simp
qed

instantiation Precision_T :: linorder
begin

definition less_eq_Precision_T :: "Precision_T \<Rightarrow> Precision_T \<Rightarrow> bool" where
  "less_eq_Precision_T = op_le"

definition less_Precision_T :: "Precision_T \<Rightarrow> Precision_T \<Rightarrow> bool" where
  "less_Precision_T = op_lt"

instance
proof
  fix x y z :: Precision_T
  show "x < y \<longleftrightarrow> x \<le> y \<and> \<not> y \<le> x"
    by (auto simp: less_eq_Precision_T_def less_Precision_T_def op_le_def op_lt_def op_eq_def)
  show "x \<le> x"
    by (simp add: less_eq_Precision_T_def op_le_def op_eq_def)
  show "x \<le> y \<Longrightarrow> y \<le> z \<Longrightarrow> x \<le> z"
    by (auto simp: less_eq_Precision_T_def op_le_def op_lt_def op_eq_def)
  show "x \<le> y \<Longrightarrow> y \<le> x \<Longrightarrow> x = y"
    by (auto simp: less_eq_Precision_T_def op_le_def op_lt_def op_eq_def Precision_T.expand)
  show "x \<le> y \<or> y \<le> x"
    by (auto simp: less_eq_Precision_T_def op_le_def op_lt_def op_eq_def)
qed

end

lemma op_gt_iff: "op_gt x y \<longleftrightarrow> y < x" and op_ge_iff: "op_ge x y \<longleftrightarrow> y \<le> x"
  by (auto simp: op_gt_def op_ge_def less_Precision_T_def less_eq_Precision_T_def op_lt_def op_le_def op_eq_def)

subsection \<open>The clock follows the tick source\<close>

lemma carry_seconds_eq: "carry_seconds sec ms = (sec + of_nat (unat ms div 1000), ms mod 1000)"
proof (induction sec ms rule: carry_seconds.induct)
  case (1 sec ms)
  show ?case
  proof (cases "ms \<ge> 1000")
    case True
    then have u: "unat (ms - 1000) = unat ms - 1000" and le: "1000 \<le> unat ms"
      by (simp_all add: word_le_nat_alt unat_sub)
    then have "unat ms div 1000 = Suc (unat (ms - 1000) div 1000)"
      by (simp add: le_div_geq)
    moreover have "(ms - 1000) mod 1000 = ms mod 1000"
      using u le by (simp add: word_unat_eq_iff unat_mod le_mod_geq)
    ultimately show ?thesis
      using 1 True by (simp add: carry_seconds.simps [of sec ms])
  next
    case False
    then have "unat ms < 1000" by (simp add: word_le_nat_alt)
    then have "ms mod 1000 = ms" "unat ms div 1000 = 0" by (simp_all add: word_unat_eq_iff unat_mod)
    with False show ?thesis by (simp add: carry_seconds.simps [of sec ms])
  qed
qed

text \<open>
  \<open>clock_at T c\<close>: the clock has been fed \<open>T\<close> milliseconds in all. The seconds counter and the
  carry together hold all of \<open>T\<close>; the millisecond counter holds it modulo \<open>2 ^ 32\<close>.
\<close>

definition clock_at :: "nat \<Rightarrow> clock \<Rightarrow> bool" where
  "clock_at T c \<longleftrightarrow>
     elapsedMsec c = of_nat T \<and> elapsedSec c = of_nat (T div 1000) \<and> sumDeltaMs c = of_nat (T mod 1000)"

lemma clock_at_notify: "clock_at 0 (clock_notify now)"
  by (simp add: clock_at_def clock_notify_def)

lemma clock_at_step:
  assumes c: "clock_at T c" and d: "unat (newTime - lastMsec c) \<le> 2 ^ 32 - 1000"
  shows "clock_at (T + unat (newTime - lastMsec c)) (snd (millisecondsInRealTime newTime c))"
proof -
  let ?d = "newTime - lastMsec c"
  let ?m = "T mod 1000 + unat ?d"
  have u: "unat (sumDeltaMs c + ?d) = ?m"
    using c d by (simp add: clock_at_def unat_word_ariths unat_of_nat)
  have "T + unat ?d = ?m + T div 1000 * 1000" by simp
  then have "(T + unat ?d) div 1000 = T div 1000 + ?m div 1000" and "(T + unat ?d) mod 1000 = ?m mod 1000"
    by (simp_all only: div_mult_self1 mod_mult_self1)
  moreover have "(sumDeltaMs c + ?d) mod 1000 = of_nat (?m mod 1000)"
    using u by (simp add: word_unat_eq_iff unat_mod unat_of_nat)
  ultimately show ?thesis
    using c u by (simp add: clock_at_def millisecondsInRealTime_def carry_seconds_eq Let_def)
qed

lemma precisionInRealTime_at:
  assumes "clock_at T c" "unat (newTime - lastMsec c) \<le> 2 ^ 32 - 1000"
  defines "T' \<equiv> T + unat (newTime - lastMsec c)"
  shows "fst (precisionInRealTime newTime c) =
     Precision_T (of_nat (T' div 1000)) (of_nat (T' mod 2 ^ 32 mod 1000))"
proof -
  let ?c = "snd (millisecondsInRealTime newTime c)"
  have at: "clock_at T' ?c"
    unfolding T'_def by (rule clock_at_step [OF assms(1,2)])
  have "(ucast (of_nat T' mod 1000 :: u32) :: u16) = of_nat (T' mod 2 ^ 32 mod 1000)"
    by (simp add: word_unat_eq_iff unsigned_ucast_eq unat_mod unat_of_nat take_bit_nat_eq_self_iff)
  with at show ?thesis by (simp add: precisionInRealTime_def Let_def clock_at_def)
qed

lemma prec_ms_of_nat:
  assumes "n < 2 ^ 32"
  shows "prec_ms (Precision_T (of_nat (n div 1000)) (of_nat (n mod 2 ^ 32 mod 1000))) = int n"
proof -
  have "unat (of_nat (n div 1000) :: u32) = n div 1000" "unat (of_nat (n mod 1000) :: u16) = n mod 1000"
    using assms by (simp_all add: unat_of_nat)
  then have "uint (of_nat (n div 1000) :: u32) = int (n div 1000)"
      "uint (of_nat (n mod 1000) :: u16) = int (n mod 1000)"
    by (metis of_nat_unat)+
  moreover have "int (n div 1000) * 1000 + int (n mod 1000) = int n"
    by (simp flip: of_nat_mult of_nat_add add: of_nat_div of_nat_mod)
  ultimately show ?thesis using assms by (simp add: prec_ms_def)
qed

subsection \<open>Properties\<close>

text \<open>
  C26. \<open>expiredPrecision\<close> answers whether at least the duration has elapsed since the time marker,
  for well formed arguments and across a roll over.
\<close>

theorem expired_iff_duration_elapsed:
  assumes "well_formed m" "well_formed d" "well_formed now"
  shows "expiredPrecision m d now \<longleftrightarrow> prec_ms d \<le> (prec_ms now - prec_ms m) mod 4294967296000"
  using assms by (rule expiredPrecision_ms)

theorem expired_iff_duration_elapsed_witness:
  "expiredPrecision (Precision_T 0xFFFFFFFF 500) (Precision_T 1 0) (Precision_T 0 500) \<and>
   \<not> expiredPrecision (Precision_T 0xFFFFFFFF 500) (Precision_T 1 0) (Precision_T 0 499)"
  using expired_iff_duration_elapsed
      [of "Precision_T 0xFFFFFFFF 500" "Precision_T 1 0" "Precision_T 0 500"]
    expired_iff_duration_elapsed
      [of "Precision_T 0xFFFFFFFF 500" "Precision_T 1 0" "Precision_T 0 499"]
  by (simp add: well_formed_def prec_ms_def)

text \<open>
  The running clock: as long as fewer than \<open>2 ^ 32\<close> milliseconds have passed since startup and
  the clock is read at least once every \<open>2 ^ 32 - 1000\<close> milliseconds, \<open>precisionInRealTime\<close>
  returns the elapsed time exactly, and the clock keeps its invariant.
\<close>

lemma precision_clock_exact:
  assumes "clock_at T c" and "unat (newTime - lastMsec c) \<le> 2 ^ 32 - 1000"
    and "T + unat (newTime - lastMsec c) < 2 ^ 32"
  shows "prec_ms (fst (precisionInRealTime newTime c)) = int (T + unat (newTime - lastMsec c)) \<and>
     clock_at (T + unat (newTime - lastMsec c)) (snd (precisionInRealTime newTime c))"
proof -
  have "snd (precisionInRealTime newTime c) = snd (millisecondsInRealTime newTime c)"
    by (simp add: precisionInRealTime_def Let_def)
  then show ?thesis
    using clock_at_step [OF assms(1,2)] prec_ms_of_nat [OF assms(3)]
    by (simp only: precisionInRealTime_at [OF assms(1,2)])
qed

lemma precision_clock_exact_witness:
  "prec_ms (fst (precisionInRealTime 6200 (clock_notify 5000))) = 1200"
  using precision_clock_exact [OF clock_at_notify [of 5000], of 6200]
  by (simp add: clock_notify_def)

text \<open>
  After the millisecond counter has rolled over, the fraction that \<open>precisionInRealTime\<close>
  reports is taken from the truncated counter and not from the carried remainder: one millisecond
  after \<open>2 ^ 32 - 1\<close> milliseconds the reported time is 295 milliseconds earlier than before.
\<close>

lemma precision_clock_steps_back:
  assumes "clock_at (2 ^ 32 - 1) c"
  shows "fst (precisionInRealTime (lastMsec c) c) = Precision_T 4294967 295 \<and>
     fst (precisionInRealTime (lastMsec c + 1) c) = Precision_T 4294967 0 \<and>
     fst (precisionInRealTime (lastMsec c + 1) c) < fst (precisionInRealTime (lastMsec c) c)"
  using precisionInRealTime_at [OF assms, of "lastMsec c"]
    precisionInRealTime_at [OF assms, of "lastMsec c + 1"]
  by (simp add: less_Precision_T_def op_lt_def)

lemma precision_clock_steps_back_witness:
  "fst (precisionInRealTime 1
     \<lparr>elapsedMsec = 0xFFFFFFFF, elapsedSec = 4294967, lastMsec = 0, sumDeltaMs = 295\<rparr>)
   = Precision_T 4294967 0"
  using precision_clock_steps_back [of
     "\<lparr>elapsedMsec = 0xFFFFFFFF, elapsedSec = 4294967, lastMsec = 0, sumDeltaMs = 295\<rparr>"]
  by (simp add: clock_at_def)

end
