(* ===== verification/Timer_Manager.thy ===== *)
theory Timer_Manager
  imports Doubly_Linked_List Elapsed_Time
begin

text \<open>
  Software timers (src/src/Cpl/System/TimerManager.cpp and Timer.cpp). The active timers are a doubly linked
  list in the order of their expiration, where each timer counts only the milliseconds after its predecessor,
  so that a tick decrements the first one alone; timers that are started by an expiration wait in a second
  list. The timers and their manager live in one store; the timer clients are a parameter of the model: an
  expiration changes the state of the clients and makes a list of calls to timers. The clock readings are
  arguments of the operations that read it.
\<close>

record 'c timers =
  tm_items :: items
  m_count :: "nat \<Rightarrow> u32"
  m_timingSource :: "nat \<Rightarrow> bool"
  m_timeMark :: u32
  m_timeNow :: u32
  m_inTickCall :: bool
  tm_client :: 'c

abbreviation (input) m_counters :: nat where "m_counters \<equiv> 0"

abbreviation (input) m_pendingAttach :: nat where "m_pendingAttach \<equiv> 1"

datatype tm_call =
    Start nat u32 u32   \<comment> \<open>timer, duration, clock\<close>
  | Stop nat
  | SetTimingSource nat

type_synonym 'c expirations = "nat \<Rightarrow> 'c \<Rightarrow> tm_call list \<times> 'c"

subsection \<open>Timer: the counter\<close>

definition decrement :: "nat \<Rightarrow> u32 \<Rightarrow> 'c timers \<Rightarrow> 'c timers" where
  "decrement i milliseconds s = s\<lparr>m_count := (m_count s)(i := m_count s i - milliseconds)\<rparr>"

definition increment :: "nat \<Rightarrow> u32 \<Rightarrow> 'c timers \<Rightarrow> 'c timers" where
  "increment i milliseconds s = s\<lparr>m_count := (m_count s)(i := m_count s i + milliseconds)\<rparr>"

subsection \<open>TimerManager\<close>

definition TimerManager :: "'c \<Rightarrow> 'c timers" where
  "TimerManager c = \<lparr>tm_items = no_items, m_count = (\<lambda>_. 0), m_timingSource = (\<lambda>_. False), m_timeMark = 0,
     m_timeNow = 0, m_inTickCall = False, tm_client = c\<rparr>"

definition startManager :: "u32 \<Rightarrow> 'c timers \<Rightarrow> 'c timers" where
  "startManager clock s = s\<lparr>m_timeMark := clock\<rparr>"

definition areActiveTimers :: "'c timers \<Rightarrow> bool" where
  "areActiveTimers s \<longleftrightarrow> DList_first m_counters (tm_items s) = None"

definition with_items :: "(items \<Rightarrow> items result) \<Rightarrow> 'c timers \<Rightarrow> 'c timers result" where
  "with_items f s = bindR (f (tm_items s)) (\<lambda>h. Inr (s\<lparr>tm_items := h\<rparr>))"

partial_function (option) add_from :: "nat option \<Rightarrow> nat \<Rightarrow> 'c timers \<Rightarrow> 'c timers result option" where
  "add_from counterPtr client s =
     (case counterPtr of
        None \<Rightarrow> Some (with_items (DList_putLast m_counters client) s)
      | Some p \<Rightarrow>
          if m_count s client < m_count s p
          then Some (with_items (DList_insertBefore m_counters p client) (decrement p (m_count s client) s))
          else let s = decrement client (m_count s p) s
               in if m_count s client = 0
                  then Some (with_items (DList_insertAfter m_counters p client) s)
                  else add_from (DList_next p (tm_items s)) client s)"

definition addToActiveList :: "nat \<Rightarrow> 'c timers \<Rightarrow> 'c timers result option" where
  "addToActiveList client s = add_from (DList_first m_counters (tm_items s)) client s"

definition attach :: "nat \<Rightarrow> 'c timers \<Rightarrow> 'c timers result option" where
  "attach client s =
     (if m_inTickCall s then Some (with_items (DList_put m_pendingAttach client) s)
      else addToActiveList client s)"

definition detach :: "nat \<Rightarrow> 'c timers \<Rightarrow> bool \<times> 'c timers" where
  "detach client s =
     (let (removed, h) = DList_remove m_pendingAttach client (tm_items s); s = s\<lparr>tm_items := h\<rparr>
      in if removed then (True, s)
         else if DList_find m_counters client (tm_items s)
         then let s = (case DList_next client (tm_items s) of
                         Some n \<Rightarrow> increment n (m_count s client) s
                       | None \<Rightarrow> s)
              in (True, s\<lparr>tm_items := snd (DList_remove m_counters client (tm_items s))\<rparr>)
         else (False, s))"

definition msecToCounts :: "u32 \<Rightarrow> u32 \<Rightarrow> 'c timers \<Rightarrow> u32" where
  "msecToCounts milliseconds clock s = milliseconds + deltaMilliseconds (m_timeNow s) clock"

subsection \<open>Timer: the calls of the clients\<close>

definition setTimingSource :: "nat \<Rightarrow> 'c timers \<Rightarrow> 'c timers" where
  "setTimingSource i s = s\<lparr>m_timingSource := (m_timingSource s)(i := True)\<rparr>"

definition Timer_start :: "nat \<Rightarrow> u32 \<Rightarrow> u32 \<Rightarrow> 'c timers \<Rightarrow> 'c timers result option" where
  "Timer_start i duration clock s =
     bindOR (Some (guardR AssertFailed (m_timingSource s i))) (\<lambda>_.
     let s = snd (detach i s)
     in attach i (s\<lparr>m_count := (m_count s)(i := msecToCounts duration clock s)\<rparr>))"

definition Timer_stop :: "nat \<Rightarrow> 'c timers \<Rightarrow> 'c timers result option" where
  "Timer_stop i s =
     bindOR (Some (guardR AssertFailed (m_timingSource s i))) (\<lambda>_. Some (Inr (snd (detach i s))))"

fun timer_call :: "tm_call \<Rightarrow> 'c timers \<Rightarrow> 'c timers result option" where
  "timer_call (Start i duration clock) s = Timer_start i duration clock s"
| "timer_call (Stop i) s = Timer_stop i s"
| "timer_call (SetTimingSource i) s = Some (Inr (setTimingSource i s))"

fun timer_calls :: "tm_call list \<Rightarrow> 'c timers \<Rightarrow> 'c timers result option" where
  "timer_calls [] s = Some (Inr s)"
| "timer_calls (x # xs) s = bindOR (timer_call x s) (timer_calls xs)"

subsection \<open>TimerManager: the tick\<close>

definition timer_expired :: "'c expirations \<Rightarrow> nat \<Rightarrow> 'c timers \<Rightarrow> 'c timers result option" where
  "timer_expired cb i s = (let (calls, c) = cb i (tm_client s) in timer_calls calls (s\<lparr>tm_client := c\<rparr>))"

partial_function (option) expire_zero :: "'c expirations \<Rightarrow> nat option \<Rightarrow> 'c timers \<Rightarrow> 'c timers result option" where
  "expire_zero cb counterPtr s =
     (case counterPtr of
        None \<Rightarrow> Some (Inr s)
      | Some p \<Rightarrow>
          if m_count s p = 0
          then bindOR (timer_expired cb p (s\<lparr>tm_items := snd (DList_get m_counters (tm_items s))\<rparr>))
                 (\<lambda>s. expire_zero cb (DList_first m_counters (tm_items s)) s)
          else Some (Inr s))"

partial_function (option) tick_loop :: "'c expirations \<Rightarrow> u32 \<Rightarrow> 'c timers \<Rightarrow> 'c timers result option" where
  "tick_loop cb msec s =
     (if msec = 0 then Some (Inr s)
      else (case DList_first m_counters (tm_items s) of
              None \<Rightarrow> Some (Inr s)
            | Some p \<Rightarrow>
                let nextCount = m_count s p
                in if msec \<le> nextCount
                   then bindOR (expire_zero cb (Some p) (decrement p msec s)) (tick_loop cb 0)
                   else bindOR (expire_zero cb (Some p) (decrement p nextCount s)) (tick_loop cb (msec - nextCount))))"

definition tick :: "'c expirations \<Rightarrow> u32 \<Rightarrow> 'c timers \<Rightarrow> 'c timers result option" where
  "tick cb msec s = tick_loop cb msec (s\<lparr>m_inTickCall := True\<rparr>)"

partial_function (option) attach_pending :: "'c timers \<Rightarrow> 'c timers result option" where
  "attach_pending s =
     (case DList_get m_pendingAttach (tm_items s) of
        (None, h) \<Rightarrow> Some (Inr (s\<lparr>tm_items := h\<rparr>))
      | (Some p, h) \<Rightarrow> bindOR (addToActiveList p (s\<lparr>tm_items := h\<rparr>)) attach_pending)"

definition tickComplete :: "'c timers \<Rightarrow> 'c timers result option" where
  "tickComplete s = bindOR (attach_pending s) (\<lambda>s. Some (Inr (s\<lparr>m_inTickCall := False\<rparr>)))"

definition processTimers :: "'c expirations \<Rightarrow> u32 \<Rightarrow> 'c timers \<Rightarrow> 'c timers result option" where
  "processTimers cb clock s =
     (let s = s\<lparr>m_timeNow := clock\<rparr>; deltaTime = deltaMilliseconds (m_timeMark s) clock
      in bindOR (tick cb deltaTime s) (\<lambda>s. tickComplete (s\<lparr>m_timeMark := m_timeNow s\<rparr>)))"

subsection \<open>The specification: a schedule of remaining times\<close>

text \<open>
  The schedule has the active timers with their remaining times after the mark, in the order of expiration,
  and the waiting ones. A pass over \<open>msec\<close> milliseconds expires the timers with at most this much left, one
  by one, with what their clients do, and takes the time off the others.
\<close>

record 'c schedule =
  sc_due :: "(nat \<times> nat) list"
  sc_waiting :: "(nat \<times> nat) list"
  sc_owned :: "nat \<Rightarrow> bool"
  sc_mark :: u32
  sc_now :: u32
  sc_ticking :: bool
  sc_client :: 'c

fun sched_insert :: "nat \<times> nat \<Rightarrow> (nat \<times> nat) list \<Rightarrow> (nat \<times> nat) list" where
  "sched_insert x [] = [x]"
| "sched_insert x (y # ys) =
     (if snd x < snd y then x # y # ys else if snd x = snd y then y # x # ys else y # sched_insert x ys)"

definition sched_remove :: "nat \<Rightarrow> 'c schedule \<Rightarrow> 'c schedule" where
  "sched_remove i S = S\<lparr>sc_due := filter (\<lambda>x. fst x \<noteq> i) (sc_due S), sc_waiting := filter (\<lambda>x. fst x \<noteq> i) (sc_waiting S)\<rparr>"

definition sched_add :: "nat \<times> nat \<Rightarrow> 'c schedule \<Rightarrow> 'c schedule" where
  "sched_add x S =
     (if sc_ticking S then S\<lparr>sc_waiting := sc_waiting S @ [x]\<rparr> else S\<lparr>sc_due := sched_insert x (sc_due S)\<rparr>)"

fun sched_call :: "tm_call \<Rightarrow> 'c schedule \<Rightarrow> 'c schedule result" where
  "sched_call (Start i duration clock) S =
     (if sc_owned S i then Inr (sched_add (i, unat (duration + (clock - sc_now S))) (sched_remove i S))
      else Inl AssertFailed)"
| "sched_call (Stop i) S = (if sc_owned S i then Inr (sched_remove i S) else Inl AssertFailed)"
| "sched_call (SetTimingSource i) S = Inr (S\<lparr>sc_owned := (sc_owned S)(i := True)\<rparr>)"

fun sched_calls :: "tm_call list \<Rightarrow> 'c schedule \<Rightarrow> 'c schedule result" where
  "sched_calls [] S = Inr S"
| "sched_calls (x # xs) S = bindR (sched_call x S) (sched_calls xs)"

text \<open>One expiration per round; a schedule of \<open>n\<close> active timers has at most \<open>n\<close> of them.\<close>

fun sched_expire :: "'c expirations \<Rightarrow> nat \<Rightarrow> nat \<Rightarrow> 'c schedule \<Rightarrow> 'c schedule result" where
  "sched_expire cb 0 msec S = Inr S"
| "sched_expire cb (Suc n) msec S =
     (case sc_due S of
        [] \<Rightarrow> Inr S
      | (i, r) # xs \<Rightarrow>
          if r \<le> msec
          then let (calls, c) = cb i (sc_client S)
               in bindR (sched_calls calls (S\<lparr>sc_due := xs, sc_client := c\<rparr>)) (sched_expire cb n msec)
          else Inr S)"

definition sched_pass :: "'c expirations \<Rightarrow> nat \<Rightarrow> 'c schedule \<Rightarrow> 'c schedule result" where
  "sched_pass cb msec S =
     (if msec = 0 then Inr S
      else bindR (sched_expire cb (length (sc_due S)) msec S)
             (\<lambda>S. Inr (S\<lparr>sc_due := map (\<lambda>(i, r). (i, r - msec)) (sc_due S)\<rparr>)))"

definition sched_process :: "'c expirations \<Rightarrow> u32 \<Rightarrow> 'c schedule \<Rightarrow> 'c schedule result" where
  "sched_process cb clock S =
     bindR (sched_pass cb (unat (clock - sc_mark S)) (S\<lparr>sc_now := clock, sc_ticking := True\<rparr>)) (\<lambda>S.
     Inr (S\<lparr>sc_mark := sc_now S, sc_ticking := False, sc_due := fold sched_insert (sc_waiting S) (sc_due S),
            sc_waiting := []\<rparr>))"

subsection \<open>The linked counters encode the schedule\<close>

definition queues :: "(nat \<times> nat) list \<Rightarrow> (nat \<times> nat) list \<Rightarrow> nat \<Rightarrow> nat list" where
  "queues due waiting = (\<lambda>_. [])(m_counters := map fst due, m_pendingAttach := map fst waiting)"

lemma queues_simps [simp]:
  "queues due waiting 0 = map fst due"
  "queues due waiting (Suc 0) = map fst waiting"
  "(queues due waiting)(0 := map fst due') = queues due' waiting"
  "(queues due waiting)(Suc 0 := map fst waiting') = queues due waiting'"
  by (auto simp: queues_def)

lemma free_item_queues [simp]:
  "free_item (queues due waiting) i \<longleftrightarrow> i \<notin> fst ` set due \<and> i \<notin> fst ` set waiting"
  by (auto simp: free_item_def queues_def)

text \<open>
  Each counter has the time that passes after its predecessor, the first one the time after \<open>e\<close> milliseconds.
\<close>

fun encodes :: "nat \<Rightarrow> (nat \<Rightarrow> u32) \<Rightarrow> (nat \<times> nat) list \<Rightarrow> bool" where
  "encodes e cnt [] = True"
| "encodes e cnt ((i, r) # xs) = (r < 2 ^ 32 \<and> r = e + unat (cnt i) \<and> encodes r cnt xs)"

lemma encodes_cong: "(\<And>i. i \<in> fst ` set xs \<Longrightarrow> cnt' i = cnt i) \<Longrightarrow> encodes e cnt' xs = encodes e cnt xs"
  by (induction e cnt xs rule: encodes.induct) auto

lemma encodes_upd [simp]: "i \<notin> fst ` set xs \<Longrightarrow> encodes e (cnt(i := c)) xs = encodes e cnt xs"
  by (rule encodes_cong) auto

lemma next_in_queue:
  assumes "represents h (queues (as @ (i, r) # bs) ps)"
  shows "DList_next i h = first_of (map fst bs)"
proof -
  have "distinct (map fst (as @ (i, r) # bs))"
    using represents_distinct [OF assms, of 0] by simp
  then show ?thesis
    using represents_next [OF assms, of i 0] by (auto simp: succ_in_append)
qed

lemma add_from_refines:
  assumes "represents (tm_items s) (queues (as @ bs) ps)" "free_item (queues (as @ bs) ps) i"
    "encodes e (m_count s) bs" "c = e + unat (m_count s i)" "c < 2 ^ 32"
  shows "\<exists>h cnt. add_from (first_of (map fst bs)) i s = Some (Inr (s\<lparr>tm_items := h, m_count := cnt\<rparr>)) \<and>
    represents h (queues (as @ sched_insert (i, c) bs) ps) \<and> encodes e cnt (sched_insert (i, c) bs) \<and>
    (\<forall>j. j \<notin> insert i (fst ` set bs) \<longrightarrow> cnt j = m_count s j)"
  using assms
proof (induction bs arbitrary: as e s)
  case Nil
  obtain h where "DList_put 0 i (tm_items s) = Inr h" "represents h (queues (as @ [(i, c)]) ps)"
    using put_refines [OF Nil.prems(1,2), of 0] queues_simps(3) [of _ _ "as @ [(i, c)]"] by auto
  then show ?case
    using Nil.prems by (subst add_from.simps) (auto simp: with_items_def DList_putLast_def intro!: exI [of _ h] exI [of _ "m_count s"])
next
  case (Cons x bs)
  obtain p r where x: "x = (p, r)"
    by fastforce
  have r: "r < 2 ^ 32" "r = e + unat (m_count s p)" "encodes r (m_count s) bs"
    using Cons.prems(3) unfolding x encodes.simps by blast+
  have p: "p \<noteq> i" "p \<notin> fst ` set bs" "i \<notin> fst ` set bs"
    using Cons.prems(2) represents_distinct [OF Cons.prems(1), of 0] by (auto simp: x)
  consider "m_count s i < m_count s p" | "m_count s i = m_count s p" | "m_count s p < m_count s i"
    by fastforce
  then show ?case
  proof cases
    case 1
    then have "unat (m_count s p - m_count s i) = r - c" "c < r"
      using r(2) Cons.prems(4) by (simp_all add: word_less_nat_alt unat_word_sub_no_wrap)
    moreover obtain h where "DList_insertBefore 0 p i (tm_items s) = Inr h" "represents h (queues (as @ (i, c) # x # bs) ps)"
      using insert_refines(2) [OF Cons.prems(1,2), of 0 "map fst as" p "map fst bs"]
        queues_simps(3) [of _ _ "as @ (i, c) # x # bs"] by (auto simp: x)
    ultimately show ?thesis
      using 1 p r Cons.prems(4,5)
      by (subst add_from.simps)
        (intro exI [of _ h] exI [of _ "(m_count s)(p := m_count s p - m_count s i)"], simp add: x with_items_def decrement_def)
  next
    case 2
    then have "c = r"
      using r(2) Cons.prems(4) by simp
    moreover obtain h where "DList_insertAfter 0 p i (tm_items s) = Inr h" "represents h (queues (as @ x # (i, c) # bs) ps)"
      using insert_refines(1) [OF Cons.prems(1,2), of 0 "map fst as" p "map fst bs"]
        queues_simps(3) [of _ _ "as @ x # (i, c) # bs"] by (auto simp: x)
    ultimately show ?thesis
      using 2 p r Cons.prems(4,5)
      by (subst add_from.simps)
        (intro exI [of _ h] exI [of _ "(m_count s)(i := 0)"], simp add: x with_items_def decrement_def)
  next
    case 3
    let ?s = "decrement i (m_count s p) s"
    have c: "unat (m_count s i - m_count s p) = c - r" "r < c" "m_count s i - m_count s p \<noteq> 0"
      using 3 r(2) Cons.prems(4) by (auto simp: word_less_nat_alt unat_word_sub_no_wrap)
    have enc: "encodes r (m_count ?s) bs"
      using r(3) p(3) by (subst encodes_cong [of bs _ "m_count s"]) (auto simp: decrement_def)
    have "\<exists>h cnt. add_from (first_of (map fst bs)) i ?s = Some (Inr (?s\<lparr>tm_items := h, m_count := cnt\<rparr>)) \<and>
        represents h (queues ((as @ [x]) @ sched_insert (i, c) bs) ps) \<and> encodes r cnt (sched_insert (i, c) bs) \<and>
        (\<forall>j. j \<notin> insert i (fst ` set bs) \<longrightarrow> cnt j = m_count ?s j)"
      using Cons.prems c p r(2) by (intro Cons.IH [OF _ _ enc]) (simp_all add: decrement_def x)
    then obtain h cnt where h: "add_from (first_of (map fst bs)) i ?s = Some (Inr (?s\<lparr>tm_items := h, m_count := cnt\<rparr>))"
        "represents h (queues ((as @ [x]) @ sched_insert (i, c) bs) ps)" "encodes r cnt (sched_insert (i, c) bs)"
        "\<forall>j. j \<notin> insert i (fst ` set bs) \<longrightarrow> cnt j = m_count ?s j"
      by blast
    have "add_from (first_of (map fst (x # bs))) i s = Some (Inr (s\<lparr>tm_items := h, m_count := cnt\<rparr>))"
      using h(1) leD [OF less_imp_le [OF 3]] c(3) next_in_queue [of "tm_items s" as p r bs ps] Cons.prems(1)
      by (subst add_from.simps) (simp add: x decrement_def)
    moreover have "cnt p = m_count s p"
      using h(4) p by (simp add: decrement_def)
    ultimately show ?thesis
      using h(2,3,4) r c(2) p by (intro exI [of _ h] exI [of _ cnt]) (auto simp: x decrement_def)
  qed
qed

definition scheduled :: "nat \<Rightarrow> 'c timers \<Rightarrow> 'c schedule \<Rightarrow> bool" where
  "scheduled e s S \<longleftrightarrow> represents (tm_items s) (queues (sc_due S) (sc_waiting S)) \<and>
     encodes e (m_count s) (sc_due S) \<and> (\<forall>x \<in> set (sc_waiting S). unat (m_count s (fst x)) = snd x) \<and>
     m_timingSource s = sc_owned S \<and> m_timeMark s = sc_mark S \<and> m_timeNow s = sc_now S \<and>
     m_inTickCall s = sc_ticking S \<and> tm_client s = sc_client S"

lemma map_fst_without: "distinct (map fst xs) \<Longrightarrow> map fst (filter (\<lambda>x. fst x \<noteq> i) xs) = remove1 i (map fst xs)"
  by (induction xs) (auto simp: remove1_idem)

lemma without_split:
  "i \<notin> fst ` set as \<Longrightarrow> i \<notin> fst ` set bs \<Longrightarrow> filter (\<lambda>x. fst x \<noteq> i) (as @ (i, r) # bs) = as @ bs"
  by (induction as) (auto intro!: filter_True)

lemma encodes_without:
  "encodes e cnt (as @ (i, r) # bs) \<Longrightarrow> distinct (map fst (as @ (i, r) # bs)) \<Longrightarrow>
   encodes e (case first_of (map fst bs) of None \<Rightarrow> cnt | Some n \<Rightarrow> cnt(n := cnt n + cnt i)) (as @ bs)"
proof (induction as arbitrary: e)
  case Nil
  show ?case
  proof (cases bs)
    case (Cons b bs')
    obtain n q where b: "b = (n, q)"
      by fastforce
    have "unat (cnt n + cnt i) = unat (cnt n) + unat (cnt i)"
      using Nil Cons b by (intro unat_word_add_no_wrap) auto
    moreover have "encodes q (cnt(n := cnt n + cnt i)) bs' = encodes q cnt bs'"
      using Nil(2) Cons b by (intro encodes_upd) simp
    ultimately show ?thesis
      using Nil Cons b by (auto simp del: fun_upd_apply simp: fun_upd_same)
  qed simp
next
  case (Cons a as)
  obtain j q where a: "a = (j, q)"
    by fastforce
  have "j \<notin> fst ` set bs"
    using Cons.prems(2) a by auto
  then have "(case first_of (map fst bs) of None \<Rightarrow> cnt | Some n \<Rightarrow> cnt(n := cnt n + cnt i)) j = cnt j"
    by (cases bs) auto
  moreover have "encodes q cnt (as @ (i, r) # bs)" "q < 2 ^ 32" "q = e + unat (cnt j)"
    using Cons.prems(1) unfolding a append_Cons encodes.simps by blast+
  ultimately show ?case
    using Cons.IH [of q] Cons.prems(2) unfolding a append_Cons encodes.simps by simp
qed

lemma remove_queue:
  assumes "represents h (queues due waiting)"
  shows "\<exists>h'. DList_remove 0 i h = (i \<in> fst ` set due, h') \<and> represents h' (queues (filter (\<lambda>x. fst x \<noteq> i) due) waiting)"
    and "\<exists>h'. DList_remove (Suc 0) i h = (i \<in> fst ` set waiting, h') \<and> represents h' (queues due (filter (\<lambda>x. fst x \<noteq> i) waiting))"
proof -
  have "distinct (map fst due)" "distinct (map fst waiting)"
    using represents_distinct [OF assms, of 0] represents_distinct [OF assms, of 1] by simp_all
  note eqs = map_fst_without [OF this(1), of i, symmetric] map_fst_without [OF this(2), of i, symmetric]
  show "\<exists>h'. DList_remove 0 i h = (i \<in> fst ` set due, h') \<and> represents h' (queues (filter (\<lambda>x. fst x \<noteq> i) due) waiting)"
    using remove_refines [OF assms, of 0 i] by (simp add: eqs)
  show "\<exists>h'. DList_remove (Suc 0) i h = (i \<in> fst ` set waiting, h') \<and> represents h' (queues due (filter (\<lambda>x. fst x \<noteq> i) waiting))"
    using remove_refines [OF assms, of 1 i] by (simp add: eqs)
qed

lemma filter_absent: "i \<notin> fst ` set xs \<Longrightarrow> filter (\<lambda>x. fst x \<noteq> i) xs = xs"
  by (auto intro!: filter_True)

lemma detach_refines:
  assumes "scheduled e s S"
  shows "scheduled e (snd (detach i s)) (sched_remove i S)"
proof -
  note rep = assms [unfolded scheduled_def, THEN conjunct1]
  obtain h where h: "DList_remove (Suc 0) i (tm_items s) = (i \<in> fst ` set (sc_waiting S), h)"
      "represents h (queues (sc_due S) (filter (\<lambda>x. fst x \<noteq> i) (sc_waiting S)))"
    using remove_queue(2) [OF rep] by blast
  have disj: "j \<in> fst ` set (sc_waiting S) \<Longrightarrow> j \<notin> fst ` set (sc_due S)" for j
    using represents_disjoint [OF rep, of j 1 0] by simp
  show ?thesis
  proof (cases "i \<in> fst ` set (sc_due S)")
    case False
    have "snd (detach i s) = s\<lparr>tm_items := h\<rparr>"
      using h(1) False represents_find [OF h(2), of 0 i] by (simp add: detach_def Let_def)
    then show ?thesis
      using h(2) False assms by (simp add: scheduled_def sched_remove_def filter_absent)
  next
    case True
    then obtain as r bs where ab: "sc_due S = as @ (i, r) # bs"
      by (auto dest!: split_list)
    have w: "i \<notin> fst ` set (sc_waiting S)"
      using True disj by blast
    let ?cnt = "case first_of (map fst bs) of None \<Rightarrow> m_count s | Some n \<Rightarrow> (m_count s)(n := m_count s n + m_count s i)"
    have d: "distinct (map fst (as @ (i, r) # bs))"
      using represents_distinct [OF rep, of 0] by (simp add: ab)
    then have out: "filter (\<lambda>x. fst x \<noteq> i) (sc_due S) = as @ bs"
      using without_split [of i as bs r] unfolding ab by simp
    obtain h' where h': "DList_remove 0 i h = (True, h')" "represents h' (queues (as @ bs) (sc_waiting S))"
      using remove_queue(1) [OF h(2), of i] True w by (auto simp: out filter_absent)
    have "snd (detach i s) = s\<lparr>tm_items := h', m_count := ?cnt\<rparr>"
      using True w h(1) h'(1) next_in_queue [OF h(2) [unfolded ab]] represents_find [OF h(2), of 0 i]
      by (simp add: detach_def increment_def Let_def split: option.split)
    moreover have "encodes e ?cnt (as @ bs)"
      using assms d by (intro encodes_without [where r = r]) (simp_all add: scheduled_def ab)
    moreover have "?cnt (fst x) = m_count s (fst x)" if "x \<in> set (sc_waiting S)" for x
      using disj [of "fst x"] that by (cases bs) (auto simp: ab)
    ultimately show ?thesis
      using h'(2) assms w out by (simp add: scheduled_def sched_remove_def filter_absent)
  qed
qed

abbreviation timer_free :: "nat \<Rightarrow> 'c schedule \<Rightarrow> bool" where
  "timer_free i S \<equiv> i \<notin> fst ` set (sc_due S) \<and> i \<notin> fst ` set (sc_waiting S)"

lemma scheduled_count:
  "scheduled e s S \<Longrightarrow> timer_free i S \<Longrightarrow> scheduled e (s\<lparr>m_count := (m_count s)(i := c)\<rparr>) S"
  by (fastforce simp: scheduled_def)

lemma add_refines:
  assumes "scheduled 0 s S" "timer_free i S" "c = unat (m_count s i)"
  shows "\<exists>s'. addToActiveList i s = Some (Inr s') \<and> scheduled 0 s' (S\<lparr>sc_due := sched_insert (i, c) (sc_due S)\<rparr>)"
proof -
  note S = assms(1) [unfolded scheduled_def]
  have "c < 2 ^ 32"
    using unsigned_less [of "m_count s i"] assms(3) by simp
  then obtain h cnt where h: "add_from (first_of (map fst (sc_due S))) i s = Some (Inr (s\<lparr>tm_items := h, m_count := cnt\<rparr>))"
      "represents h (queues (sched_insert (i, c) (sc_due S)) (sc_waiting S))" "encodes 0 cnt (sched_insert (i, c) (sc_due S))"
      "\<forall>j. j \<notin> insert i (fst ` set (sc_due S)) \<longrightarrow> cnt j = m_count s j"
    using add_from_refines [of s "[]" "sc_due S" "sc_waiting S" i 0 c] S assms(2,3) by auto
  have "cnt (fst x) = m_count s (fst x)" if "x \<in> set (sc_waiting S)" for x
    using h(4) assms(2) represents_disjoint [OF S [THEN conjunct1], of "fst x" 1 0] that by auto
  moreover have "addToActiveList i s = Some (Inr (s\<lparr>tm_items := h, m_count := cnt\<rparr>))"
    using h(1) represents_first [OF S [THEN conjunct1], of 0] by (simp add: addToActiveList_def)
  ultimately show ?thesis
    using S h(2,3) by (simp add: scheduled_def)
qed

lemma attach_refines:
  assumes "scheduled e s S" "timer_free i S" "c = unat (m_count s i)" "sc_ticking S \<or> e = 0"
  shows "\<exists>s'. attach i s = Some (Inr s') \<and> scheduled e s' (sched_add (i, c) S)"
proof (cases "sc_ticking S")
  case True
  note S = assms(1) [unfolded scheduled_def]
  obtain h where "DList_put (Suc 0) i (tm_items s) = Inr h" "represents h (queues (sc_due S) (sc_waiting S @ [(i, c)]))"
    using put_refines [OF S [THEN conjunct1], of i 1] assms(2) queues_simps(4) [of _ _ "sc_waiting S @ [(i, c)]"] by auto
  then show ?thesis
    using S True assms(3) by (simp add: attach_def scheduled_def sched_add_def with_items_def)
next
  case False
  then show ?thesis
    using add_refines [of s S i c] assms by (simp add: attach_def sched_add_def scheduled_def)
qed

lemma free_after_remove [simp]: "timer_free i (sched_remove i S)"
  by (auto simp: sched_remove_def)

lemma sched_ticking_simps [simp]:
  "sc_ticking (sched_remove i S) = sc_ticking S" "sc_ticking (sched_add x S) = sc_ticking S"
  "sc_now (sched_remove i S) = sc_now S" "sc_now (sched_add x S) = sc_now S"
  "sc_mark (sched_remove i S) = sc_mark S" "sc_mark (sched_add x S) = sc_mark S"
  "sc_owned (sched_remove i S) = sc_owned S" "sc_owned (sched_add x S) = sc_owned S"
  by (simp_all add: sched_remove_def sched_add_def)

lemma timer_call_refines:
  assumes "scheduled e s S" "sc_ticking S \<or> e = 0"
  shows "refines (scheduled e) (timer_call x s) (sched_call x S)"
proof (cases x)
  case (Start i d t)
  let ?s = "snd (detach i s)"
  note det = detach_refines [OF assms(1), of i]
  have "\<exists>s'. attach i (?s\<lparr>m_count := (m_count ?s)(i := msecToCounts d t ?s)\<rparr>) = Some (Inr s') \<and>
      scheduled e s' (sched_add (i, unat (d + (t - sc_now S))) (sched_remove i S))"
    using det assms(2) by (intro attach_refines scheduled_count) (simp_all add: msecToCounts_def deltaMilliseconds_def scheduled_def)
  moreover have "m_timingSource s i = sc_owned S i"
    using assms(1) by (simp add: scheduled_def)
  ultimately show ?thesis
    using Start by (auto simp: Timer_start_def Let_def)
next
  case (Stop i)
  then show ?thesis
    using detach_refines [OF assms(1)] assms(1) by (auto simp: Timer_stop_def scheduled_def)
next
  case (SetTimingSource i)
  then show ?thesis
    using assms(1) by (simp add: setTimingSource_def scheduled_def)
qed

lemma sched_call_keeps:
  "sched_call x S = Inr S' \<Longrightarrow> sc_ticking S' = sc_ticking S \<and> sc_mark S' = sc_mark S \<and> sc_now S' = sc_now S \<and>
     (sc_ticking S \<longrightarrow> set (sc_due S') \<subseteq> set (sc_due S) \<and> length (sc_due S') \<le> length (sc_due S))"
  by (cases x) (auto simp: sched_remove_def sched_add_def split: if_splits)

lemma sched_calls_keep:
  "sched_calls xs S = Inr S' \<Longrightarrow> sc_ticking S' = sc_ticking S \<and> sc_mark S' = sc_mark S \<and> sc_now S' = sc_now S \<and>
     (sc_ticking S \<longrightarrow> set (sc_due S') \<subseteq> set (sc_due S) \<and> length (sc_due S') \<le> length (sc_due S))"
proof (induction xs arbitrary: S)
  case (Cons x xs)
  then obtain S1 where "sched_call x S = Inr S1" "sched_calls xs S1 = Inr S'"
    by auto
  then show ?case
    using sched_call_keeps Cons.IH by fastforce
qed simp

lemma timer_calls_refines:
  "scheduled e s S \<Longrightarrow> sc_ticking S \<or> e = 0 \<Longrightarrow> refines (scheduled e) (timer_calls xs s) (sched_calls xs S)"
proof (induction xs arbitrary: s S)
  case (Cons x xs)
  have "refines (\<lambda>s S'. scheduled e s S' \<and> sc_ticking S' = sc_ticking S) (timer_call x s) (sched_call x S)"
    using timer_call_refines [OF Cons.prems, of x] sched_call_keeps [of x S]
    by (cases "sched_call x S") (auto simp: refines_def)
  then have "refines (scheduled e) (bindOR (timer_call x s) (timer_calls xs)) (bindR (sched_call x S) (sched_calls xs))"
    by (rule refines_bind) (use Cons in auto)
  then show ?case
    by simp
qed simp

subsection \<open>A pass refines the schedule\<close>

lemma expiration_keeps:
  assumes "sched_calls calls (S\<lparr>sc_due := xs, sc_client := c\<rparr>) = Inr S'" "sc_ticking S"
  shows "sc_ticking S'" "length (sc_due S') \<le> length xs" "set (sc_due S') \<subseteq> set xs"
  using sched_calls_keep [OF assms(1)] assms(2) by simp_all

lemma sched_expire_fuel:
  "sc_ticking S \<Longrightarrow> length (sc_due S) \<le> n \<Longrightarrow> sched_expire cb n m S = sched_expire cb (length (sc_due S)) m S"
proof (induction n arbitrary: S rule: less_induct)
  case (less n)
  show ?case
  proof (cases "sc_due S")
    case (Cons x xs)
    obtain i r where x: "x = (i, r)"
      by fastforce
    obtain calls c where cb: "(calls, c) = cb i (sc_client S)"
      by (metis surj_pair)
    obtain k where k: "n = Suc k" "length xs \<le> k"
      using less.prems(2) Cons by (cases n) auto
    have "sched_expire cb k m S' = sched_expire cb (length xs) m S'"
      if "sched_calls calls (S\<lparr>sc_due := xs, sc_client := c\<rparr>) = Inr S'" for S'
    proof -
      note keep = expiration_keeps [OF that less.prems(1)]
      have "sched_expire cb k m S' = sched_expire cb (length (sc_due S')) m S'"
        using keep(1,2) k by (intro less.IH) auto
      also have "\<dots> = sched_expire cb (length xs) m S'"
        using keep(1,2) k by (intro less.IH [symmetric]) auto
      finally show ?thesis .
    qed
    then show ?thesis
      using Cons x k cb [symmetric] by (simp cong: bindR_cong)
  qed (cases n; simp)
qed

lemma sched_expire_split:
  "sc_ticking S \<Longrightarrow> length (sc_due S) \<le> n \<Longrightarrow> e \<le> m \<Longrightarrow>
   sched_expire cb n m S = bindR (sched_expire cb n e S) (\<lambda>S. sched_expire cb (length (sc_due S)) m S)"
proof (induction n arbitrary: S)
  case (Suc n)
  show ?case
  proof (cases "sc_due S")
    case (Cons x xs)
    obtain i r where x: "x = (i, r)"
      by fastforce
    obtain calls c where cb: "(calls, c) = cb i (sc_client S)"
      by (metis surj_pair)
    have "sched_expire cb n m S' = bindR (sched_expire cb n e S') (\<lambda>S. sched_expire cb (length (sc_due S)) m S)"
      if "sched_calls calls (S\<lparr>sc_due := xs, sc_client := c\<rparr>) = Inr S'" for S'
      using expiration_keeps [OF that Suc.prems(1)] Suc.prems Cons by (intro Suc.IH) auto
    moreover have "sched_expire cb (Suc n) m S = sched_expire cb (length (sc_due S)) m S"
      by (rule sched_expire_fuel [OF Suc.prems(1,2)])
    ultimately show ?thesis
      using Cons x cb [symmetric] Suc.prems(3)
      by (cases "r \<le> e") (simp_all add: bindR_assoc cong: bindR_cong)
  qed simp
qed simp

lemma scheduled_pop:
  assumes "scheduled e s S" "sc_due S = (p, e) # xs"
  shows "scheduled e (s\<lparr>tm_items := snd (DList_get 0 (tm_items s)), tm_client := c\<rparr>) (S\<lparr>sc_due := xs, sc_client := c\<rparr>)"
proof -
  note S = assms(1) [unfolded scheduled_def]
  have "represents (snd (DList_get 0 (tm_items s))) (queues xs (sc_waiting S))"
    using get_refines(1) [OF S [THEN conjunct1], of 0] assms(2) by (auto simp: map_tl [symmetric] simp del: map_tl)
  then show ?thesis
    using S assms(2) by (simp add: scheduled_def)
qed

lemma scheduled_first: "scheduled e s S \<Longrightarrow> DList_first 0 (tm_items s) = first_of (map fst (sc_due S))"
  using represents_first [of "tm_items s" "queues (sc_due S) (sc_waiting S)" 0] by (simp add: scheduled_def)

lemma encodes_later: "encodes e cnt xs \<Longrightarrow> x \<in> set xs \<Longrightarrow> e \<le> snd x"
  by (induction e cnt xs rule: encodes.induct) fastforce+

text \<open>No expiration activates a timer; one that is due leaves the schedule.\<close>

definition shrinks :: "nat \<Rightarrow> 'c schedule \<Rightarrow> 'c schedule \<Rightarrow> bool" where
  "shrinks e S S' \<longleftrightarrow> length (sc_due S') \<le> length (sc_due S) \<and>
     (\<forall>x xs. sc_due S = x # xs \<longrightarrow> snd x \<le> e \<longrightarrow> length (sc_due S') \<le> length xs)"

lemma expire_zero_refines:
  "scheduled e s S \<Longrightarrow> sc_ticking S \<Longrightarrow> length (sc_due S) \<le> n \<Longrightarrow>
   refines (\<lambda>s S'. scheduled e s S' \<and> sc_ticking S' \<and> shrinks e S S' \<and>
       (\<forall>x \<in> set (sc_due S'). e < snd x))
     (expire_zero cb (first_of (map fst (sc_due S))) s) (sched_expire cb n e S)"
proof (induction n arbitrary: s S)
  case 0
  then show ?case
    by (subst expire_zero.simps) (simp add: shrinks_def)
next
  case (Suc n)
  show ?case
  proof (cases "sc_due S")
    case Nil
    then show ?thesis
      using Suc.prems by (subst expire_zero.simps) (simp add: shrinks_def)
  next
    case (Cons x xs)
    obtain p r where x: "x = (p, r)"
      by fastforce
    have r: "r = e + unat (m_count s p)" "encodes r (m_count s) xs"
      using Suc.prems(1) unfolding scheduled_def Cons x encodes.simps by blast+
    show ?thesis
    proof (cases "m_count s p = 0")
      case False
      then have "e < r" "\<forall>y \<in> set xs. r \<le> snd y"
        using r(1) encodes_later [OF r(2)] by (auto simp: unat_gt_0)
      then show ?thesis
        using False Suc.prems x Cons by (subst expire_zero.simps) (auto simp: shrinks_def)
    next
      case True
      then have e: "r = e"
        using r(1) by simp
      obtain calls c where cb: "(calls, c) = cb p (sc_client S)"
        by (metis surj_pair)
      let ?s = "s\<lparr>tm_items := snd (DList_get 0 (tm_items s)), tm_client := c\<rparr>" and ?S = "S\<lparr>sc_due := xs, sc_client := c\<rparr>"
      have "refines (scheduled e) (timer_calls calls ?s) (sched_calls calls ?S)"
        using Suc.prems(1,2) Cons x e by (intro timer_calls_refines scheduled_pop) simp_all
      then have "refines (\<lambda>s S'. scheduled e s S' \<and> sc_ticking S' \<and> length (sc_due S') \<le> length xs)
          (timer_calls calls ?s) (sched_calls calls ?S)"
        using expiration_keeps [OF _ Suc.prems(2)] by (cases "sched_calls calls ?S") (auto simp: refines_def)
      then have "refines (\<lambda>s S'. scheduled e s S' \<and> sc_ticking S' \<and> shrinks e S S' \<and>
            (\<forall>x \<in> set (sc_due S'). e < snd x))
          (bindOR (timer_calls calls ?s) (\<lambda>s. expire_zero cb (DList_first 0 (tm_items s)) s))
          (bindR (sched_calls calls ?S) (sched_expire cb n e))"
      proof (rule refines_bind)
        fix s1 :: "'a timers" and S1
        assume 1: "scheduled e s1 S1 \<and> sc_ticking S1 \<and> length (sc_due S1) \<le> length xs"
        then have "DList_first 0 (tm_items s1) = first_of (map fst (sc_due S1))"
          using scheduled_first by blast
        then show "refines (\<lambda>s S'. scheduled e s S' \<and> sc_ticking S' \<and> shrinks e S S' \<and>
              (\<forall>x \<in> set (sc_due S'). e < snd x))
            (expire_zero cb (DList_first 0 (tm_items s1)) s1) (sched_expire cb n e S1)"
          using Suc.IH [of s1 S1] 1 Suc.prems(3) Cons by (auto simp: refines_def shrinks_def split: sum.splits)
      qed
      moreover have "tm_client s = sc_client S"
        using Suc.prems(1) by (simp add: scheduled_def)
      ultimately show ?thesis
        using True e Cons x cb [symmetric] by (subst expire_zero.simps) (simp add: timer_expired_def)
    qed
  qed
qed

lemma scheduled_elapse:
  assumes "scheduled e s S" "sc_due S = (p, r) # xs" "e \<le> e'" "e' \<le> r" "unat w = e' - e"
  shows "scheduled e' (decrement p w s) S"
proof -
  note S = assms(1) [unfolded scheduled_def]
  have r: "r < 2 ^ 32" "r = e + unat (m_count s p)" "encodes r (m_count s) xs"
    using S unfolding assms(2) encodes.simps by blast+
  have p: "p \<notin> fst ` set xs" "p \<notin> fst ` set (sc_waiting S)"
    using represents_distinct [OF S [THEN conjunct1], of 0] represents_disjoint [OF S [THEN conjunct1], of p 0 1]
    by (simp_all add: assms(2))
  have "encodes e' (m_count (decrement p w s)) (sc_due S)"
    using r p(1) assms(2-5) encodes_upd [OF p(1)] by (auto simp: decrement_def unat_word_sub_no_wrap simp del: fun_upd_apply simp: fun_upd_same)
  then show ?thesis
    using S p(2) by (fastforce simp: scheduled_def decrement_def)
qed

lemma tick_loop_Cons:
  assumes "scheduled e s S" "sc_due S = (p, r) # xs" "msec \<noteq> 0"
  shows "tick_loop cb msec s =
    (if msec \<le> m_count s p
     then bindOR (expire_zero cb (first_of (map fst (sc_due S))) (decrement p msec s)) (tick_loop cb 0)
     else bindOR (expire_zero cb (first_of (map fst (sc_due S))) (decrement p (m_count s p) s)) (tick_loop cb (msec - m_count s p)))"
  using scheduled_first [OF assms(1)] assms(2,3) by (subst tick_loop.simps) (simp add: Let_def)

lemma tick_loop_refines:
  assumes "scheduled e s S" "sc_ticking S" "unat msec = m - e" "e < m"
  shows "refines (\<lambda>s S'. scheduled m s S' \<and> sc_ticking S' \<and> (\<forall>x \<in> set (sc_due S'). m < snd x))
     (tick_loop cb msec s) (sched_expire cb (length (sc_due S)) m S)"
  using assms
proof (induction "length (sc_due S)" arbitrary: s S e msec rule: less_induct)
  case less
  let ?R = "\<lambda>s S'. scheduled m s S' \<and> sc_ticking S' \<and> (\<forall>x \<in> set (sc_due S'). m < snd x)"
  have msec: "msec \<noteq> 0"
    using less.prems(3,4) by auto
  show ?case
  proof (cases "sc_due S")
    case Nil
    then show ?thesis
      using less.prems(1,2) msec scheduled_first [OF less.prems(1)] by (subst tick_loop.simps) (simp add: scheduled_def)
  next
    case (Cons x xs)
    obtain p r where x: "x = (p, r)"
      by fastforce
    have r: "r < 2 ^ 32" "r = e + unat (m_count s p)"
      using less.prems(1) unfolding scheduled_def Cons x encodes.simps by blast+
    show ?thesis
    proof (cases "msec \<le> m_count s p")
      case True
      then have "m \<le> r"
        using r less.prems(3,4) by (simp add: word_le_nat_alt)
      then have "scheduled m (decrement p msec s) S"
        using less.prems Cons x by (intro scheduled_elapse) auto
      then have "refines (\<lambda>s S'. scheduled m s S' \<and> sc_ticking S' \<and> shrinks m S S' \<and>
            (\<forall>x \<in> set (sc_due S'). m < snd x))
          (expire_zero cb (first_of (map fst (sc_due S))) (decrement p msec s)) (sched_expire cb (length (sc_due S)) m S)"
        using less.prems(2) by (intro expire_zero_refines) simp_all
      then have "refines ?R (bindOR (expire_zero cb (first_of (map fst (sc_due S))) (decrement p msec s)) (tick_loop cb 0))
          (bindR (sched_expire cb (length (sc_due S)) m S) Inr)"
        by (rule refines_bind) (subst tick_loop.simps, simp)
      moreover have "tick_loop cb msec s = bindOR (expire_zero cb (first_of (map fst (sc_due S))) (decrement p msec s)) (tick_loop cb 0)"
        using tick_loop_Cons [OF less.prems(1) _ msec] Cons x True by simp
      ultimately show ?thesis
        by (simp only: bindR_Inr)
    next
      case False
      then have rm: "r < m" "unat (msec - m_count s p) = m - r"
        using r less.prems(3,4) by (simp_all add: word_le_nat_alt unat_word_sub_no_wrap)
      have "scheduled r (decrement p (m_count s p) s) S"
        using less.prems Cons x r rm by (intro scheduled_elapse) auto
      then have "refines (\<lambda>s S'. scheduled r s S' \<and> sc_ticking S' \<and> shrinks r S S' \<and>
            (\<forall>x \<in> set (sc_due S'). r < snd x))
          (expire_zero cb (first_of (map fst (sc_due S))) (decrement p (m_count s p) s)) (sched_expire cb (length (sc_due S)) r S)"
        using less.prems(2) by (intro expire_zero_refines) simp_all
      then have "refines ?R (bindOR (expire_zero cb (first_of (map fst (sc_due S))) (decrement p (m_count s p) s))
            (tick_loop cb (msec - m_count s p)))
          (bindR (sched_expire cb (length (sc_due S)) r S) (\<lambda>S. sched_expire cb (length (sc_due S)) m S))"
      proof (rule refines_bind)
        fix s1 :: "'a timers" and S1
        assume 1: "scheduled r s1 S1 \<and> sc_ticking S1 \<and> shrinks r S S1 \<and> (\<forall>x \<in> set (sc_due S1). r < snd x)"
        then have "length (sc_due S1) < length (sc_due S)"
          using Cons x by (auto simp: shrinks_def)
        then show "refines ?R (tick_loop cb (msec - m_count s p) s1) (sched_expire cb (length (sc_due S1)) m S1)"
          using 1 rm by (intro less.hyps) simp_all
      qed
      moreover have "tick_loop cb msec s =
          bindOR (expire_zero cb (first_of (map fst (sc_due S))) (decrement p (m_count s p) s)) (tick_loop cb (msec - m_count s p))"
        using tick_loop_Cons [OF less.prems(1) _ msec] Cons x False by simp
      moreover have "sched_expire cb (length (sc_due S)) m S =
          bindR (sched_expire cb (length (sc_due S)) r S) (\<lambda>S. sched_expire cb (length (sc_due S)) m S)"
        using rm less.prems(2) by (intro sched_expire_split) simp_all
      ultimately show ?thesis
        by argo
    qed
  qed
qed

lemma encodes_shift: "encodes m cnt xs \<Longrightarrow> encodes 0 cnt (map (\<lambda>(i, r). (i, r - m)) xs)"
proof -
  have "encodes e cnt xs \<Longrightarrow> m \<le> e \<Longrightarrow> encodes (e - m) cnt (map (\<lambda>(i, r). (i, r - m)) xs)" for e
    by (induction e cnt xs rule: encodes.induct) auto
  from this [of m] show "encodes m cnt xs \<Longrightarrow> encodes 0 cnt (map (\<lambda>(i, r). (i, r - m)) xs)"
    by simp
qed

lemma map_fst_shift [simp]: "map fst (map (\<lambda>(i, r). (i, r - m)) xs) = map fst xs"
  by (induction xs) auto

lemma scheduled_shift:
  "scheduled m s S \<Longrightarrow> scheduled 0 s (S\<lparr>sc_due := map (\<lambda>(i, r). (i, r - m)) (sc_due S)\<rparr>)"
  using encodes_shift by (auto simp: scheduled_def queues_def simp del: map_map)

lemma tick_refines:
  assumes "scheduled 0 s S"
  shows "refines (\<lambda>s S'. scheduled 0 s S' \<and> sc_ticking S') (tick cb msec s) (sched_pass cb (unat msec) (S\<lparr>sc_ticking := True\<rparr>))"
proof -
  let ?s = "s\<lparr>m_inTickCall := True\<rparr>" and ?S = "S\<lparr>sc_ticking := True\<rparr>"
  have S: "scheduled 0 ?s ?S"
    using assms by (simp add: scheduled_def)
  show ?thesis
  proof (cases "msec = 0")
    case True
    then show ?thesis
      using S by (simp add: tick_def sched_pass_def tick_loop.simps)
  next
    case False
    then have pos: "0 < unat msec"
      by (simp add: unat_gt_0)
    with S have "refines (\<lambda>s S'. scheduled (unat msec) s S' \<and> sc_ticking S' \<and> (\<forall>x \<in> set (sc_due S'). unat msec < snd x))
        (tick_loop cb msec ?s) (sched_expire cb (length (sc_due ?S)) (unat msec) ?S)"
      by (intro tick_loop_refines) simp_all
    then have "refines (\<lambda>s S'. scheduled 0 s S' \<and> sc_ticking S') (bindOR (tick_loop cb msec ?s) (\<lambda>s. Some (Inr s)))
        (bindR (sched_expire cb (length (sc_due ?S)) (unat msec) ?S)
           (\<lambda>S. Inr (S\<lparr>sc_due := map (\<lambda>(i, r). (i, r - unat msec)) (sc_due S)\<rparr>)))"
      by (rule refines_bind) (simp add: scheduled_shift)
    then show ?thesis
      using pos by (simp add: tick_def sched_pass_def)
  qed
qed

lemma attach_pending_refines:
  "scheduled 0 s S \<Longrightarrow> \<exists>s'. attach_pending s = Some (Inr s') \<and>
     scheduled 0 s' (S\<lparr>sc_due := fold sched_insert (sc_waiting S) (sc_due S), sc_waiting := []\<rparr>)"
proof (induction "sc_waiting S" arbitrary: s S)
  case Nil
  then have "represents (tm_items s) (queues (sc_due S) [])"
    by (simp add: scheduled_def)
  then obtain h where "DList_get (Suc 0) (tm_items s) = (None, h)" "represents h (queues (sc_due S) [])"
    using get_refines(1) [of "tm_items s" "queues (sc_due S) []" 1] queues_simps(4) [of _ _ "[]"] by auto
  then show ?case
    using Nil by (subst attach_pending.simps) (simp add: scheduled_def)
next
  case (Cons x ws)
  obtain p c where x: "x = (p, c)"
    by fastforce
  note S = Cons.prems [unfolded scheduled_def Cons.hyps(2) [symmetric] x]
  obtain h where h: "DList_get (Suc 0) (tm_items s) = (Some p, h)" "represents h (queues (sc_due S) ws)"
    using get_refines(1) [OF S [THEN conjunct1], of 1] queues_simps(4) [of _ _ ws] by auto
  let ?s = "s\<lparr>tm_items := h\<rparr>" and ?S = "S\<lparr>sc_waiting := ws\<rparr>"
  have p: "timer_free p ?S"
    using represents_disjoint [OF S [THEN conjunct1], of p 1 0] represents_distinct [OF S [THEN conjunct1], of 1] by simp
  have "scheduled 0 ?s ?S" "c = unat (m_count ?s p)"
    using S h(2) by (auto simp: scheduled_def)
  then obtain s1 where s1: "addToActiveList p ?s = Some (Inr s1)" "scheduled 0 s1 (?S\<lparr>sc_due := sched_insert (p, c) (sc_due ?S)\<rparr>)"
    using add_refines p by blast
  then show ?case
    using Cons.hyps(1) [OF _ s1(2)] Cons.hyps(2) [symmetric] h(1) x by (subst attach_pending.simps) simp
qed

lemma processTimers_refines:
  assumes "scheduled 0 s S"
  shows "refines (scheduled 0) (processTimers cb clock s) (sched_process cb clock S)"
proof -
  let ?s = "s\<lparr>m_timeNow := clock\<rparr>" and ?S = "S\<lparr>sc_now := clock\<rparr>"
  have S: "scheduled 0 ?s ?S"
    using assms by (simp add: scheduled_def)
  have "refines (scheduled 0) (bindOR (tick cb (clock - m_timeMark s) ?s) (\<lambda>s. tickComplete (s\<lparr>m_timeMark := m_timeNow s\<rparr>)))
      (bindR (sched_pass cb (unat (clock - m_timeMark s)) (?S\<lparr>sc_ticking := True\<rparr>)) (\<lambda>S.
         Inr (S\<lparr>sc_mark := sc_now S, sc_ticking := False, sc_due := fold sched_insert (sc_waiting S) (sc_due S), sc_waiting := []\<rparr>)))"
  proof (rule refines_bind [OF tick_refines [OF S]])
    fix s1 :: "'a timers" and S1
    assume "scheduled 0 s1 S1 \<and> sc_ticking S1"
    then have "scheduled 0 (s1\<lparr>m_timeMark := m_timeNow s1\<rparr>) (S1\<lparr>sc_mark := sc_now S1\<rparr>)"
      by (simp add: scheduled_def)
    from attach_pending_refines [OF this]
    show "refines (scheduled 0) (tickComplete (s1\<lparr>m_timeMark := m_timeNow s1\<rparr>))
      (Inr (S1\<lparr>sc_mark := sc_now S1, sc_ticking := False, sc_due := fold sched_insert (sc_waiting S1) (sc_due S1), sc_waiting := []\<rparr>))"
      by (auto simp: tickComplete_def scheduled_def)
  qed
  moreover have "m_timeMark s = sc_mark S"
    using assms by (simp add: scheduled_def)
  ultimately show ?thesis
    by (simp add: processTimers_def sched_process_def deltaMilliseconds_def Let_def)
qed

subsection \<open>Sequences of calls\<close>

text \<open>What the thread of an event loop does with its timers.\<close>

datatype tm_op = Client tm_call | StartManager u32 | ProcessTimers u32 | AreActiveTimers

fun tm_step :: "'c expirations \<Rightarrow> tm_op \<Rightarrow> 'c timers \<Rightarrow> (bool \<times> 'c timers) result" where
  "tm_step cb (Client x) s = bindR (returned (timer_call x s)) (\<lambda>s. Inr (True, s))"
| "tm_step cb (StartManager clock) s = Inr (True, startManager clock s)"
| "tm_step cb (ProcessTimers clock) s = bindR (returned (processTimers cb clock s)) (\<lambda>s. Inr (True, s))"
| "tm_step cb AreActiveTimers s = Inr (areActiveTimers s, s)"

fun sched_step :: "'c expirations \<Rightarrow> tm_op \<Rightarrow> 'c schedule \<Rightarrow> (bool \<times> 'c schedule) result" where
  "sched_step cb (Client x) S = bindR (sched_call x S) (\<lambda>S. Inr (True, S))"
| "sched_step cb (StartManager clock) S = Inr (True, S\<lparr>sc_mark := clock\<rparr>)"
| "sched_step cb (ProcessTimers clock) S = bindR (sched_process cb clock S) (\<lambda>S. Inr (True, S))"
| "sched_step cb AreActiveTimers S = Inr (sc_due S = [], S)"

lemma refines_returned:
  assumes "refines P m M"
  shows "M = Inl e \<Longrightarrow> returned m = Inl e" "M = Inr a \<Longrightarrow> \<exists>s. returned m = Inr s \<and> P s a"
  using assms by (auto simp: refines_def)

lemma tm_step_refines:
  assumes "scheduled 0 s S"
  shows "sched_step cb x S = Inl e \<Longrightarrow> tm_step cb x s = Inl e"
    and "sched_step cb x S = Inr (r, S') \<Longrightarrow> \<exists>s'. tm_step cb x s = Inr (r, s') \<and> scheduled 0 s' S'"
proof -
  have bind: "bindR M (\<lambda>S. Inr (True, S)) = Inl e \<longleftrightarrow> M = Inl e" for M :: "'s result"
    by (cases M) auto
  show "sched_step cb x S = Inl e \<Longrightarrow> tm_step cb x s = Inl e"
    using refines_returned(1) [OF timer_call_refines [OF assms]] refines_returned(1) [OF processTimers_refines [OF assms]]
    by (cases x) (auto simp: bind)
  show "sched_step cb x S = Inr (r, S') \<Longrightarrow> \<exists>s'. tm_step cb x s = Inr (r, s') \<and> scheduled 0 s' S'"
  proof (cases x)
    case AreActiveTimers
    then show "sched_step cb x S = Inr (r, S') \<Longrightarrow> ?thesis"
      using assms scheduled_first [OF assms] by (auto simp: areActiveTimers_def)
  next
    case (StartManager t)
    then show "sched_step cb x S = Inr (r, S') \<Longrightarrow> ?thesis"
      using assms by (auto simp: startManager_def scheduled_def)
  qed (use refines_returned(2) [OF timer_call_refines [OF assms]] refines_returned(2) [OF processTimers_refines [OF assms]] in auto)
qed

interpretation timers: refinement "scheduled 0" "\<lambda>_ _. True" "tm_step cb" "sched_step cb" for cb :: "'c expirations"
proof unfold_locales
qed (erule tm_step_refines, assumption)+

text \<open>A new manager has no timers.\<close>

definition no_timers :: "'c \<Rightarrow> 'c schedule" where
  "no_timers c = \<lparr>sc_due = [], sc_waiting = [], sc_owned = (\<lambda>_. False), sc_mark = 0, sc_now = 0, sc_ticking = False, sc_client = c\<rparr>"

lemma new_manager_scheduled: "scheduled 0 (TimerManager c) (no_timers c)"
proof -
  have "queues [] [] = (\<lambda>_. [])"
    by (auto simp: queues_def)
  then show ?thesis
    using no_items_represents by (simp add: scheduled_def TimerManager_def no_timers_def)
qed

subsection \<open>When a timer expires\<close>

text \<open>The entries of a timer.\<close>

definition entry :: "nat \<Rightarrow> (nat \<times> nat) list \<Rightarrow> (nat \<times> nat) list" where
  "entry i xs = filter (\<lambda>x. fst x = i) xs"

lemma entry_simps [simp]:
  "entry i [] = []" "entry i (x # xs) = (if fst x = i then x # entry i xs else entry i xs)"
  "entry i (xs @ ys) = entry i xs @ entry i ys"
  by (simp_all add: entry_def)

lemma entry_insert: "fst x \<noteq> i \<Longrightarrow> entry i (sched_insert x xs) = entry i xs"
  by (induction x xs rule: sched_insert.induct) auto

lemma entry_insert_same: "entry i xs = [] \<Longrightarrow> entry i (sched_insert (i, c) xs) = [(i, c)]"
  by (induction xs) (auto split: if_splits)

lemma entry_other: "j \<noteq> i \<Longrightarrow> entry i (filter (\<lambda>x. fst x \<noteq> j) xs) = entry i xs"
  by (induction xs) auto

lemma entry_same: "entry i (filter (\<lambda>x. fst x \<noteq> i) xs) = []"
  by (induction xs) auto

lemma entry_fold: "entry i ws = [] \<Longrightarrow> entry i (fold sched_insert ws xs) = entry i xs"
  by (induction ws arbitrary: xs) (auto simp: entry_insert split: if_splits)

lemma sorted_insert: "sorted (map snd xs) \<Longrightarrow> sorted (map snd (sched_insert x xs))"
proof (induction x xs rule: sched_insert.induct)
  case (2 x y ys)
  have "set (sched_insert x ys) = insert x (set ys)"
    by (induction x ys rule: sched_insert.induct) auto
  then show ?case
    using 2 by (auto split: if_splits)
qed simp

lemma sorted_fold: "sorted (map snd xs) \<Longrightarrow> sorted (map snd (fold sched_insert ws xs))"
  by (induction ws arbitrary: xs) (simp_all add: sorted_insert)

lemma unat_elapsed: "t0 \<le> t \<Longrightarrow> t - t0 < 2 ^ 32 \<Longrightarrow> unat (of_nat t - of_nat t0 :: u32) = t - t0"
  using unat_of_nat_small [where 'a = 32, of "t - t0"] by (simp add: of_nat_diff)

text \<open>
  Histories. A log has the calls, the passes and the expirations in the order in which they happen; a pass has the
  absolute time in milliseconds, of which the clock shows the low 32 bits. What the client of an expired timer does may
  depend on all that has happened before.
\<close>

datatype tm_event = Called tm_call | Passed nat | Expired nat

definition logging :: "(tm_event list \<Rightarrow> nat \<Rightarrow> tm_call list) \<Rightarrow> tm_event list expirations" where
  "logging f i log = (f log i, log @ Expired i # map Called (f log i))"

fun history_step :: "(tm_event list \<Rightarrow> nat \<Rightarrow> tm_call list) \<Rightarrow> tm_call + nat \<Rightarrow> tm_event list timers \<Rightarrow>
    (bool \<times> tm_event list timers) result" where
  "history_step f (Inl x) s =
     bindR (tm_step (logging f) (Client x) s) (\<lambda>(r, s). Inr (r, s\<lparr>tm_client := tm_client s @ [Called x]\<rparr>))"
| "history_step f (Inr t) s = tm_step (logging f) (ProcessTimers (of_nat t)) (s\<lparr>tm_client := tm_client s @ [Passed t]\<rparr>)"

fun sched_history :: "(tm_event list \<Rightarrow> nat \<Rightarrow> tm_call list) \<Rightarrow> tm_call + nat \<Rightarrow> tm_event list schedule \<Rightarrow>
    (bool \<times> tm_event list schedule) result" where
  "sched_history f (Inl x) S =
     bindR (sched_step (logging f) (Client x) S) (\<lambda>(r, S). Inr (r, S\<lparr>sc_client := sc_client S @ [Called x]\<rparr>))"
| "sched_history f (Inr t) S = sched_step (logging f) (ProcessTimers (of_nat t)) (S\<lparr>sc_client := sc_client S @ [Passed t]\<rparr>)"

lemma scheduled_log: "scheduled e s S \<Longrightarrow> scheduled e (s\<lparr>tm_client := tm_client s @ l\<rparr>) (S\<lparr>sc_client := sc_client S @ l\<rparr>)"
  by (simp add: scheduled_def)

interpretation history: refinement "scheduled 0" "\<lambda>_ _. True" "history_step f" "sched_history f" for f
proof unfold_locales
  fix s :: "tm_event list timers" and S S' x e r
  assume S: "scheduled 0 s S"
  show "sched_history f x S = Inl e \<Longrightarrow> history_step f x s = Inl e"
  proof (cases x)
    case (Inl y)
    moreover assume "sched_history f x S = Inl e"
    ultimately have "sched_step (logging f) (Client y) S = Inl e"
      by (cases "sched_step (logging f) (Client y) S") (auto simp del: sched_step.simps)
    then show ?thesis
      using tm_step_refines(1) [OF S] Inl by (simp del: sched_step.simps tm_step.simps)
  qed (use tm_step_refines(1) [OF scheduled_log [OF S]] in \<open>simp del: sched_step.simps tm_step.simps\<close>)
  show "sched_history f x S = Inr (r, S') \<Longrightarrow> \<exists>s'. history_step f x s = Inr (r, s') \<and> scheduled 0 s' S'"
  proof (cases x)
    case (Inl y)
    moreover assume "sched_history f x S = Inr (r, S')"
    ultimately obtain S1 where S1: "sched_step (logging f) (Client y) S = Inr (r, S1)" "S' = S1\<lparr>sc_client := sc_client S1 @ [Called y]\<rparr>"
      by (auto simp del: sched_step.simps)
    then obtain s1 where "tm_step (logging f) (Client y) s = Inr (r, s1)" "scheduled 0 s1 S1"
      using tm_step_refines(2) [OF S] by blast
    then show ?thesis
      using S1(2) Inl scheduled_log [of 0 s1 S1] by (simp del: sched_step.simps tm_step.simps)
  qed (use tm_step_refines(2) [OF scheduled_log [OF S]] in \<open>simp del: sched_step.simps tm_step.simps\<close>)
qed

text \<open>
  What a log says of a timer: the time of the manager, what \<open>m_timeNow\<close> has, and, while the timer is running, the
  time at which it is due with the times of the passes since its start in which the clock has advanced.
\<close>

type_synonym tm_account = "nat \<times> u32 \<times> (nat \<times> nat list) option"

fun account :: "nat \<Rightarrow> tm_event \<Rightarrow> tm_account \<Rightarrow> tm_account" where
  "account i (Passed t) (b, now, D) =
     (let m = unat (of_nat t - of_nat b :: u32)
      in (b + m, of_nat t, if m = 0 then D else map_option (\<lambda>(x, ps). (x, ps @ [b + m])) D))"
| "account i (Called (Start j d c)) (b, now, D) = (b, now, if j = i then Some (b + unat (d + (c - now)), []) else D)"
| "account i (Called (Stop j)) (b, now, D) = (b, now, if j = i then None else D)"
| "account i (Called (SetTimingSource j)) a = a"
| "account i (Expired j) (b, now, D) = (b, now, if j = i then None else D)"

definition accounts :: "nat \<Rightarrow> nat \<Rightarrow> tm_event list \<Rightarrow> tm_account" where
  "accounts i u log = fold (account i) log (u, 0, None)"

lemma accounts_simps [simp]:
  "accounts i u [] = (u, 0, None)" "accounts i u (log @ [e]) = account i e (accounts i u log)"
  by (simp_all add: accounts_def)

text \<open>The schedule has what the log says, between the passes and in a pass over \<open>m\<close> milliseconds.\<close>

fun rests :: "nat \<Rightarrow> tm_account \<Rightarrow> 'c schedule \<Rightarrow> bool" where
  "rests i (b, now, D) S \<longleftrightarrow> sc_mark S = of_nat b \<and> sc_now S = now \<and> \<not> sc_ticking S \<and> sc_waiting S = [] \<and>
     sorted (map snd (sc_due S)) \<and>
     (D = None \<and> entry i (sc_due S) = [] \<or>
      (\<exists>r ps. D = Some (b + r, ps) \<and> entry i (sc_due S) = [(i, r)] \<and> (\<forall>p \<in> set ps. p < b + r)))"

fun ticks :: "nat \<Rightarrow> nat \<Rightarrow> tm_account \<Rightarrow> 'c schedule \<Rightarrow> bool" where
  "ticks i m (b, now, D) S \<longleftrightarrow> m \<le> b \<and> now = of_nat b \<and> sc_now S = now \<and> sc_ticking S \<and>
     sorted (map snd (sc_due S)) \<and>
     (D = None \<and> entry i (sc_due S) = [] \<and> entry i (sc_waiting S) = [] \<or>
      (\<exists>r ps. D = Some (b - m + r, ps @ [b]) \<and> entry i (sc_due S) = [(i, r)] \<and> entry i (sc_waiting S) = [] \<and> (\<forall>p \<in> set ps. p < b - m + r)) \<or>
      (\<exists>r. D = Some (b + r, []) \<and> entry i (sc_due S) = [] \<and> entry i (sc_waiting S) = [(i, r)]))"

lemma call_rests: "rests i a S \<Longrightarrow> sched_call x S = Inr S' \<Longrightarrow> rests i (account i (Called x) a) S'"
  by (cases a; cases x)
    (auto simp: sched_add_def sched_remove_def entry_insert entry_insert_same entry_other entry_same sorted_insert sorted_filter split: if_splits)

lemma call_ticks: "ticks i m a S \<Longrightarrow> sched_call x S = Inr S' \<Longrightarrow> ticks i m (account i (Called x) a) S'"
  by (cases a; cases x)
    (auto simp: sched_add_def sched_remove_def entry_insert entry_insert_same entry_other entry_same sorted_filter split: if_splits)

lemma calls_tick: "ticks i m a S \<Longrightarrow> sched_calls xs S = Inr S' \<Longrightarrow> ticks i m (fold (account i) (map Called xs) a) S'"
proof (induction xs arbitrary: a S)
  case (Cons x xs)
  then obtain S1 where "sched_call x S = Inr S1" "sched_calls xs S1 = Inr S'"
    by auto
  then show ?case
    using Cons.IH [OF call_ticks [OF Cons.prems(1)]] by simp
qed simp

lemma sched_calls_client: "sched_calls xs S = Inr S' \<Longrightarrow> sc_client S' = sc_client S"
proof (induction xs arbitrary: S)
  case (Cons x xs)
  then show ?case
    by (cases x) (auto simp: sched_add_def sched_remove_def split: if_splits)
qed simp

text \<open>
  An expiration on time: of the passes since the start in which the clock has advanced, the one that goes on is the
  first at or after the time at which the timer is due.
\<close>

fun punctual :: "tm_account \<Rightarrow> bool" where
  "punctual (b, now, D) \<longleftrightarrow> (\<exists>x ps t. D = Some (x, ps @ [t]) \<and> x \<le> t \<and> (\<forall>p \<in> set ps. p < x))"

definition timely :: "nat \<Rightarrow> nat \<Rightarrow> tm_event list \<Rightarrow> bool" where
  "timely i u log \<longleftrightarrow> (\<forall>as bs. log = as @ Expired i # bs \<longrightarrow> punctual (accounts i u as))"

lemma timely_Nil [simp]: "timely i u []"
  by (simp add: timely_def)

lemma timely_snoc [simp]: "timely i u (log @ [e]) \<longleftrightarrow> timely i u log \<and> (e = Expired i \<longrightarrow> punctual (accounts i u log))"
proof
  assume t: "timely i u (log @ [e])"
  have "punctual (accounts i u as)" if "log = as @ Expired i # bs" for as bs
    using t that unfolding timely_def by (metis append_Cons append_assoc)
  then show "timely i u log \<and> (e = Expired i \<longrightarrow> punctual (accounts i u log))"
    using t by (auto simp: timely_def)
next
  assume t: "timely i u log \<and> (e = Expired i \<longrightarrow> punctual (accounts i u log))"
  have "punctual (accounts i u as)" if "log @ [e] = as @ Expired i # bs" for as bs
    using t that by (cases bs rule: rev_cases) (auto simp: timely_def simp flip: append_assoc append_Cons)
  then show "timely i u (log @ [e])"
    by (simp add: timely_def)
qed

lemma timely_calls: "timely i u log \<Longrightarrow> timely i u (log @ map Called xs)"
  by (induction xs rule: rev_induct) (simp_all flip: append_assoc)

lemma expiration_ticks:
  assumes "ticks i m a S" "sc_due S = (j, r) # xs" "r \<le> m"
  shows "ticks i m (account i (Expired j) a) (S\<lparr>sc_due := xs, sc_client := c\<rparr>)" "j = i \<Longrightarrow> punctual a"
proof -
  obtain b now D where a: "a = (b, now, D)"
    by (cases a)
  show "ticks i m (account i (Expired j) a) (S\<lparr>sc_due := xs, sc_client := c\<rparr>)"
    using assms by (cases "j = i") (auto simp: a)
  assume "j = i"
  then obtain ps where "D = Some (b - m + r, ps @ [b])" "\<forall>p \<in> set ps. p < b - m + r" "m \<le> b"
    using assms(1,2) by (auto simp: a)
  then show "punctual a"
    using assms(3) unfolding a punctual.simps by (intro exI [of _ "b - m + r"] exI [of _ ps] exI [of _ b]) simp
qed

lemma expire_ticks:
  "sched_expire (logging f) n m S = Inr S' \<Longrightarrow> ticks i m (accounts i u (sc_client S)) S \<Longrightarrow> timely i u (sc_client S) \<Longrightarrow>
   length (sc_due S) \<le> n \<Longrightarrow>
   ticks i m (accounts i u (sc_client S')) S' \<and> timely i u (sc_client S') \<and> (\<forall>x \<in> set (sc_due S'). m < snd x)"
proof (induction n arbitrary: S)
  case (Suc n)
  have sorted: "sorted (map snd (sc_due S))" and ticking: "sc_ticking S"
    using Suc.prems(2) by (cases "accounts i u (sc_client S)"; simp)+
  show ?case
  proof (cases "sc_due S")
    case (Cons x xs)
    obtain j r where x: "x = (j, r)"
      by fastforce
    show ?thesis
    proof (cases "r \<le> m")
      case True
      let ?calls = "f (sc_client S) j" and ?log = "sc_client S @ [Expired j]"
      let ?S = "S\<lparr>sc_due := xs, sc_client := ?log @ map Called ?calls\<rparr>"
      obtain S1 where S1: "sched_calls ?calls ?S = Inr S1" "sched_expire (logging f) n m S1 = Inr S'"
        using Suc.prems(1) Cons x True by (auto simp: logging_def [of f j "sc_client S"])
      note e = expiration_ticks [OF Suc.prems(2) Cons [unfolded x] True]
      have log: "sc_client S1 = ?log @ map Called ?calls" "length (sc_due S1) \<le> n"
        using sched_calls_client [OF S1(1)] sched_calls_keep [OF S1(1)] ticking Suc.prems(4) Cons by simp_all
      moreover have "timely i u (?log @ map Called ?calls)"
        using Suc.prems(3) e(2) by (intro timely_calls) simp
      moreover have "ticks i m (fold (account i) (map Called ?calls) (accounts i u ?log)) S1"
        using calls_tick [OF _ S1(1), of i m "accounts i u ?log"] e(1) by (simp del: ticks.simps)
      ultimately show ?thesis
        using Suc.IH [OF S1(2)] by (simp add: accounts_def del: ticks.simps)
    next
      case False
      then have "\<forall>y \<in> set (sc_due S). m < snd y"
        using sorted Cons x by auto
      then show ?thesis
        using Suc.prems False Cons x by simp
    qed
  qed (use Suc.prems in simp)
qed simp

lemma entry_fold_one: "entry i xs = [] \<Longrightarrow> entry i ws = [(i, r)] \<Longrightarrow> entry i (fold sched_insert ws xs) = [(i, r)]"
proof (induction ws arbitrary: xs)
  case (Cons w ws)
  show ?case
  proof (cases "fst w = i")
    case True
    then show ?thesis
      using Cons.prems by (simp add: entry_fold entry_insert_same)
  next
    case False
    then show ?thesis
      using Cons by (simp add: entry_insert)
  qed
qed simp

lemma pass_ticks:
  assumes "rests i a S" "unat (of_nat t - of_nat (fst a) :: u32) = m" "m \<noteq> 0"
  shows "ticks i m (account i (Passed t) a) (S\<lparr>sc_client := c, sc_now := of_nat t, sc_ticking := True\<rparr>)"
proof -
  obtain b now D where a: "a = (b, now, D)"
    by (cases a)
  have "(of_nat m :: u32) = of_nat t - of_nat b"
    using assms(2) by (auto simp: a)
  then have "of_nat t = (of_nat b + of_nat m :: u32)"
    by simp
  then show ?thesis
    using assms by (auto simp: a Let_def)
qed

lemma pass_rests:
  assumes "ticks i m a S" "\<forall>x \<in> set (sc_due S). m < snd x"
  shows "rests i a (S\<lparr>sc_mark := sc_now S, sc_ticking := False,
    sc_due := fold sched_insert (sc_waiting S) (map (\<lambda>(i, r). (i, r - m)) (sc_due S)), sc_waiting := []\<rparr>)"
proof -
  obtain b now D where a: "a = (b, now, D)"
    by (cases a)
  have shift: "entry i (map (\<lambda>(i, r). (i, r - m)) xs) = map (\<lambda>(i, r). (i, r - m)) (entry i xs)" for xs
    by (induction xs) auto
  have mono: "sorted (map snd xs) \<Longrightarrow> sorted (map snd (map (\<lambda>(i, r). (i, r - m)) xs))" for xs :: "(nat \<times> nat) list"
    by (induction xs) (auto simp: diff_le_mono)
  have "\<forall>x \<in> set (entry i (sc_due S)). m < snd x"
    using assms(2) by (auto simp: entry_def)
  then have "D = None \<and> entry i (fold sched_insert (sc_waiting S) (map (\<lambda>(i, r). (i, r - m)) (sc_due S))) = [] \<or>
      (\<exists>r ps. D = Some (b + r, ps) \<and> entry i (fold sched_insert (sc_waiting S) (map (\<lambda>(i, r). (i, r - m)) (sc_due S))) = [(i, r)] \<and>
        (\<forall>p \<in> set ps. p < b + r))"
    using assms(1) by (auto simp: a shift entry_fold entry_fold_one)
  then show ?thesis
    using assms(1) sorted_fold [OF mono, of "sc_due S"] by (simp add: a del: map_map)
qed

definition logged :: "nat \<Rightarrow> nat \<Rightarrow> tm_event list schedule \<Rightarrow> bool" where
  "logged i u S \<longleftrightarrow> rests i (accounts i u (sc_client S)) S \<and> timely i u (sc_client S)"

lemma process_logged:
  assumes "logged i u S" "sched_process (logging f) (of_nat t) (S\<lparr>sc_client := sc_client S @ [Passed t]\<rparr>) = Inr S'"
  shows "logged i u S'"
proof -
  let ?a = "accounts i u (sc_client S)" and ?log = "sc_client S @ [Passed t]"
  let ?S = "S\<lparr>sc_client := ?log, sc_now := of_nat t, sc_ticking := True\<rparr>"
  define m where "m = unat (of_nat t - of_nat (fst ?a) :: u32)"
  have S: "rests i ?a S" "timely i u ?log"
    using assms(1) by (simp_all add: logged_def)
  obtain b now D where a: "?a = (b, now, D)"
    by (cases ?a)
  have m: "unat (of_nat t - sc_mark S) = m" "m = unat (of_nat t - of_nat b :: u32)"
    using S(1) by (simp_all add: a m_def)
  show ?thesis
  proof (cases "m = 0")
    case True
    then have t: "(of_nat t :: u32) = of_nat b"
      using m(2) by (simp add: unat_eq_0)
    have "S' = ?S\<lparr>sc_mark := of_nat t, sc_ticking := False\<rparr>"
      using assms(2) S(1) m(1) True by (auto simp: a sched_process_def sched_pass_def)
    then show ?thesis
      using S t by (simp add: logged_def a)
  next
    case False
    obtain S1 where S1: "sched_expire (logging f) (length (sc_due S)) m ?S = Inr S1"
        "S' = S1\<lparr>sc_mark := sc_now S1, sc_ticking := False,
           sc_due := fold sched_insert (sc_waiting S1) (map (\<lambda>(i, r). (i, r - m)) (sc_due S1)), sc_waiting := []\<rparr>"
      using assms(2) False m(1) by (auto simp: sched_process_def sched_pass_def)
    have "ticks i m (accounts i u (sc_client ?S)) ?S"
      using pass_ticks [OF S(1), of t m ?log] False m(2) by (simp add: a del: ticks.simps account.simps)
    then have "ticks i m (accounts i u (sc_client S1)) S1 \<and> timely i u (sc_client S1) \<and> (\<forall>x \<in> set (sc_due S1). m < snd x)"
      using S(2) by (intro expire_ticks [OF S1(1)]) simp_all
    then show ?thesis
      using pass_rests [of i m "accounts i u (sc_client S1)" S1] S1(2) by (simp add: logged_def)
  qed
qed

lemma history_logged: "run_ops (sched_history f) ops S = Inr (rs, S') \<Longrightarrow> logged i u S \<Longrightarrow> logged i u S'"
proof (induction ops arbitrary: S rs)
  case (Cons x ops)
  then obtain r S1 rs1 where S1: "sched_history f x S = Inr (r, S1)" "run_ops (sched_history f) ops S1 = Inr (rs1, S')"
    by (auto simp del: sched_history.simps)
  have "logged i u S1"
  proof (cases x)
    case (Inl y)
    then obtain S2 where S2: "sched_call y S = Inr S2" "S1 = S2\<lparr>sc_client := sc_client S2 @ [Called y]\<rparr>"
      using S1(1) by auto
    then have "rests i (account i (Called y) (accounts i u (sc_client S))) S2" "sc_client S2 = sc_client S"
      using Cons.prems(2) call_rests [of i "accounts i u (sc_client S)" S y S2] sched_calls_client [of "[y]" S S2] by (simp_all add: logged_def)
    then show ?thesis
      using Cons.prems(2) S2(2) by (cases "account i (Called y) (accounts i u (sc_client S))") (simp add: logged_def)
  next
    case (Inr t)
    then show ?thesis
      using S1(1) process_logged [OF Cons.prems(2)] by auto
  qed
  then show ?case
    by (rule Cons.IH [OF S1(2)])
qed simp

lemma started_manager_scheduled: "scheduled 0 (startManager u (TimerManager c)) ((no_timers c)\<lparr>sc_mark := u\<rparr>)"
  using new_manager_scheduled [of c] by (simp add: scheduled_def startManager_def)

text \<open>The log of a run of the manager, with every timer.\<close>

lemma history_timely:
  assumes "run_ops (history_step f) ops (startManager (of_nat u) (TimerManager [])) = Inr (rs, s)"
  shows "timely i u (tm_client s)"
    and "accounts i u (tm_client s) = (b, now, Some (x, ps)) \<Longrightarrow> \<forall>p \<in> set ps. p < x"
proof -
  let ?S = "(no_timers ([] :: tm_event list))\<lparr>sc_mark := of_nat u\<rparr>"
  obtain S where S: "run_ops (sched_history f) ops ?S = Inr (rs, S)" "scheduled 0 s S"
    using history.run_exact [OF started_manager_scheduled legal_ops_True assms] by blast
  have "logged i u S"
    by (rule history_logged [OF S(1)]) (simp add: logged_def no_timers_def)
  then show "timely i u (tm_client s)" "accounts i u (tm_client s) = (b, now, Some (x, ps)) \<Longrightarrow> \<forall>p \<in> set ps. p < x"
    using S(2) by (auto simp: logged_def scheduled_def)
qed

text \<open>What a run on the schedule shows of the manager.\<close>

lemma history_runs:
  assumes "\<exists>rs S. run_ops (sched_history f) ops ((no_timers [])\<lparr>sc_mark := u\<rparr>) = Inr (rs, S) \<and> sc_client S = log"
  shows "\<exists>rs s. run_ops (history_step f) ops (startManager u (TimerManager [])) = Inr (rs, s) \<and> tm_client s = log"
proof -
  from assms obtain rs S where S: "run_ops (sched_history f) ops ((no_timers [])\<lparr>sc_mark := u\<rparr>) = Inr (rs, S)" "sc_client S = log"
    by blast
  from history.run_works [OF started_manager_scheduled legal_ops_True S(1)] S(2) show ?thesis
    by (auto simp: scheduled_def)
qed

text \<open>The events in which a timer is started, stopped or expires.\<close>

fun concerns :: "nat \<Rightarrow> tm_event \<Rightarrow> bool" where
  "concerns i (Called (Start j d c)) = (i = j)"
| "concerns i (Called (Stop j)) = (i = j)"
| "concerns i (Called (SetTimingSource j)) = False"
| "concerns i (Passed t) = False"
| "concerns i (Expired j) = (i = j)"

text \<open>
  The passes of a log after a pass at \<open>b\<close>: they are in the order of time and less than a clock period apart; the times
  of those in which the clock has advanced.
\<close>

fun steady :: "nat \<Rightarrow> tm_event list \<Rightarrow> bool" where
  "steady b [] = True"
| "steady b (Passed t # es) = (b \<le> t \<and> t - b < 2 ^ 32 \<and> steady t es)"
| "steady b (_ # es) = steady b es"

fun passes :: "nat \<Rightarrow> tm_event list \<Rightarrow> nat list" where
  "passes b [] = []"
| "passes b (Passed t # es) = (if b < t then t # passes t es else passes b es)"
| "passes b (_ # es) = passes b es"

lemma running_started:
  "accounts i u log = (b, now, Some (x, ps)) \<Longrightarrow>
   \<exists>as d c bs. log = as @ Called (Start i d c) # bs \<and> (\<forall>e \<in> set bs. \<not> concerns i e)"
proof (induction log arbitrary: b now x ps rule: rev_induct)
  case (snoc e log)
  obtain b1 now1 D1 where a: "accounts i u log = (b1, now1, D1)"
    by (cases "accounts i u log")
  show ?case
  proof (cases "\<exists>d c. e = Called (Start i d c)")
    case False
    then have "\<not> concerns i e" "D1 \<noteq> None"
      using snoc.prems a by (cases "(i, e)" rule: concerns.cases; auto simp: Let_def split: if_splits)+
    moreover from this obtain as d c bs where "log = as @ Called (Start i d c) # bs" "\<forall>e \<in> set bs. \<not> concerns i e"
      using snoc.IH a by fastforce
    ultimately show ?thesis
      by (intro exI [of _ as] exI [of _ d] exI [of _ c] exI [of _ "bs @ [e]"]) simp
  qed force
qed simp

lemma elapsed_pass: "b \<le> t \<Longrightarrow> t - b < 2 ^ 32 \<Longrightarrow> b + unat (of_nat t - of_nat b :: u32) = t"
  by (simp add: unat_elapsed)

lemma steady_append: "steady b (as @ es) \<Longrightarrow> steady (fst (fold (account i) as (b, now, D))) es"
proof (induction as arbitrary: b now D)
  case (Cons e as)
  then show ?case
    by (cases "(i, e, b, now, D)" rule: account.cases) (auto simp: Let_def elapsed_pass)
qed simp

lemma untouched_account:
  "steady b es \<Longrightarrow> \<forall>e \<in> set es. \<not> concerns i e \<Longrightarrow>
   \<exists>b' now'. fold (account i) es (b, now, Some (x, ps)) = (b', now', Some (x, ps @ passes b es))"
proof (induction es arbitrary: b now ps)
  case (Cons e es)
  show ?case
  proof (cases e)
    case (Passed t)
    then have t: "b \<le> t" "t - b < 2 ^ 32" "steady t es" "unat (of_nat t - of_nat b :: u32) = t - b"
      using Cons.prems(1) unat_elapsed by auto
    show ?thesis
      using Cons.IH [OF t(3), of "of_nat t" ps] Cons.IH [OF t(3), of "of_nat t" "ps @ [t]"] Cons.prems(2) t(1) by (auto simp: Passed Let_def t(4))
  next
    case (Called y)
    then show ?thesis
      using Cons by (cases y) auto
  qed (use Cons in auto)
qed simp

lemma no_pass_account:
  "\<forall>t. Passed t \<notin> set es \<Longrightarrow> \<exists>D'. fold (account i) es (b, now, D) = (b, now, D')"
proof (induction es arbitrary: D)
  case (Cons e es)
  then show ?case
    by (cases "(i, e, b, now, D)" rule: account.cases) auto
qed simp

text \<open>What the log says of a timer that is started at time \<open>T\<close> after a pass at \<open>t0\<close>, until it is touched or expires.\<close>

lemma started_account:
  assumes "steady u (as @ Passed t0 # bs @ Called (Start i d (of_nat T)) # cs @ rest)" "\<forall>t. Passed t \<notin> set bs"
    and "\<forall>e \<in> set cs. \<not> concerns i e" "t0 \<le> T" "T - t0 + unat d < 2 ^ 32"
  shows "\<exists>b now. accounts i u (as @ Passed t0 # bs @ Called (Start i d (of_nat T)) # cs) = (b, now, Some (T + unat d, passes t0 cs))"
proof -
  obtain b now D where a: "fold (account i) as (u, 0, None) = (b, now, D)"
    by (cases "fold (account i) as (u, 0, None)")
  have s: "steady b (Passed t0 # bs @ Called (Start i d (of_nat T)) # cs @ rest)"
    using steady_append [OF assms(1), of i 0 None] a by simp
  then obtain D1 where p: "account i (Passed t0) (b, now, D) = (t0, of_nat t0, D1)"
    by (simp add: Let_def elapsed_pass)
  obtain D2 where q: "fold (account i) bs (t0, of_nat t0, D1) = (t0, of_nat t0, D2)"
    using no_pass_account [OF assms(2)] by blast
  have "steady t0 (bs @ Called (Start i d (of_nat T)) # cs @ rest)"
    using s by simp
  from steady_append [OF this, of i "of_nat t0" D1] have "steady t0 (cs @ rest)"
    by (simp add: q)
  then have "steady t0 cs"
    by (induction t0 cs rule: steady.induct) auto
  moreover have "unat (d + (of_nat T - of_nat t0)) = unat d + (T - t0)"
    using assms(4,5) unat_elapsed [OF assms(4)] by (subst unat_word_add_no_wrap) simp_all
  then have "t0 + unat (d + (of_nat T - of_nat t0)) = T + unat d"
    using assms(4) by simp
  ultimately show ?thesis
    using untouched_account [of t0 cs i "of_nat t0" "T + unat d" "[]"] assms(3) by (auto simp: accounts_def a p q simp del: account.simps(1))
qed

subsection \<open>Properties\<close>

text \<open>
  C29. The timer manager is a schedule. Whatever the clients do when their timers expire, every sequence of
  starts, stops and passes on linked lists of relative counters has the outcome of the same sequence on a
  plain list of remaining times: the clients see the same expirations in the same order, every pass ends, and
  the only failure is the use of a timer without a timing source.
\<close>

theorem timers_refine_schedule:
  "case run_ops (sched_step cb) ops (no_timers c) of
     Inl e \<Rightarrow> run_ops (tm_step cb) ops (TimerManager c) = Inl e
   | Inr (answers, S) \<Rightarrow> \<exists>s. run_ops (tm_step cb) ops (TimerManager c) = Inr (answers, s) \<and> scheduled 0 s S"
  using timers.run_fails [OF new_manager_scheduled] timers.run_works [OF new_manager_scheduled]
  by (auto split: sum.split)

text \<open>
  C30. A timer expires when it should. Take any run of calls and passes, with any callbacks, in which the passes are in the
  order of time and less than a clock period apart, and a timer that is started at time \<open>T\<close> for \<open>d\<close> milliseconds, between
  passes or by the callback of a timer, after the first pass; \<open>t0\<close> is the last pass before the start, and the time from
  \<open>t0\<close> to the due time \<open>T + d\<close> fits the counter. If its next event is that it expires, this is in the first pass at or
  after the due time, and if it has not expired and has not been touched by the end of the run, no pass has reached the due
  time; also when the clock wraps around. Passes within the millisecond of the pass before them do not count.
\<close>

theorem timer_expires_on_time:
  assumes "run_ops (history_step f) ops (startManager (of_nat u) (TimerManager [])) = Inr (rs, s)" "steady u (tm_client s)"
    and "tm_client s = as @ Passed t0 # bs @ Called (Start i d (of_nat T)) # cs @ rest"
    and "\<forall>t. Passed t \<notin> set bs" "\<forall>e \<in> set cs. \<not> concerns i e" "t0 \<le> T" "T - t0 + unat d < 2 ^ 32"
  shows "(rest = [] \<longrightarrow> (\<forall>p \<in> set (passes t0 cs). p < T + unat d)) \<and>
    (take 1 rest = [Expired i] \<longrightarrow> (\<exists>ps t. passes t0 cs = ps @ [t] \<and> T + unat d \<le> t \<and> (\<forall>p \<in> set ps. p < T + unat d)))"
proof -
  let ?log = "as @ Passed t0 # bs @ Called (Start i d (of_nat T)) # cs"
  obtain b now where a: "accounts i u ?log = (b, now, Some (T + unat d, passes t0 cs))"
    using started_account [OF assms(2) [unfolded assms(3)] assms(4-7)] by blast
  have "\<forall>p \<in> set (passes t0 cs). p < T + unat d" if "rest = []"
    using history_timely(2) [OF assms(1), of i b now] a that by (simp add: assms(3))
  moreover have "punctual (accounts i u ?log)" if "take 1 rest = [Expired i]"
    using history_timely(1) [OF assms(1), of i] that by (cases rest) (auto simp: assms(3) timely_def)
  ultimately show ?thesis
    unfolding a by auto
qed

text \<open>
  The clock wraps around between the start of timer 1 and its expiration; its client starts timer 2, which does not expire
  in the pass before it is due, nor in the one that goes on.
\<close>

theorem timer_expires_on_time_witness:
  "\<exists>rs s. run_ops (history_step (\<lambda>_ j. if j = 1 then [Start 2 80 (of_nat 4294967315)] else []))
       [Inl (SetTimingSource 1), Inl (SetTimingSource 2), Inr 4294967200, Inl (Start 1 50 (of_nat 4294967240)), Inr 4294967260,
        Inr 4294967310, Inr 4294967390, Inr 4294967390, Inr 4294967400] (startManager (of_nat 4294967190) (TimerManager [])) = Inr (rs, s) \<and>
     tm_client s = [Called (SetTimingSource 1), Called (SetTimingSource 2), Passed 4294967200, Called (Start 1 50 (of_nat 4294967240)),
        Passed 4294967260] @ Passed 4294967310 # [Expired 1] @ Called (Start 2 80 (of_nat 4294967315)) #
        [Passed 4294967390, Passed 4294967390, Passed 4294967400] @ [Expired 2] \<and>
     (\<exists>ps t. passes 4294967310 [Passed 4294967390, Passed 4294967390, Passed 4294967400] = ps @ [t] \<and>
        4294967315 + unat (80 :: u32) \<le> t \<and> (\<forall>p \<in> set ps. p < 4294967315 + unat (80 :: u32)))"
proof -
  let ?f = "\<lambda>_ j. if j = 1 then [Start 2 80 (of_nat 4294967315)] else []"
    and ?ops = "[Inl (SetTimingSource 1), Inl (SetTimingSource 2), Inr 4294967200, Inl (Start 1 50 (of_nat 4294967240)), Inr 4294967260,
        Inr 4294967310, Inr 4294967390, Inr 4294967390, Inr 4294967400]"
    and ?as = "[Called (SetTimingSource 1), Called (SetTimingSource 2), Passed 4294967200, Called (Start 1 50 (of_nat 4294967240)), Passed 4294967260]"
    and ?cs = "[Passed 4294967390, Passed 4294967390, Passed 4294967400]"
  have "\<exists>rs S. run_ops (sched_history ?f) ?ops ((no_timers [])\<lparr>sc_mark := of_nat 4294967190\<rparr>) = Inr (rs, S) \<and>
      sc_client S = ?as @ Passed 4294967310 # [Expired 1] @ Called (Start 2 80 (of_nat 4294967315)) # ?cs @ [Expired 2]"
    by (simp add: no_timers_def sched_process_def sched_pass_def sched_add_def sched_remove_def logging_def)
  from history_runs [OF this] obtain rs s where s: "run_ops (history_step ?f) ?ops (startManager (of_nat 4294967190) (TimerManager [])) = Inr (rs, s)"
      "tm_client s = ?as @ Passed 4294967310 # [Expired 1] @ Called (Start 2 80 (of_nat 4294967315)) # ?cs @ [Expired 2]"
    by (elim exE conjE)
  have "steady 4294967190 (tm_client s)"
    unfolding s(2) by simp
  then have "take 1 [Expired 2] = [Expired 2] \<longrightarrow> (\<exists>ps t. passes 4294967310 ?cs = ps @ [t] \<and>
        4294967315 + unat (80 :: u32) \<le> t \<and> (\<forall>p \<in> set ps. p < 4294967315 + unat (80 :: u32)))"
    by (rule timer_expires_on_time [THEN conjunct2, OF s(1) _ s(2)]) simp_all
  with s show ?thesis
    by (intro exI [of _ rs] exI [of _ s] conjI) (assumption | simp del: run_ops.simps passes.simps)+
qed

text \<open>
  C31. A timer expires only while it is running: in any run of calls and passes, at any clock readings and with any
  callbacks, the last event of a timer before it expires is a start. After it is stopped, between passes or in a callback,
  also when it still waits to be attached, and after it has expired, it is silent until it is started again.
\<close>

theorem timer_stopped_stays_silent:
  assumes "run_ops (history_step f) ops (startManager u (TimerManager [])) = Inr (rs, s)"
    and "tm_client s = as @ Expired i # bs"
  shows "\<exists>xs d c ys. as = xs @ Called (Start i d c) # ys \<and> (\<forall>e \<in> set ys. \<not> concerns i e)"
proof -
  have "timely i (unat u) (tm_client s)"
    using history_timely(1) [of f ops "unat u"] assms(1) by simp
  then have "punctual (accounts i (unat u) as)"
    using assms(2) by (simp add: timely_def)
  then show ?thesis
    using running_started by (cases "accounts i (unat u) as") auto
qed

text \<open>
  The client of timer 1 stops timer 2, which is due as well, and starts and stops timer 3; timer 3 is started again after
  the pass.
\<close>

theorem timer_stopped_stays_silent_witness:
  "\<exists>rs s. run_ops (history_step (\<lambda>_ j. if j = 1 then [Stop 2, Start 3 5 110, Stop 3] else []))
       [Inl (SetTimingSource 1), Inl (SetTimingSource 2), Inl (SetTimingSource 3), Inr 10, Inl (Start 1 20 10), Inl (Start 2 30 10),
        Inr 110, Inr 150, Inl (Start 3 5 150), Inr 200] (startManager 0 (TimerManager [])) = Inr (rs, s) \<and>
     tm_client s = [Called (SetTimingSource 1), Called (SetTimingSource 2), Called (SetTimingSource 3), Passed 10, Called (Start 1 20 10),
        Called (Start 2 30 10), Passed 110, Expired 1, Called (Stop 2), Called (Start 3 5 110), Called (Stop 3), Passed 150,
        Called (Start 3 5 150), Passed 200] @ Expired 3 # [] \<and>
     (\<exists>xs d c ys. [Called (SetTimingSource 1), Called (SetTimingSource 2), Called (SetTimingSource 3), Passed 10, Called (Start 1 20 10),
        Called (Start 2 30 10), Passed 110, Expired 1, Called (Stop 2), Called (Start 3 5 110), Called (Stop 3), Passed 150,
        Called (Start 3 5 150), Passed 200] = xs @ Called (Start 3 d c) # ys \<and> (\<forall>e \<in> set ys. \<not> concerns 3 e))"
proof -
  let ?f = "\<lambda>_ j. if j = 1 then [Stop 2, Start 3 5 110, Stop 3] else []"
    and ?ops = "[Inl (SetTimingSource 1), Inl (SetTimingSource 2), Inl (SetTimingSource 3), Inr 10, Inl (Start 1 20 10), Inl (Start 2 30 10),
        Inr 110, Inr 150, Inl (Start 3 5 150), Inr 200]"
    and ?as = "[Called (SetTimingSource 1), Called (SetTimingSource 2), Called (SetTimingSource 3), Passed 10, Called (Start 1 20 10),
        Called (Start 2 30 10), Passed 110, Expired 1, Called (Stop 2), Called (Start 3 5 110), Called (Stop 3), Passed 150,
        Called (Start 3 5 150), Passed 200]"
  have "\<exists>rs S. run_ops (sched_history ?f) ?ops ((no_timers [])\<lparr>sc_mark := 0\<rparr>) = Inr (rs, S) \<and> sc_client S = ?as @ Expired 3 # []"
    by (simp add: no_timers_def sched_process_def sched_pass_def sched_add_def sched_remove_def logging_def)
  from history_runs [OF this] obtain rs s where s: "run_ops (history_step ?f) ?ops (startManager 0 (TimerManager [])) = Inr (rs, s)"
      "tm_client s = ?as @ Expired 3 # []"
    by (elim exE conjE)
  from timer_stopped_stays_silent [OF s] s show ?thesis
    by blast
qed

text \<open>
  Before the first pass the manager has not read the clock, and counts the time since the start of the
  system to a timer that is started then. Started at time \<open>u\<close>, when the manager starts, it expires at \<open>2 * u + d\<close>
  instead of \<open>u + d\<close>.
\<close>

lemma timer_before_first_pass_late:
  assumes "u < p" "p < 2 ^ 32" "u + d < 2 ^ 32"
  shows "\<exists>rs s. run_ops (history_step (\<lambda>_ _. [])) [Inl (SetTimingSource i), Inl (Start i (of_nat d) (of_nat u)), Inr p]
      (startManager (of_nat u) (TimerManager [])) = Inr (rs, s) \<and>
    tm_client s = [Called (SetTimingSource i), Called (Start i (of_nat d) (of_nat u)), Passed p] @ (if 2 * u + d \<le> p then [Expired i] else [])"
proof -
  have "unat (of_nat p - of_nat u :: u32) = p - u"
    using assms(1,2) by (intro unat_elapsed) simp_all
  moreover have "unat (of_nat d + of_nat u :: u32) = d + u"
    using assms(3) unat_of_nat_small [where 'a = 32, of "d + u"] by simp
  ultimately show ?thesis
    using assms(1) by (intro history_runs)
      (auto simp: no_timers_def sched_process_def sched_pass_def sched_add_def sched_remove_def logging_def)
qed

lemma timer_before_first_pass_late_witness:
  "\<exists>rs s. run_ops (history_step (\<lambda>_ _. [])) [Inl (SetTimingSource 7), Inl (Start 7 (of_nat 10) (of_nat 60000)), Inr 120000]
      (startManager (of_nat 60000) (TimerManager [])) = Inr (rs, s) \<and>
    tm_client s = [Called (SetTimingSource 7), Called (Start 7 (of_nat 10) (of_nat 60000)), Passed 120000]"
  using timer_before_first_pass_late [of 60000 120000 10 7] by (simp del: run_ops.simps)

end
