(* ===== verification/Text_String.thy ===== *)
theory Text_String
  imports Prelude
begin

text \<open>
  Fixed size strings (src/src/Cpl/Text/String_.cpp and FString_.cpp). A string is a block of characters with
  room for the maximum length and the terminating NUL; operations that do not fit are truncated and set a
  flag. The model works on the memory block, with the C library functions the code calls, so that a write
  or a search outside of the block is a failure. Formatted text is an argument of the operations that print.
\<close>

abbreviation NUL :: char where "NUL \<equiv> CHR 0x00"

record fstring =
  m_strPtr :: "char list"
  m_internalMaxlen :: nat
  m_truncated :: bool

subsection \<open>C library functions on a block of memory\<close>

definition strlen :: "char list \<Rightarrow> nat result" where
  "strlen mem = (if NUL \<in> set mem then Inr (length (takeWhile (\<lambda>c. c \<noteq> NUL) mem)) else Inl OutOfBounds)"

definition write_block :: "nat \<Rightarrow> char list \<Rightarrow> char list \<Rightarrow> char list result" where
  "write_block at cs mem =
     (if at + length cs \<le> length mem then Inr (take at mem @ cs @ drop (at + length cs) mem) else Inl OutOfBounds)"

text \<open>The characters of \<open>src\<close> up to its NUL, but at most \<open>n\<close>.\<close>

definition prefix_of :: "char list \<Rightarrow> nat \<Rightarrow> char list result" where
  "prefix_of src n =
     (if n \<le> length src \<or> NUL \<in> set src then Inr (takeWhile (\<lambda>c. c \<noteq> NUL) (take n src)) else Inl OutOfBounds)"

definition strncpy :: "char list \<Rightarrow> nat \<Rightarrow> char list \<Rightarrow> char list result" where
  "strncpy src n mem =
     bindR (prefix_of src n) (\<lambda>cs. write_block 0 (cs @ replicate (n - length cs) NUL) mem)"

definition strncat :: "char list \<Rightarrow> nat \<Rightarrow> char list \<Rightarrow> char list result" where
  "strncat src n mem = bindR (strlen mem) (\<lambda>len. bindR (prefix_of src n) (\<lambda>cs. write_block len (cs @ [NUL]) mem))"

definition memmove_within :: "nat \<Rightarrow> nat \<Rightarrow> nat \<Rightarrow> char list \<Rightarrow> char list result" where
  "memmove_within dst src n mem =
     (if src + n \<le> length mem then write_block dst (take n (drop src mem)) mem else Inl OutOfBounds)"

definition vsnprintf :: "nat \<Rightarrow> nat \<Rightarrow> string \<Rightarrow> char list \<Rightarrow> char list result" where
  "vsnprintf at len text mem = write_block at (take (len - 1) text @ [NUL]) mem"

definition on_mem :: "(char list \<Rightarrow> char list result) \<Rightarrow> fstring \<Rightarrow> fstring result" where
  "on_mem f s = bindR (f (m_strPtr s)) (\<lambda>mem. Inr (s\<lparr>m_strPtr := mem\<rparr>))"

definition put_char :: "nat \<Rightarrow> char \<Rightarrow> fstring \<Rightarrow> fstring result" where
  "put_char i c = on_mem (write_block i [c])"

subsection \<open>FString_\<close>

definition FString :: "string option \<Rightarrow> char list option \<Rightarrow> fstring result" where
  "FString text internalString =
     (case internalString of
        None \<Rightarrow> Inr \<lparr>m_strPtr = [NUL], m_internalMaxlen = 0, m_truncated = True\<rparr>
      | Some mem \<Rightarrow>
          let s = \<lparr>m_strPtr = mem, m_internalMaxlen = length mem - 1, m_truncated = False\<rparr>
          in case text of
               None \<Rightarrow> put_char 0 NUL s
             | Some cs \<Rightarrow>
                 bindR (on_mem (strncpy (cs @ [NUL]) (m_internalMaxlen s)) (s\<lparr>m_truncated := \<not> length cs \<le> m_internalMaxlen s\<rparr>))
                   (put_char (m_internalMaxlen s) NUL))"

definition copyIn :: "char list option \<Rightarrow> int \<Rightarrow> fstring \<Rightarrow> fstring result" where
  "copyIn src len s =
     (case src of
        None \<Rightarrow> put_char 0 NUL (s\<lparr>m_truncated := True\<rparr>)
      | Some cs \<Rightarrow>
          let s = s\<lparr>m_truncated := \<not> len \<le> int (m_internalMaxlen s)\<rparr>;
              len = min (int (m_internalMaxlen s)) len
          in bindR (guardR OutOfBounds (0 \<le> len)) (\<lambda>_.
             bindR (on_mem (strncpy cs (nat len)) s) (put_char (nat len) NUL)))"

definition appendTo :: "char list option \<Rightarrow> int \<Rightarrow> fstring \<Rightarrow> fstring result" where
  "appendTo src len s =
     (case src of
        None \<Rightarrow> Inr s
      | Some cs \<Rightarrow>
          bindR (strlen (m_strPtr s)) (\<lambda>curlen.
          let avail = int (m_internalMaxlen s) - int curlen; copylen = min len avail;
              s = s\<lparr>m_truncated := (copylen \<noteq> len)\<rparr>
          in bindR (guardR OutOfBounds (0 \<le> copylen)) (\<lambda>_.
             bindR (on_mem (strncat cs (nat copylen)) s) (put_char (curlen + nat copylen) NUL))))"

definition insertAt :: "int \<Rightarrow> string \<Rightarrow> fstring \<Rightarrow> fstring result" where
  "insertAt insertOffset text s =
     (let insertOffset = (if insertOffset < 0 then 0 else insertOffset) in
      bindR (strlen (m_strPtr s)) (\<lambda>curlen.
      let insertlen = length text
      in if int curlen \<le> insertOffset then appendTo (Some (text @ [NUL])) (int insertlen) s
         else
           let insertOffset = nat insertOffset;
               avail = m_internalMaxlen s - insertOffset;
               copylen = min insertlen avail;
               remainderlen = avail - copylen;
               shiftlen = curlen - insertOffset;
               movelen = min shiftlen remainderlen
           in bindR (if 0 < movelen
                     then bindR (on_mem (memmove_within (insertOffset + copylen) insertOffset movelen) s)
                            (put_char (insertOffset + copylen + movelen) NUL)
                     else Inr s) (\<lambda>s.
              bindR (on_mem (write_block insertOffset (take copylen text)) s) (\<lambda>s.
              put_char (m_internalMaxlen s) NUL
                (s\<lparr>m_truncated := (movelen \<noteq> shiftlen \<or> copylen \<noteq> insertlen)\<rparr>)))))"

subsection \<open>String_\<close>

definition clear :: "fstring \<Rightarrow> fstring result" where
  "clear s = bindR (put_char 0 NUL s) (\<lambda>s. Inr (s\<lparr>m_truncated := False\<rparr>))"

definition length_of :: "fstring \<Rightarrow> nat result" where
  "length_of s = strlen (m_strPtr s)"

definition isEmpty_of :: "fstring \<Rightarrow> bool" where
  "isEmpty_of s \<longleftrightarrow> take 1 (m_strPtr s) = [NUL]"

text \<open>A negative length is how \<open>vsnprintf\<close> reports an error.\<close>

definition validateSizeAfterFormat :: "nat \<Rightarrow> int \<Rightarrow> nat \<Rightarrow> fstring \<Rightarrow> fstring result" where
  "validateSizeAfterFormat availableLen formattedLen maxlen s =
     (if formattedLen \<le> int availableLen \<and> 0 \<le> formattedLen then Inr (s\<lparr>m_truncated := False\<rparr>)
      else put_char maxlen NUL (s\<lparr>m_truncated := True\<rparr>))"

definition vformat :: "string \<Rightarrow> fstring \<Rightarrow> fstring result" where
  "vformat text s =
     bindR (on_mem (vsnprintf 0 (m_internalMaxlen s + 1) text) s) (\<lambda>s.
     validateSizeAfterFormat (m_internalMaxlen s) (int (length text)) (m_internalMaxlen s) s)"

definition vformatAppend :: "string \<Rightarrow> fstring \<Rightarrow> fstring result" where
  "vformatAppend text s =
     bindR (strlen (m_strPtr s)) (\<lambda>len.
     let avail = m_internalMaxlen s - len
     in bindR (on_mem (vsnprintf len (avail + 1) text) s) (validateSizeAfterFormat avail (int (length text)) (m_internalMaxlen s)))"

definition formatOpt :: "bool \<Rightarrow> string \<Rightarrow> fstring \<Rightarrow> fstring result" where
  "formatOpt appendFlag text s = (if appendFlag then vformatAppend text s else vformat text s)"

definition trimRight :: "int \<Rightarrow> fstring \<Rightarrow> fstring result" where
  "trimRight n s =
     (let s = s\<lparr>m_truncated := False\<rparr> in
      bindR (strlen (m_strPtr s)) (\<lambda>len.
      let index = int len - n
      in if index < 0 \<or> n < 0 then Inr s else put_char (nat index) NUL s))"

definition cut :: "int \<Rightarrow> int \<Rightarrow> fstring \<Rightarrow> fstring result" where
  "cut startpos endpos s =
     (let s = s\<lparr>m_truncated := False\<rparr> in
      bindR (strlen (m_strPtr s)) (\<lambda>len.
      if startpos < 0 \<or> endpos < startpos \<or> int len \<le> startpos \<or> int len \<le> endpos then Inr s
      else if int len \<le> endpos + 1 then trimRight (int len - startpos) s
      else let movelen = len - nat (endpos + 1)
           in bindR (on_mem (memmove_within (nat startpos) (nat (endpos + 1)) movelen) s)
                (put_char (nat startpos + movelen) NUL)))"

definition setChar :: "int \<Rightarrow> char \<Rightarrow> fstring \<Rightarrow> fstring result" where
  "setChar atPosition newchar s =
     (let s = s\<lparr>m_truncated := False\<rparr> in
      bindR (strlen (m_strPtr s)) (\<lambda>len.
      if atPosition < 0 \<or> int len \<le> atPosition then Inr s else put_char (nat atPosition) newchar s))"

text \<open>The loops of \<open>replace\<close> and \<open>count\<close> run to the NUL of the string.\<close>

fun replace_loop :: "char \<Rightarrow> char \<Rightarrow> char list \<Rightarrow> (nat \<times> char list) result" where
  "replace_loop targetChar newChar [] = Inl OutOfBounds"
| "replace_loop targetChar newChar (c # mem) =
     (if c = NUL then Inr (0, c # mem)
      else bindR (replace_loop targetChar newChar mem) (\<lambda>(n, mem).
           Inr (if c = targetChar then (Suc n, newChar # mem) else (n, c # mem))))"

definition replace :: "char \<Rightarrow> char \<Rightarrow> fstring \<Rightarrow> (nat \<times> fstring) result" where
  "replace targetChar newChar s =
     (if targetChar = newChar then Inr (0, s\<lparr>m_truncated := False\<rparr>)
      else bindR (replace_loop targetChar newChar (m_strPtr s)) (\<lambda>(n, mem).
           Inr (n, s\<lparr>m_strPtr := mem, m_truncated := False\<rparr>)))"

text \<open>\<open>strchr\<close> finds the position of a character in a string; the terminating NUL belongs to the string.\<close>

fun strchr :: "char \<Rightarrow> char list \<Rightarrow> nat option result" where
  "strchr c [] = Inl OutOfBounds"
| "strchr c (d # mem) =
     (if d = c then Inr (Some 0) else if d = NUL then Inr None
      else bindR (strchr c mem) (\<lambda>p. Inr (map_option Suc p)))"

function count_loop :: "char \<Rightarrow> char list \<Rightarrow> nat result" where
  "count_loop c mem =
     (case strchr c mem of
        Inl e \<Rightarrow> Inl e
      | Inr None \<Rightarrow> Inr 0
      | Inr (Some p) \<Rightarrow> bindR (count_loop c (drop (Suc p) mem)) (\<lambda>n. Inr (Suc n)))"
  by pat_completeness auto
termination count_loop
proof (relation "measure (\<lambda>(c, mem). length mem)")
  fix c mem x2 x2a
  assume "strchr c mem = Inr x2" "x2 = Some x2a"
  then have "mem \<noteq> []"
    by auto
  then show "((c, drop (Suc x2a) mem), c, mem) \<in> measure (\<lambda>(c, mem). length mem)"
    by simp
qed simp

definition count_of :: "char \<Rightarrow> fstring \<Rightarrow> nat result" where
  "count_of c s = count_loop c (m_strPtr s)"

definition indexOf :: "char \<Rightarrow> int \<Rightarrow> fstring \<Rightarrow> int result" where
  "indexOf c startpos s =
     bindR (strlen (m_strPtr s)) (\<lambda>len.
     if startpos < 0 \<or> int len \<le> startpos then Inr (- 1)
     else bindR (strchr c (drop (nat startpos) (m_strPtr s))) (\<lambda>p.
          Inr (case p of Some n \<Rightarrow> startpos + int n | None \<Rightarrow> - 1)))"

definition startsWith :: "string option \<Rightarrow> int \<Rightarrow> fstring \<Rightarrow> bool result" where
  "startsWith text startOffset s =
     (case text of
        None \<Rightarrow> Inr False
      | Some cs \<Rightarrow>
          bindR (strlen (m_strPtr s)) (\<lambda>len.
          if startOffset < 0 \<or> startOffset + int (length cs) > int len \<or> cs = [] then Inr False
          else Inr (take (length cs) (drop (nat startOffset) (m_strPtr s)) = cs)))"

definition endsWith :: "string option \<Rightarrow> fstring \<Rightarrow> bool result" where
  "endsWith text s =
     (case text of
        None \<Rightarrow> Inr False
      | Some cs \<Rightarrow>
          bindR (strlen (m_strPtr s)) (\<lambda>len.
          if length cs > len \<or> cs = [] then Inr False
          else Inr (take (length cs) (drop (len - length cs) (m_strPtr s)) = cs)))"

subsection \<open>The memory holds a text\<close>

definition holds_text :: "nat \<Rightarrow> string \<Rightarrow> char list \<Rightarrow> bool" where
  "holds_text n t mem \<longleftrightarrow> (\<exists>rest. mem = t @ NUL # rest) \<and> NUL \<notin> set t \<and> length mem = Suc n"

lemma holds_text_le: "holds_text n t mem \<Longrightarrow> length t \<le> n"
  by (auto simp: holds_text_def)

lemma takeWhile_until [simp]: "c \<notin> set t \<Longrightarrow> takeWhile (\<lambda>x. x \<noteq> c) (t @ c # rest) = t"
  by (induction t) auto

lemma strlen_text [simp]: "holds_text n t mem \<Longrightarrow> strlen mem = Inr (length t)"
  by (auto simp: holds_text_def strlen_def)

lemma write_write: "bindR (write_block at xs mem) (write_block (at + length xs) ys) = write_block at (xs @ ys) mem"
  by (auto simp: write_block_def ac_simps)

lemma write_before: "bindR (write_block (at + length xs) ys mem) (write_block at xs) = write_block at (xs @ ys) mem"
  by (auto simp: write_block_def ac_simps)

lemma bindR_on_mem: "bindR (on_mem f s) (on_mem g) = on_mem (\<lambda>mem. bindR (f mem) g) s"
  by (cases "f (m_strPtr s)") (simp_all add: on_mem_def del: bindR_eq_Inr)

text \<open>Writing characters and a NUL inside of the text, or a NUL after it.\<close>

lemma write_text:
  assumes "holds_text n t mem" "k \<le> length t" "k + length cs + length junk \<le> n" "NUL \<notin> set cs"
  shows "\<exists>mem'. write_block k (cs @ NUL # junk) mem = Inr mem' \<and> holds_text n (take k t @ cs) mem'"
proof -
  obtain rest where mem: "mem = t @ NUL # rest" "NUL \<notin> set t" "length mem = Suc n"
    using assms(1) by (auto simp: holds_text_def)
  have "write_block k (cs @ NUL # junk) mem = Inr (take k t @ cs @ NUL # junk @ drop (k + Suc (length cs + length junk)) mem)"
    using assms(2,3) mem by (simp add: write_block_def)
  moreover have "holds_text n (take k t @ cs) (take k t @ cs @ NUL # junk @ drop (k + Suc (length cs + length junk)) mem)"
    using assms(2-4) mem by (auto simp: holds_text_def dest: in_set_takeD)
  ultimately show ?thesis
    by blast
qed

lemma write_NUL_after:
  assumes "holds_text n t mem" "length t \<le> k" "k \<le> n"
  shows "\<exists>mem'. write_block k [NUL] mem = Inr mem' \<and> holds_text n t mem'"
proof -
  obtain rest where mem: "mem = t @ NUL # rest" "NUL \<notin> set t" "length mem = Suc n"
    using assms(1) by (auto simp: holds_text_def)
  have w: "write_block k [NUL] mem = Inr (take k mem @ NUL # drop (Suc k) mem)"
    using assms(3) mem by (simp add: write_block_def)
  have "\<exists>r. take k mem @ NUL # drop (Suc k) mem = t @ NUL # r"
    using assms(2) mem(1) by (cases "k - length t") auto
  then show ?thesis
    using w mem assms(3) by (auto simp: holds_text_def)
qed

lemma put_NUL_after:
  assumes "holds_text n t (m_strPtr s)" "length t \<le> k" "k \<le> n"
  shows "\<exists>mem. put_char k NUL s = Inr (s\<lparr>m_strPtr := mem\<rparr>) \<and> holds_text n t mem"
  using write_NUL_after [OF assms] by (auto simp: put_char_def on_mem_def)

lemma put_NUL_inside:
  assumes "holds_text n t (m_strPtr s)" "k \<le> length t"
  shows "\<exists>mem. put_char k NUL s = Inr (s\<lparr>m_strPtr := mem\<rparr>) \<and> holds_text n (take k t) mem"
  using write_text [OF assms, of "[]" "[]"] assms holds_text_le [OF assms(1)] by (auto simp: put_char_def on_mem_def)

lemma prefix_of_string: "NUL \<notin> set t \<Longrightarrow> prefix_of (t @ [NUL]) n = Inr (take n t)"
  by (cases "n \<le> length t") (auto simp: prefix_of_def takeWhile_eq_all_conv takeWhile_append dest: in_set_takeD)

subsection \<open>The specification: texts with a limit\<close>

record limited_text =
  lt_text :: string
  lt_max :: nat
  lt_truncated :: bool

definition text_rel :: "fstring \<Rightarrow> limited_text \<Rightarrow> bool" where
  "text_rel s a \<longleftrightarrow> holds_text (lt_max a) (lt_text a) (m_strPtr s) \<and> m_internalMaxlen s = lt_max a \<and> m_truncated s = lt_truncated a"

definition limit :: "string \<Rightarrow> limited_text \<Rightarrow> limited_text" where
  "limit t a = a\<lparr>lt_text := take (lt_max a) t, lt_truncated := lt_max a < length t\<rparr>"

definition retext :: "string \<Rightarrow> limited_text \<Rightarrow> limited_text" where
  "retext t a = a\<lparr>lt_text := t, lt_truncated := False\<rparr>"

lemma prefix_of_facts: "prefix_of src n = Inr p \<Longrightarrow> NUL \<notin> set p \<and> length p \<le> n"
  using length_takeWhile_le [of "\<lambda>c. c \<noteq> NUL" "take n src"]
  by (auto simp: prefix_of_def dest: set_takeWhileD split: if_splits)

lemma copyIn_refines:
  assumes "text_rel s a" "prefix_of src (min (lt_max a) len) = Inr p"
  shows "\<exists>s'. copyIn (Some src) (int len) s = Inr s' \<and> text_rel s' (a\<lparr>lt_text := p, lt_truncated := lt_max a < len\<rparr>)"
proof -
  let ?n = "lt_max a" and ?k = "min (lt_max a) len"
  have s: "holds_text ?n (lt_text a) (m_strPtr s)" "m_internalMaxlen s = ?n"
    using assms(1) by (simp_all add: text_rel_def)
  note p = prefix_of_facts [OF assms(2)]
  let ?block = "p @ replicate (?k - length p) NUL @ [NUL]"
  have "?block = p @ NUL # replicate (?k - length p) NUL"
    by (simp add: replicate_append_same)
  then obtain mem where mem: "write_block 0 ?block (m_strPtr s) = Inr mem" "holds_text ?n p mem"
    using write_text [OF s(1), of 0 p "replicate (?k - length p) NUL"] p by auto
  have "bindR (strncpy src ?k (m_strPtr s)) (write_block ?k [NUL]) = Inr mem"
    using write_write [of 0 "p @ replicate (?k - length p) NUL" "m_strPtr s" "[NUL]"] p mem(1)
    by (simp add: strncpy_def assms(2) del: bindR_eq_Inr)
  moreover have "nat (min (int ?n) (int len)) = ?k"
    by (simp add: min_def)
  ultimately have "copyIn (Some src) (int len) s = Inr (s\<lparr>m_truncated := \<not> len \<le> ?n, m_strPtr := mem\<rparr>)"
    using s(2) unfolding copyIn_def put_char_def Let_def bindR_on_mem by (simp add: on_mem_def del: bindR_eq_Inr)
  then show ?thesis
    using mem(2) s(2) by (auto simp: text_rel_def)
qed

lemma appendTo_refines:
  assumes "text_rel s a" "prefix_of src (min len (lt_max a - length (lt_text a))) = Inr p"
  shows "\<exists>s'. appendTo (Some src) (int len) s = Inr s' \<and>
    text_rel s' (a\<lparr>lt_text := lt_text a @ p, lt_truncated := lt_max a < length (lt_text a) + len\<rparr>)"
proof -
  let ?n = "lt_max a" and ?t = "lt_text a"
  let ?k = "min len (?n - length ?t)"
  have s: "holds_text ?n ?t (m_strPtr s)" "m_internalMaxlen s = ?n"
    using assms(1) by (simp_all add: text_rel_def)
  note p = prefix_of_facts [OF assms(2)] and le = holds_text_le [OF s(1)]
  obtain mem where mem: "write_block (length ?t) (p @ [NUL]) (m_strPtr s) = Inr mem" "holds_text ?n (?t @ p) mem"
    using write_text [OF s(1), of "length ?t" p "[]"] p le by fastforce
  have fits: "length ?t + ?k \<le> ?n"
    using le by arith
  obtain mem' where mem': "write_block (length ?t + ?k) [NUL] mem = Inr mem'" "holds_text ?n (?t @ p) mem'"
    using write_NUL_after [OF mem(2), of "length ?t + ?k"] p fits by auto
  have "bindR (strncat src ?k (m_strPtr s)) (write_block (length ?t + ?k) [NUL]) = Inr mem'"
    using s(1) assms(2) mem(1) mem'(1) by (simp add: strncat_def del: bindR_eq_Inr)
  moreover have "min (int len) (int ?n - int (length ?t)) = int ?k"
    using le by arith
  moreover have "int ?k = int len \<longleftrightarrow> length ?t + len \<le> ?n"
    using le by (auto simp: min_def)
  ultimately have "appendTo (Some src) (int len) s = Inr (s\<lparr>m_truncated := \<not> length ?t + len \<le> ?n, m_strPtr := mem'\<rparr>)"
    using s le unfolding appendTo_def put_char_def Let_def bindR_on_mem by (simp add: on_mem_def del: bindR_eq_Inr)
  then show ?thesis
    using mem'(2) s(2) by (auto simp: text_rel_def)
qed

text \<open>Inserting in the middle: the tail is moved first, then the new characters are copied in.\<close>

lemma insert_in_memory:
  assumes "holds_text n t mem" "k < length t" "c \<le> n - k" "c \<le> length text" "m = min (length t - k) (n - k - c)" "NUL \<notin> set text"
  shows "\<exists>mem1 mem2 mem3. (if 0 < m then bindR (memmove_within (k + c) k m mem) (write_block (k + c + m) [NUL]) else Inr mem) = Inr mem1 \<and>
    write_block k (take c text) mem1 = Inr mem2 \<and> write_block n [NUL] mem2 = Inr mem3 \<and>
    holds_text n (take k t @ take c text @ take m (drop k t)) mem3"
proof -
  note le = holds_text_le [OF assms(1)]
  let ?tail = "take m (drop k t)"
  have lens: "length (take c text) = c" "length ?tail = m" "k + c + m \<le> n"
    using assms(2-5) le by simp_all
  have "NUL \<notin> set (take c text @ ?tail)"
    using assms(1,6) by (auto simp: holds_text_def dest!: in_set_takeD in_set_dropD)
  then obtain mem' where mem': "write_block k (take c text @ ?tail @ [NUL]) mem = Inr mem'" "holds_text n (take k t @ take c text @ ?tail) mem'"
    using write_text [OF assms(1), of k "take c text @ ?tail" "[]"] assms(2) lens by auto
  show ?thesis
  proof (cases "0 < m")
    case True
    have "take m (drop k mem) = ?tail" "k + m \<le> length mem"
      using assms(1,5) lens le by (auto simp: holds_text_def)
    then have move: "bindR (memmove_within (k + c) k m mem) (write_block (k + c + m) [NUL]) = write_block (k + c) (?tail @ [NUL]) mem"
      using write_write [of "k + c" ?tail mem "[NUL]"] lens by (simp add: memmove_within_def)
    moreover have "bindR (write_block (k + c) (?tail @ [NUL]) mem) (write_block k (take c text)) = Inr mem'"
      using write_before [of k "take c text" "?tail @ [NUL]" mem] mem'(1) lens by simp
    then obtain mem1 where "write_block (k + c) (?tail @ [NUL]) mem = Inr mem1" "write_block k (take c text) mem1 = Inr mem'"
      by auto
    moreover obtain mem3 where "write_block n [NUL] mem' = Inr mem3" "holds_text n (take k t @ take c text @ ?tail) mem3"
      using write_NUL_after [OF mem'(2), of n] holds_text_le [OF mem'(2)] by auto
    ultimately show ?thesis
      using True by (intro exI [of _ mem1] exI [of _ mem'] exI [of _ mem3]) simp
  next
    case False
    then have "n = k + c" "?tail = []"
      using assms(2,3,5) le by auto
    then have "bindR (write_block k (take c text) mem) (write_block n [NUL]) = Inr mem'"
      using write_write [of k "take c text" mem "[NUL]"] mem'(1) lens by simp
    then show ?thesis
      using False mem'(2) by auto
  qed
qed

lemma insertAt_refines:
  assumes "text_rel s a" "NUL \<notin> set text"
  shows "\<exists>s'. insertAt off text s = Inr s' \<and>
    text_rel s' (limit (take (nat off) (lt_text a) @ text @ drop (nat off) (lt_text a)) a)"
proof (cases "length (lt_text a) \<le> nat off")
  case True
  let ?avail = "lt_max a - length (lt_text a)"
  have s: "holds_text (lt_max a) (lt_text a) (m_strPtr s)"
    using assms(1) by (simp add: text_rel_def)
  have "prefix_of (text @ [NUL]) (min (length text) ?avail) = Inr (take ?avail text)"
    using assms(2) by (simp add: prefix_of_string min_def)
  then obtain s' where "appendTo (Some (text @ [NUL])) (int (length text)) s = Inr s'"
      "text_rel s' (a\<lparr>lt_text := lt_text a @ take ?avail text, lt_truncated := lt_max a < length (lt_text a) + length text\<rparr>)"
    using appendTo_refines [OF assms(1)] by blast
  moreover have "int (length (lt_text a)) \<le> (if off < 0 then 0 else off)"
    using True by (cases "off < 0") auto
  ultimately show ?thesis
    using s True holds_text_le [OF s] by (simp add: insertAt_def limit_def Let_def)
next
  case False
  define n t k where "n = lt_max a" and "t = lt_text a" and "k = nat off"
  define c where "c = min (length text) (n - k)"
  define m where "m = min (length t - k) (n - k - c)"
  have s: "holds_text n t (m_strPtr s)" "m_internalMaxlen s = n"
    using assms(1) by (simp_all add: text_rel_def n_def t_def)
  note le = holds_text_le [OF s(1)]
  have kt: "k < length t"
    using False by (simp add: k_def t_def)
  obtain mem1 mem2 mem3 where mem:
      "(if 0 < m then bindR (memmove_within (k + c) k m (m_strPtr s)) (write_block (k + c + m) [NUL]) else Inr (m_strPtr s)) = Inr mem1"
      "write_block k (take c text) mem1 = Inr mem2" "write_block n [NUL] mem2 = Inr mem3"
      "holds_text n (take k t @ take c text @ take m (drop k t)) mem3"
    using insert_in_memory [OF s(1) kt _ _ m_def assms(2)] by (auto simp: c_def)
  have off: "nat (if off < 0 then 0 else off) = k" "\<not> int (length t) \<le> (if off < 0 then 0 else off)"
    using kt by (auto simp: k_def)
  have moved: "(if 0 < m then bindR (on_mem (memmove_within (k + c) k m) s) (put_char (k + c + m) NUL) else Inr s) = Inr (s\<lparr>m_strPtr := mem1\<rparr>)"
    using mem(1) unfolding put_char_def bindR_on_mem by (cases "0 < m") (auto simp: on_mem_def)
  have "insertAt off text s = Inr (s\<lparr>m_truncated := (m \<noteq> length t - k \<or> c \<noteq> length text), m_strPtr := mem3\<rparr>)"
    using off(2) mem(2,3) s(2) unfolding insertAt_def Let_def strlen_text [OF s(1)] bindR_simps off(1) s(2) c_def [symmetric] m_def [symmetric]
    by (simp add: moved s(2) on_mem_def put_char_def del: bindR_eq_Inr)
  moreover have "take k t @ take c text @ take m (drop k t) = take n (take k t @ text @ drop k t)"
    using kt le by (auto simp: m_def c_def min_def)
  moreover have "(m \<noteq> length t - k \<or> c \<noteq> length text) \<longleftrightarrow> n < length (take k t @ text @ drop k t)"
    using kt le by (auto simp: m_def c_def min_def)
  ultimately show ?thesis
    using mem(4) s(2) by (auto simp: text_rel_def limit_def n_def t_def k_def)
qed

lemma vformat_refines:
  assumes "text_rel s a" "NUL \<notin> set out"
  shows "\<exists>s'. formatOpt app out s = Inr s' \<and> text_rel s' (limit ((if app then lt_text a else []) @ out) a)"
proof -
  define n t k where "n = lt_max a" and "t = lt_text a" and "k = (if app then length t else 0)"
  have s: "holds_text n t (m_strPtr s)" "m_internalMaxlen s = n"
    using assms(1) by (simp_all add: text_rel_def n_def t_def)
  note le = holds_text_le [OF s(1)]
  have kn: "k \<le> length t" "k \<le> n"
    using le by (simp_all add: k_def)
  have fits: "k + length (take (n - k) out) \<le> n"
    using kn(2) by (simp del: add_diff_assoc)
  have "NUL \<notin> set (take (n - k) out)"
    using assms(2) by (auto dest: in_set_takeD)
  then obtain mem where mem: "write_block k (take (n - k) out @ [NUL]) (m_strPtr s) = Inr mem" "holds_text n (take k t @ take (n - k) out) mem"
    using write_text [OF s(1) kn(1), of "take (n - k) out" "[]"] fits by auto
  have all: "formatOpt app out s = validateSizeAfterFormat (n - k) (int (length out)) n (s\<lparr>m_strPtr := mem\<rparr>)"
    using mem(1) s by (simp add: formatOpt_def vformat_def vformatAppend_def vsnprintf_def on_mem_def k_def Let_def split: if_splits)
  show ?thesis
  proof (cases "length out \<le> n - k")
    case True
    then show ?thesis
      using all mem(2) s(2) kn
      by (auto simp: validateSizeAfterFormat_def text_rel_def limit_def n_def k_def t_def split: if_splits)
  next
    case False
    then obtain mem' where "put_char n NUL (s\<lparr>m_strPtr := mem, m_truncated := True\<rparr>) = Inr (s\<lparr>m_truncated := True, m_strPtr := mem'\<rparr>)"
        "holds_text n (take k t @ take (n - k) out) mem'"
      using put_NUL_after [of n "take k t @ take (n - k) out" "s\<lparr>m_strPtr := mem, m_truncated := True\<rparr>" n] mem(2) holds_text_le [OF mem(2)]
      by auto
    then show ?thesis
      using all False s(2) kn
      by (auto simp: validateSizeAfterFormat_def text_rel_def limit_def n_def k_def t_def split: if_splits)
  qed
qed

lemma string_clear_refines:
  assumes "text_rel s a"
  shows "\<exists>s'. clear s = Inr s' \<and> text_rel s' (retext [] a)"
  using put_NUL_inside [of "lt_max a" "lt_text a" s 0] assms by (auto simp: clear_def text_rel_def retext_def)

lemma trimRight_refines:
  assumes "text_rel s a"
  shows "\<exists>s'. trimRight n s = Inr s' \<and>
    text_rel s' (retext (if n < 0 \<or> int (length (lt_text a)) < n then lt_text a else take (length (lt_text a) - nat n) (lt_text a)) a)"
proof -
  have s: "holds_text (lt_max a) (lt_text a) (m_strPtr s)" "m_internalMaxlen s = lt_max a"
    using assms(1) by (simp_all add: text_rel_def)
  show ?thesis
  proof (cases "n < 0 \<or> int (length (lt_text a)) < n")
    case True
    then show ?thesis
      using s by (auto simp: trimRight_def Let_def text_rel_def retext_def)
  next
    case False
    then have "nat (int (length (lt_text a)) - n) = length (lt_text a) - nat n"
      by (simp add: nat_diff_distrib)
    moreover obtain mem where "put_char (length (lt_text a) - nat n) NUL (s\<lparr>m_truncated := False\<rparr>) = Inr (s\<lparr>m_truncated := False, m_strPtr := mem\<rparr>)"
        "holds_text (lt_max a) (take (length (lt_text a) - nat n) (lt_text a)) mem"
      using put_NUL_inside [of "lt_max a" "lt_text a" "s\<lparr>m_truncated := False\<rparr>" "length (lt_text a) - nat n"] s(1) by auto
    ultimately show ?thesis
      using False s by (auto simp: trimRight_def Let_def text_rel_def retext_def)
  qed
qed

lemma cut_refines:
  assumes "text_rel s a"
  shows "\<exists>s'. cut i j s = Inr s' \<and>
    text_rel s' (retext (if 0 \<le> i \<and> i \<le> j \<and> j < int (length (lt_text a))
      then take (nat i) (lt_text a) @ drop (nat (j + 1)) (lt_text a) else lt_text a) a)"
proof -
  define t where "t = lt_text a"
  have s: "holds_text (lt_max a) t (m_strPtr s)" "m_internalMaxlen s = lt_max a"
    using assms(1) by (simp_all add: text_rel_def t_def)
  note le = holds_text_le [OF s(1)]
  consider "\<not> (0 \<le> i \<and> i \<le> j \<and> j < int (length t))" | "0 \<le> i" "i \<le> j" "j + 1 = int (length t)"
    | "0 \<le> i" "i \<le> j" "j + 1 < int (length t)"
    by linarith
  then show ?thesis
  proof cases
    case 1
    then show ?thesis
      using s by (auto simp: cut_def Let_def text_rel_def retext_def t_def)
  next
    case 2
    have "text_rel (s\<lparr>m_truncated := False\<rparr>) (a\<lparr>lt_truncated := False\<rparr>)"
      using assms by (simp add: text_rel_def)
    moreover have "length t - nat (int (length t) - i) = nat i"
      using 2 by linarith
    ultimately show ?thesis
      using trimRight_refines [of "s\<lparr>m_truncated := False\<rparr>" "a\<lparr>lt_truncated := False\<rparr>" "int (length t) - i"] 2 s(1)
      by (auto simp: cut_def Let_def retext_def t_def)
  next
    case 3
    let ?m = "length t - nat (j + 1)"
    have move: "take ?m (drop (nat (j + 1)) (m_strPtr s)) = drop (nat (j + 1)) t" "nat (j + 1) + ?m \<le> length (m_strPtr s)"
      using s(1) 3 by (auto simp: holds_text_def)
    have "NUL \<notin> set (drop (nat (j + 1)) t)"
      using s(1) by (auto simp: holds_text_def dest: in_set_dropD)
    moreover have "nat i \<le> length t" "nat i + length (drop (nat (j + 1)) t) \<le> lt_max a"
      using 3 le by simp_all
    ultimately obtain mem where mem: "write_block (nat i) (drop (nat (j + 1)) t @ [NUL]) (m_strPtr s) = Inr mem"
        "holds_text (lt_max a) (take (nat i) t @ drop (nat (j + 1)) t) mem"
      using write_text [OF s(1), of "nat i" "drop (nat (j + 1)) t" "[]"] by auto
    with move have "bindR (memmove_within (nat i) (nat (j + 1)) ?m (m_strPtr s)) (write_block (nat i + ?m) [NUL]) = Inr mem"
      using write_write [of "nat i" "drop (nat (j + 1)) t" "m_strPtr s" "[NUL]"] by (simp add: memmove_within_def)
    then have "cut i j s = Inr (s\<lparr>m_truncated := False, m_strPtr := mem\<rparr>)"
      using 3 s(1) unfolding cut_def Let_def put_char_def bindR_on_mem by (simp add: on_mem_def del: bindR_eq_Inr)
    then show ?thesis
      using 3 mem(2) s(2) by (auto simp: text_rel_def retext_def t_def)
  qed
qed

lemma setChar_refines:
  assumes "text_rel s a"
  shows "\<exists>s'. setChar i c s = Inr s' \<and>
    text_rel s' (retext (if 0 \<le> i \<and> i < int (length (lt_text a))
      then if c = NUL then take (nat i) (lt_text a) else (lt_text a)[nat i := c] else lt_text a) a)"
proof -
  define t where "t = lt_text a"
  have s: "holds_text (lt_max a) t (m_strPtr s)" "m_internalMaxlen s = lt_max a"
    using assms(1) by (simp_all add: text_rel_def t_def)
  consider "\<not> (0 \<le> i \<and> i < int (length t))" | "0 \<le> i" "i < int (length t)" "c = NUL" | "0 \<le> i" "i < int (length t)" "c \<noteq> NUL"
    by blast
  then show ?thesis
  proof cases
    case 1
    then show ?thesis
      using s by (auto simp: setChar_def Let_def text_rel_def retext_def t_def)
  next
    case 2
    then have "nat i \<le> length t"
      by simp
    with 2 show ?thesis
      using put_NUL_inside [of "lt_max a" t "s\<lparr>m_truncated := False\<rparr>" "nat i"] s
      by (auto simp: setChar_def Let_def text_rel_def retext_def t_def)
  next
    case 3
    obtain rest where r: "m_strPtr s = t @ NUL # rest" "NUL \<notin> set t" "length (m_strPtr s) = Suc (lt_max a)"
      using s(1) by (auto simp: holds_text_def)
    have "write_block (nat i) [c] (m_strPtr s) = Inr (t[nat i := c] @ NUL # rest)"
      using 3 r(1) by (simp add: write_block_def upd_conv_take_nth_drop)
    moreover have "holds_text (lt_max a) (t[nat i := c]) (t[nat i := c] @ NUL # rest)"
      using 3 r by (auto simp: holds_text_def dest: set_update_subset_insert [THEN subsetD])
    ultimately show ?thesis
      using 3 s by (auto simp: setChar_def Let_def put_char_def on_mem_def text_rel_def retext_def t_def)
  qed
qed

lemma replace_loop_text:
  "NUL \<notin> set t \<Longrightarrow> replace_loop c d (t @ NUL # rest) = Inr (count_list t c, map (\<lambda>x. if x = c then d else x) t @ NUL # rest)"
  by (induction t) auto

lemma replaced_text:
  assumes "holds_text n t (t @ NUL # rest)"
  shows "holds_text n (if d = NUL then takeWhile (\<lambda>x. x \<noteq> c) t else map (\<lambda>x. if x = c then d else x) t)
    (map (\<lambda>x. if x = c then d else x) t @ NUL # rest)"
proof -
  let ?f = "\<lambda>x. if x = c then d else x"
  have t: "NUL \<notin> set t" "length t + length rest = n"
    using assms by (auto simp: holds_text_def)
  show ?thesis
  proof (cases "c \<in> set t")
    case True
    then obtain as bs where ab: "t = as @ c # bs" "c \<notin> set as"
      by (meson split_list_first)
    moreover from this have "map ?f as = as"
      by (auto intro!: map_idI)
    ultimately show ?thesis
      using t by (auto simp: holds_text_def)
  next
    case False
    then have "takeWhile (\<lambda>x. x \<noteq> c) t = t" "map ?f t = t"
      by (auto intro!: map_idI)
    then show ?thesis
      using assms by (simp only: if_cancel)
  qed
qed

lemma replace_refines:
  assumes "text_rel s a"
  shows "\<exists>s'. replace c d s = Inr (if c = d then 0 else count_list (lt_text a) c, s') \<and>
    text_rel s' (retext (if d = NUL then takeWhile (\<lambda>x. x \<noteq> c) (lt_text a) else map (\<lambda>x. if x = c then d else x) (lt_text a)) a)"
proof -
  define t where "t = lt_text a"
  let ?new = "if d = NUL then takeWhile (\<lambda>x. x \<noteq> c) t else map (\<lambda>x. if x = c then d else x) t"
  obtain rest where r: "m_strPtr s = t @ NUL # rest" "NUL \<notin> set t" "m_internalMaxlen s = lt_max a"
    and h: "holds_text (lt_max a) t (t @ NUL # rest)"
    using assms by (auto simp: text_rel_def holds_text_def t_def)
  have "\<exists>mem. replace c d s = Inr (if c = d then 0 else count_list t c, s\<lparr>m_strPtr := mem, m_truncated := False\<rparr>) \<and>
      holds_text (lt_max a) ?new mem"
  proof (cases "c = d")
    case True
    then have "map (\<lambda>x. if x = c then d else x) t = t"
      by (auto intro!: map_idI)
    then have "holds_text (lt_max a) ?new (t @ NUL # rest)"
      using replaced_text [OF h, of d c] by simp
    then show ?thesis
      using True r(1) by (intro exI [of _ "t @ NUL # rest"]) (simp add: replace_def)
  next
    case False
    then show ?thesis
      using replaced_text [OF h, of d c] replace_loop_text [OF r(2), of c d rest] r(1)
      by (intro exI [of _ "map (\<lambda>x. if x = c then d else x) t @ NUL # rest"]) (simp add: replace_def)
  qed
  then show ?thesis
    using r(3) by (auto simp: text_rel_def retext_def t_def)
qed

lemma strchr_text:
  "NUL \<notin> set t \<Longrightarrow> strchr c (t @ NUL # rest) =
     Inr (if c = NUL \<or> c \<in> set t then Some (length (takeWhile (\<lambda>x. x \<noteq> c) t)) else None)"
  by (induction t) auto

lemma count_loop_text: "c \<noteq> NUL \<Longrightarrow> NUL \<notin> set t \<Longrightarrow> count_loop c (t @ NUL # rest) = Inr (count_list t c)"
proof (induction "length t" arbitrary: t rule: less_induct)
  case less
  show ?case
  proof (cases "c \<in> set t")
    case True
    then obtain as bs where ab: "t = as @ c # bs" "c \<notin> set as"
      by (meson split_list_first)
    then have "count_loop c (bs @ NUL # rest) = Inr (count_list bs c)"
      using less by auto
    moreover have "strchr c (t @ NUL # rest) = Inr (Some (length as))"
      using ab less.prems by (subst strchr_text) auto
    moreover have "count_list as c = 0"
      using ab(2) by (simp add: count_list_0_iff)
    ultimately show ?thesis
      using ab(1) by (subst count_loop.simps) simp
  next
    case False
    then have "strchr c (t @ NUL # rest) = Inr None"
      using less.prems by (subst strchr_text) auto
    then show ?thesis
      using False by (subst count_loop.simps) (simp add: count_list_0_iff)
  qed
qed

text \<open>Counting the NUL itself runs over the end of the memory.\<close>

lemma count_loop_NUL: "count_loop NUL mem = Inl OutOfBounds"
proof (induction "length mem" arbitrary: mem rule: less_induct)
  case less
  show ?case
  proof (cases "strchr NUL mem")
    case (Inl e)
    have "strchr NUL mem = Inl e \<Longrightarrow> e = OutOfBounds" for e
      by (induction mem) (auto simp: bindR_def split: if_splits sum.splits)
    then show ?thesis
      using Inl by (subst count_loop.simps) simp
  next
    case (Inr p)
    have "strchr NUL mem \<noteq> Inr None"
      by (induction mem) (auto split: if_splits)
    then obtain k where "p = Some k"
      using Inr by (cases p) auto
    moreover have "mem \<noteq> []"
      using Inr by auto
    ultimately show ?thesis
      using Inr less [of "drop (Suc k) mem"] by (subst count_loop.simps) simp
  qed
qed

subsection \<open>Sequences of operations\<close>

datatype str_op =
    AssignStr "string option" | AssignChar char | AppendStr "string option" | AppendChar char | InsertAt int string
  | Format bool string | Clear | TrimRight int | Cut int int | SetChar int char | Replace char char
  | IndexOf char int | Count char | StartsWith "string option" int | EndsWith "string option" | Length | Truncated

datatype str_answer = Ok | Num int | Truth bool

text \<open>The public operators pass a string with its length, or one character.\<close>

definition c_string :: "string option \<Rightarrow> char list option" where
  "c_string = map_option (\<lambda>t. t @ [NUL])"

definition c_length :: "string option \<Rightarrow> int" where
  "c_length t = (case t of None \<Rightarrow> 0 | Some t \<Rightarrow> int (length t))"

definition ok :: "fstring result \<Rightarrow> (str_answer \<times> fstring) result" where
  "ok m = bindR m (\<lambda>s. Inr (Ok, s))"

fun str_step :: "str_op \<Rightarrow> fstring \<Rightarrow> (str_answer \<times> fstring) result" where
  "str_step (AssignStr t) s = ok (copyIn (c_string t) (c_length t) s)"
| "str_step (AssignChar c) s = ok (copyIn (Some [c]) 1 s)"
| "str_step (AppendStr t) s = ok (appendTo (c_string t) (c_length t) s)"
| "str_step (AppendChar c) s = ok (appendTo (Some [c]) 1 s)"
| "str_step (InsertAt i t) s = ok (insertAt i t s)"
| "str_step (Format app t) s = ok (formatOpt app t s)"
| "str_step Clear s = ok (clear s)"
| "str_step (TrimRight n) s = ok (trimRight n s)"
| "str_step (Cut i j) s = ok (cut i j s)"
| "str_step (SetChar i c) s = ok (setChar i c s)"
| "str_step (Replace c d) s = bindR (replace c d s) (\<lambda>(n, s). Inr (Num (int n), s))"
| "str_step (IndexOf c i) s = bindR (indexOf c i s) (\<lambda>n. Inr (Num n, s))"
| "str_step (Count c) s = bindR (count_of c s) (\<lambda>n. Inr (Num (int n), s))"
| "str_step (StartsWith t i) s = bindR (startsWith t i s) (\<lambda>b. Inr (Truth b, s))"
| "str_step (EndsWith t) s = bindR (endsWith t s) (\<lambda>b. Inr (Truth b, s))"
| "str_step Length s = bindR (length_of s) (\<lambda>n. Inr (Num (int n), s))"
| "str_step Truncated s = Inr (Truth (m_truncated s), s)"

text \<open>The same operations on the text.\<close>

definition char_text :: "char \<Rightarrow> string" where
  "char_text c = (if c = NUL then [] else [c])"

definition find_from :: "char \<Rightarrow> int \<Rightarrow> string \<Rightarrow> int" where
  "find_from c i t =
     (if 0 \<le> i \<and> i < int (length t) \<and> (c = NUL \<or> c \<in> set (drop (nat i) t))
      then i + int (length (takeWhile (\<lambda>x. x \<noteq> c) (drop (nat i) t))) else - 1)"

fun text_step :: "str_op \<Rightarrow> limited_text \<Rightarrow> (str_answer \<times> limited_text) result" where
  "text_step (AssignStr t) a = Inr (Ok, case t of None \<Rightarrow> a\<lparr>lt_text := [], lt_truncated := True\<rparr> | Some t \<Rightarrow> limit t a)"
| "text_step (AssignChar c) a = Inr (Ok, a\<lparr>lt_text := take (lt_max a) (char_text c), lt_truncated := lt_max a < 1\<rparr>)"
| "text_step (AppendStr t) a = Inr (Ok, case t of None \<Rightarrow> a | Some t \<Rightarrow> limit (lt_text a @ t) a)"
| "text_step (AppendChar c) a = Inr (Ok, a\<lparr>lt_text := take (lt_max a) (lt_text a @ char_text c), lt_truncated := lt_max a < length (lt_text a) + 1\<rparr>)"
| "text_step (InsertAt i t) a = Inr (Ok, limit (take (nat i) (lt_text a) @ t @ drop (nat i) (lt_text a)) a)"
| "text_step (Format app t) a = Inr (Ok, limit ((if app then lt_text a else []) @ t) a)"
| "text_step Clear a = Inr (Ok, retext [] a)"
| "text_step (TrimRight n) a = Inr (Ok, retext
     (if n < 0 \<or> int (length (lt_text a)) < n then lt_text a else take (length (lt_text a) - nat n) (lt_text a)) a)"
| "text_step (Cut i j) a = Inr (Ok, retext
     (if 0 \<le> i \<and> i \<le> j \<and> j < int (length (lt_text a)) then take (nat i) (lt_text a) @ drop (nat (j + 1)) (lt_text a) else lt_text a) a)"
| "text_step (SetChar i c) a = Inr (Ok, retext
     (if 0 \<le> i \<and> i < int (length (lt_text a))
      then if c = NUL then take (nat i) (lt_text a) else (lt_text a)[nat i := c] else lt_text a) a)"
| "text_step (Replace c d) a = Inr (Num (if c = d then 0 else int (count_list (lt_text a) c)), retext
     (if d = NUL then takeWhile (\<lambda>x. x \<noteq> c) (lt_text a) else map (\<lambda>x. if x = c then d else x) (lt_text a)) a)"
| "text_step (IndexOf c i) a = Inr (Num (find_from c i (lt_text a)), a)"
| "text_step (Count c) a = (if c = NUL then Inl OutOfBounds else Inr (Num (int (count_list (lt_text a) c)), a))"
| "text_step (StartsWith t i) a = Inr (Truth (case t of None \<Rightarrow> False
     | Some t \<Rightarrow> t \<noteq> [] \<and> 0 \<le> i \<and> take (length t) (drop (nat i) (lt_text a)) = t), a)"
| "text_step (EndsWith t) a = Inr (Truth (case t of None \<Rightarrow> False
     | Some t \<Rightarrow> t \<noteq> [] \<and> length t \<le> length (lt_text a) \<and> drop (length (lt_text a) - length t) (lt_text a) = t), a)"
| "text_step Length a = Inr (Num (int (length (lt_text a))), a)"
| "text_step Truncated a = Inr (Truth (lt_truncated a), a)"

text \<open>The arguments are C strings.\<close>

fun str_legal :: "str_op \<Rightarrow> limited_text \<Rightarrow> bool" where
  "str_legal (AssignStr (Some t)) a = (NUL \<notin> set t)"
| "str_legal (AppendStr (Some t)) a = (NUL \<notin> set t)"
| "str_legal (InsertAt i t) a = (NUL \<notin> set t)"
| "str_legal (Format app t) a = (NUL \<notin> set t)"
| "str_legal (StartsWith (Some t) i) a = (NUL \<notin> set t)"
| "str_legal (EndsWith (Some t)) a = (NUL \<notin> set t)"
| "str_legal _ a = True"

definition meets :: "(str_answer \<times> fstring) result \<Rightarrow> (str_answer \<times> limited_text) result \<Rightarrow> bool" where
  "meets m M \<longleftrightarrow> refines (\<lambda>(r, s) (r', a). r = r' \<and> text_rel s a) (Some m) M"

lemma meets_ok: "\<exists>s'. m = Inr s' \<and> text_rel s' a \<Longrightarrow> meets (ok m) (Inr (Ok, a))"
  by (auto simp: meets_def ok_def)

lemma assign_refines:
  assumes "text_rel s a"
  shows "NUL \<notin> set t \<Longrightarrow> \<exists>s'. copyIn (Some (t @ [NUL])) (int (length t)) s = Inr s' \<and> text_rel s' (limit t a)"
    and "\<exists>s'. copyIn (Some [c]) 1 s = Inr s' \<and> text_rel s' (a\<lparr>lt_text := take (lt_max a) (char_text c), lt_truncated := lt_max a < 1\<rparr>)"
    and "NUL \<notin> set t \<Longrightarrow> \<exists>s'. appendTo (Some (t @ [NUL])) (int (length t)) s = Inr s' \<and> text_rel s' (limit (lt_text a @ t) a)"
    and "\<exists>s'. appendTo (Some [c]) 1 s = Inr s' \<and>
      text_rel s' (a\<lparr>lt_text := take (lt_max a) (lt_text a @ char_text c), lt_truncated := lt_max a < length (lt_text a) + 1\<rparr>)"
proof -
  have le: "length (lt_text a) \<le> lt_max a"
    using assms holds_text_le by (auto simp: text_rel_def)
  have tk: "take (min k (length t)) t = take k t" "take (min (length t) k) t = take k t" for k
    by (simp_all add: min_def)
  have char: "prefix_of [c] (min k 1) = Inr (take k (char_text c))" for k
    by (cases k) (auto simp: prefix_of_def char_text_def min_def)
  show "NUL \<notin> set t \<Longrightarrow> \<exists>s'. copyIn (Some (t @ [NUL])) (int (length t)) s = Inr s' \<and> text_rel s' (limit t a)"
    using copyIn_refines [OF assms prefix_of_string, of t "length t"] by (simp add: limit_def tk)
  show "\<exists>s'. copyIn (Some [c]) 1 s = Inr s' \<and> text_rel s' (a\<lparr>lt_text := take (lt_max a) (char_text c), lt_truncated := lt_max a < 1\<rparr>)"
    using copyIn_refines [OF assms char] by simp
  show "NUL \<notin> set t \<Longrightarrow> \<exists>s'. appendTo (Some (t @ [NUL])) (int (length t)) s = Inr s' \<and> text_rel s' (limit (lt_text a @ t) a)"
    using appendTo_refines [OF assms prefix_of_string, of t "length t"] le by (simp add: limit_def tk)
  show "\<exists>s'. appendTo (Some [c]) 1 s = Inr s' \<and>
      text_rel s' (a\<lparr>lt_text := take (lt_max a) (lt_text a @ char_text c), lt_truncated := lt_max a < length (lt_text a) + 1\<rparr>)"
    using appendTo_refines [OF assms, of "[c]" 1 "take (lt_max a - length (lt_text a)) (char_text c)"]
      char [of "lt_max a - length (lt_text a)"] le by (simp add: min.commute)
qed

lemma null_text: "startsWith None i s = Inr False" "endsWith None s = Inr False"
  by (simp_all add: startsWith_def endsWith_def)

lemma indexOf_text:
  assumes "holds_text n t (m_strPtr s)"
  shows "indexOf c i s = Inr (find_from c i t)"
proof (cases "0 \<le> i \<and> i < int (length t)")
  case True
  obtain rest where r: "m_strPtr s = t @ NUL # rest" "NUL \<notin> set t"
    using assms by (auto simp: holds_text_def)
  then have "drop (nat i) (m_strPtr s) = drop (nat i) t @ NUL # rest" "NUL \<notin> set (drop (nat i) t)"
    using True by (auto dest: in_set_dropD)
  then show ?thesis
    using True assms strchr_text [of "drop (nat i) t" c rest] by (auto simp: indexOf_def find_from_def)
next
  case False
  then show ?thesis
    using assms by (auto simp: indexOf_def find_from_def)
qed

lemma count_text:
  assumes "holds_text n t (m_strPtr s)"
  shows "count_of c s = (if c = NUL then Inl OutOfBounds else Inr (count_list t c))"
proof -
  obtain rest where "m_strPtr s = t @ NUL # rest" "NUL \<notin> set t"
    using assms by (auto simp: holds_text_def)
  then show ?thesis
    using count_loop_text [of c t rest] count_loop_NUL by (simp add: count_of_def del: count_loop.simps)
qed

lemma startsWith_text:
  assumes "holds_text n t (m_strPtr s)"
  shows "startsWith (Some u) i s = Inr (u \<noteq> [] \<and> 0 \<le> i \<and> take (length u) (drop (nat i) t) = u)"
proof (cases "i < 0 \<or> int (length t) < i + int (length u) \<or> u = []")
  case True
  have "take (length u) (drop (nat i) t) = u \<Longrightarrow> nat i \<le> length t \<Longrightarrow> nat i + length u \<le> length t"
    by (metis add.commute le_diff_conv2 length_drop length_take min.absorb_iff1 min.commute)
  moreover have "take (length u) (drop (nat i) t) = u \<Longrightarrow> u \<noteq> [] \<Longrightarrow> nat i \<le> length t"
    by (metis drop_all nat_le_linear take_Nil)
  ultimately show ?thesis
    using True assms by (auto simp: startsWith_def)
next
  case False
  obtain rest where "m_strPtr s = t @ NUL # rest"
    using assms by (auto simp: holds_text_def)
  then show ?thesis
    using False assms by (auto simp: startsWith_def)
qed

lemma endsWith_text:
  assumes "holds_text n t (m_strPtr s)"
  shows "endsWith (Some u) s = Inr (u \<noteq> [] \<and> length u \<le> length t \<and> drop (length t - length u) t = u)"
proof -
  obtain rest where "m_strPtr s = t @ NUL # rest"
    using assms by (auto simp: holds_text_def)
  then show ?thesis
    using assms by (auto simp: endsWith_def)
qed

lemma str_step_meets:
  assumes "text_rel s a" "str_legal x a"
  shows "meets (str_step x s) (text_step x a)"
proof -
  have h: "holds_text (lt_max a) (lt_text a) (m_strPtr s)" "m_internalMaxlen s = lt_max a" "m_truncated s = lt_truncated a"
    using assms(1) by (simp_all add: text_rel_def)
  show ?thesis
  proof (cases x)
    case (AssignStr t)
    have "\<exists>s'. copyIn None 0 s = Inr s' \<and> text_rel s' (a\<lparr>lt_text := [], lt_truncated := True\<rparr>)"
      using put_NUL_inside [of "lt_max a" "lt_text a" "s\<lparr>m_truncated := True\<rparr>" 0] h by (auto simp: copyIn_def text_rel_def)
    then show ?thesis
      using AssignStr assms(2) assign_refines(1) [OF assms(1)]
      by (cases t) (auto simp: c_string_def c_length_def intro!: meets_ok)
  next
    case (AppendStr t)
    have "\<exists>s'. appendTo None 0 s = Inr s' \<and> text_rel s' a"
      using assms(1) by (simp add: appendTo_def)
    then show ?thesis
      using AppendStr assms(2) assign_refines(3) [OF assms(1)]
      by (cases t) (auto simp: c_string_def c_length_def intro!: meets_ok)
  next
    case Clear
    show ?thesis
      unfolding Clear str_step.simps text_step.simps by (rule meets_ok [OF string_clear_refines [OF assms(1)]])
  next
    case (Replace c d)
    then show ?thesis
      using replace_refines [OF assms(1), of c d] by (auto simp: meets_def)
  next
    case (StartsWith t i)
    then show ?thesis
      using startsWith_text [OF h(1)] assms by (cases t) (auto simp: meets_def null_text)
  next
    case (EndsWith t)
    then show ?thesis
      using endsWith_text [OF h(1)] assms by (cases t) (auto simp: meets_def null_text)
  next
    case (AssignChar c)
    show ?thesis
      unfolding AssignChar str_step.simps text_step.simps by (rule meets_ok [OF assign_refines(2) [OF assms(1)]])
  next
    case (AppendChar c)
    show ?thesis
      unfolding AppendChar str_step.simps text_step.simps by (rule meets_ok [OF assign_refines(4) [OF assms(1)]])
  next
    case (TrimRight n)
    show ?thesis
      unfolding TrimRight str_step.simps text_step.simps by (rule meets_ok [OF trimRight_refines [OF assms(1)]])
  next
    case (Cut i j)
    show ?thesis
      unfolding Cut str_step.simps text_step.simps by (rule meets_ok [OF cut_refines [OF assms(1)]])
  next
    case (SetChar i c)
    show ?thesis
      unfolding SetChar str_step.simps text_step.simps by (rule meets_ok [OF setChar_refines [OF assms(1)]])
  next
    case (InsertAt i t)
    then have "NUL \<notin> set t"
      using assms(2) by simp
    then show ?thesis
      unfolding InsertAt str_step.simps text_step.simps by (rule meets_ok [OF insertAt_refines [OF assms(1)]])
  next
    case (Format app t)
    then have "NUL \<notin> set t"
      using assms(2) by simp
    then show ?thesis
      unfolding Format str_step.simps text_step.simps by (rule meets_ok [OF vformat_refines [OF assms(1)]])
  qed (use assms(1) h indexOf_text [OF h(1)] count_text [OF h(1)] in \<open>auto simp: meets_def length_of_def\<close>)
qed

lemma text_step_max: "text_step x a = Inr (r, b) \<Longrightarrow> lt_max b = lt_max a"
  by (cases x) (auto simp: limit_def retext_def split: option.splits if_splits)

interpretation fstring: refinement text_rel str_legal str_step text_step
proof unfold_locales
  fix s a x e r a'
  assume "text_rel s a" "str_legal x a"
  then have "refines (\<lambda>(r, s) (r', a). r = r' \<and> text_rel s a) (Some (str_step x s)) (text_step x a)"
    using str_step_meets by (simp add: meets_def)
  then show "text_step x a = Inl e \<Longrightarrow> str_step x s = Inl e"
    and "text_step x a = Inr (r, a') \<Longrightarrow> \<exists>s'. str_step x s = Inr (r, s') \<and> text_rel s' a'"
    by (auto simp: refines_def)
qed

lemma new_string:
  assumes "mem \<noteq> []" "NUL \<notin> set t"
  shows "\<exists>s. FString (Some t) (Some mem) = Inr s \<and>
    text_rel s \<lparr>lt_text = take (length mem - 1) t, lt_max = length mem - 1, lt_truncated = length mem - 1 < length t\<rparr>"
proof -
  let ?n = "length mem - 1"
  let ?block = "take ?n t @ replicate (?n - length (take ?n t)) NUL @ [NUL]"
  let ?s = "\<lparr>m_strPtr = mem, m_internalMaxlen = ?n, m_truncated = \<not> length t \<le> ?n\<rparr>"
  have "length ?block = length mem"
    using assms(1) by (cases mem) simp_all
  then have "bindR (strncpy (t @ [NUL]) ?n mem) (write_block ?n [NUL]) = Inr ?block"
    using write_write [of 0 "take ?n t @ replicate (?n - length (take ?n t)) NUL" mem "[NUL]"]
    by (simp add: strncpy_def prefix_of_string [OF assms(2)] write_block_def del: bindR_eq_Inr)
  then have "FString (Some t) (Some mem) = Inr (?s\<lparr>m_strPtr := ?block\<rparr>)"
    unfolding FString_def put_char_def Let_def option.case bindR_on_mem by (simp add: on_mem_def del: bindR_eq_Inr)
  moreover have "holds_text ?n (take ?n t) ?block"
    using \<open>length ?block = length mem\<close> assms
    by (auto simp: holds_text_def replicate_append_same dest: in_set_takeD simp del: length_append)
  ultimately show ?thesis
    by (auto simp: text_rel_def)
qed

subsection \<open>Properties\<close>

text \<open>
  C37. A fixed size string is a text with a limit. From the constructor on, on memory of any size and any
  content, every sequence of operations gives the answers and the text of the same operations on plain texts
  that are cut at the maximum length, with the flag set exactly when something was cut. No operation reads
  or writes outside of the memory, except that counting NUL characters always does, and the memory always
  holds a terminated string.
\<close>

theorem fstring_refines_text:
  assumes "mem \<noteq> []" "NUL \<notin> set t"
    and "a = \<lparr>lt_text = take (length mem - 1) t, lt_max = length mem - 1, lt_truncated = length mem - 1 < length t\<rparr>"
    and "legal_ops str_legal text_step ops a"
  shows "case run_ops text_step ops a of
      Inl e \<Rightarrow> bindR (FString (Some t) (Some mem)) (run_ops str_step ops) = Inl e
    | Inr (answers, b) \<Rightarrow> \<exists>s. bindR (FString (Some t) (Some mem)) (run_ops str_step ops) = Inr (answers, s) \<and>
        m_internalMaxlen s = length mem - 1 \<and> holds_text (length mem - 1) (lt_text b) (m_strPtr s)"
proof -
  obtain s where s: "FString (Some t) (Some mem) = Inr s" "text_rel s a"
    using new_string [OF assms(1,2)] assms(3) by blast
  have keep: "run_ops text_step ops a = Inr (answers, b) \<Longrightarrow> lt_max b = lt_max a" for answers b
    using run_ops_keeps [of text_step lt_max ops a answers b] text_step_max by blast
  show ?thesis
    using fstring.run_fails [OF s(2) assms(4)] fstring.run_works [OF s(2) assms(4)] s(1) keep assms(3)
    by (auto split: sum.split simp: text_rel_def)
qed

theorem fstring_refines_text_witness:
  "\<exists>s. bindR (FString (Some ''ab'') (Some ''xxxxxx'')) (run_ops str_step [AppendStr (Some ''cd''), InsertAt 1 ''12'', Truncated, Length, Cut 1 2])
     = Inr ([Ok, Ok, Truth True, Num 5, Ok], s) \<and> holds_text 5 ''abc'' (m_strPtr s)"
  using fstring_refines_text [of "''xxxxxx''" "''ab''" "\<lparr>lt_text = ''ab'', lt_max = 5, lt_truncated = False\<rparr>"
      "[AppendStr (Some ''cd''), InsertAt 1 ''12'', Truncated, Length, Cut 1 2]"]
  by (auto simp: limit_def retext_def eval_nat_numeral simp del: bindR_eq_Inr str_step.simps run_ops.simps(2) [of str_step])

end
