(* ===== verification/Text_Frame.thy ===== *)
theory Text_Frame
  imports Text_String
begin

text \<open>
  Framing of text (src/src/Cpl/Text/Frame). An encoder wraps characters between a start and an end of frame
  character and escapes the end and escape characters inside; a decoder finds the frames in a stream of
  characters that it reads in pieces. The virtual methods of the base classes are records of functions: the
  encoders differ in where the characters go, the decoders in which characters they accept and where they
  read them. Output and input streams are parameters.
\<close>

subsection \<open>Encoder_\<close>

record 'd destination =
  start_with :: "char \<Rightarrow> 'd \<Rightarrow> (bool \<times> 'd) result"
  start_plain :: "'d \<Rightarrow> (bool \<times> 'd) result"
  append_char :: "char \<Rightarrow> 'd \<Rightarrow> (bool \<times> 'd) result"

record 'd encoder =
  e_inFrame :: bool
  e_sof :: char
  e_eof :: char
  e_esc :: char
  e_appendNewline :: bool
  e_dst :: 'd

definition Encoder :: "char \<Rightarrow> char \<Rightarrow> char \<Rightarrow> bool \<Rightarrow> 'd \<Rightarrow> 'd encoder" where
  "Encoder startOfFrame endOfFrame escapeChar appendNewline dst =
     \<lparr>e_inFrame = False, e_sof = startOfFrame, e_eof = endOfFrame, e_esc = escapeChar,
      e_appendNewline = appendNewline, e_dst = dst\<rparr>"

definition to_dst :: "('d \<Rightarrow> (bool \<times> 'd) result) \<Rightarrow> 'd encoder \<Rightarrow> (bool \<times> 'd encoder) result" where
  "to_dst f E = bindR (f (e_dst E)) (\<lambda>(ok, d). Inr (ok, E\<lparr>e_dst := d\<rparr>))"

definition startFrame :: "'d destination \<Rightarrow> 'd encoder \<Rightarrow> (bool \<times> 'd encoder) result" where
  "startFrame v E =
     (if e_inFrame E then Inl FatalError
      else let E = E\<lparr>e_inFrame := True\<rparr>
           in if e_sof E \<noteq> NUL then to_dst (start_with v (e_sof E)) E else to_dst (start_plain v) E)"

definition output_char :: "'d destination \<Rightarrow> char \<Rightarrow> 'd encoder \<Rightarrow> (bool \<times> 'd encoder) result" where
  "output_char v src E =
     (if \<not> e_inFrame E then Inl FatalError
      else if e_esc E \<noteq> NUL \<and> (src = e_esc E \<or> src = e_eof E)
      then bindR (to_dst (append_char v (e_esc E)) E) (\<lambda>(result, E).
           bindR (to_dst (append_char v src) E) (\<lambda>(ok, E). Inr (result \<and> ok, E)))
      else to_dst (append_char v src) E)"

fun output_string :: "'d destination \<Rightarrow> string \<Rightarrow> 'd encoder \<Rightarrow> (bool \<times> 'd encoder) result" where
  "output_string v [] E = Inr (True, E)"
| "output_string v (c # cs) E =
     bindR (output_char v c E) (\<lambda>(ok, E). if ok then output_string v cs E else Inr (False, E))"

definition output_opt :: "'d destination \<Rightarrow> string option \<Rightarrow> 'd encoder \<Rightarrow> (bool \<times> 'd encoder) result" where
  "output_opt v src E = (case src of None \<Rightarrow> Inr (True, E) | Some cs \<Rightarrow> output_string v cs E)"

text \<open>\<open>newline\<close> is the configured newline of the application.\<close>

definition endFrame :: "'d destination \<Rightarrow> string \<Rightarrow> 'd encoder \<Rightarrow> (bool \<times> 'd encoder) result" where
  "endFrame v newline E =
     (if \<not> e_inFrame E then Inl FatalError
      else bindR (to_dst (append_char v (e_eof E)) (E\<lparr>e_inFrame := False\<rparr>)) (\<lambda>(ok, E).
           if \<not> ok then Inr (False, E)
           else if \<not> e_appendNewline E then Inr (True, E)
           else bindR (output_string v newline (E\<lparr>e_inFrame := True\<rparr>)) (\<lambda>(result, E).
                Inr (result, E\<lparr>e_inFrame := False\<rparr>))))"

subsection \<open>StreamEncoder, BlockEncoder and StringEncoder\<close>

text \<open>The argument is \<open>Output::write\<close> for one character.\<close>

definition Stream_append :: "(char \<Rightarrow> 'o \<Rightarrow> bool \<times> 'o) \<Rightarrow> char \<Rightarrow> 'o option \<Rightarrow> (bool \<times> 'o option) result" where
  "Stream_append wr src dst =
     (case dst of
        None \<Rightarrow> Inr (False, None)
      | Some out \<Rightarrow> let (ok, out) = wr src out in Inr (ok, Some out))"

definition Stream_start :: "'o option \<Rightarrow> (bool \<times> 'o option) result" where
  "Stream_start dst = Inr (True, dst)"

definition stream_destination :: "(char \<Rightarrow> 'o \<Rightarrow> bool \<times> 'o) \<Rightarrow> 'o option destination" where
  "stream_destination wr = \<lparr>start_with = Stream_append wr, start_plain = Stream_start, append_char = Stream_append wr\<rparr>"

record 'o block =
  b_dst :: "'o option"
  b_buffer :: "char list"
  b_bufferSize :: nat
  b_bufferCount :: nat

text \<open>The argument is \<open>Output::write\<close> for a buffer.\<close>

definition appendToBlock :: "(char list \<Rightarrow> 'o \<Rightarrow> bool \<times> 'o) \<Rightarrow> char \<Rightarrow> 'o block \<Rightarrow> (bool \<times> 'o block) result" where
  "appendToBlock wr src b =
     (case b_dst b of
        None \<Rightarrow> Inr (False, b)
      | Some out \<Rightarrow>
          bindR (if b_bufferCount b < b_bufferSize b
                 then bindR (write_block (b_bufferCount b) [src] (b_buffer b)) (\<lambda>buf.
                      Inr (b\<lparr>b_buffer := buf, b_bufferCount := b_bufferCount b + 1\<rparr>))
                 else Inr b) (\<lambda>b.
          if b_bufferSize b \<le> b_bufferCount b
          then let (ok, out) = wr (take (b_bufferSize b) (b_buffer b)) out
               in Inr (ok, b\<lparr>b_bufferCount := 0, b_dst := Some out\<rparr>)
          else Inr (True, b)))"

definition Block_start :: "(char list \<Rightarrow> 'o \<Rightarrow> bool \<times> 'o) \<Rightarrow> char \<Rightarrow> 'o block \<Rightarrow> (bool \<times> 'o block) result" where
  "Block_start wr src b = appendToBlock wr src (b\<lparr>b_bufferCount := 0\<rparr>)"

definition Block_start_plain :: "'o block \<Rightarrow> (bool \<times> 'o block) result" where
  "Block_start_plain b = Inr (True, b\<lparr>b_bufferCount := 0\<rparr>)"

definition block_destination :: "(char list \<Rightarrow> 'o \<Rightarrow> bool \<times> 'o) \<Rightarrow> 'o block destination" where
  "block_destination wr = \<lparr>start_with = Block_start wr, start_plain = Block_start_plain, append_char = appendToBlock wr\<rparr>"

definition Block_endFrame :: "(char list \<Rightarrow> 'o \<Rightarrow> bool \<times> 'o) \<Rightarrow> string \<Rightarrow> 'o block encoder \<Rightarrow> (bool \<times> 'o block encoder) result" where
  "Block_endFrame wr newline E =
     bindR (endFrame (block_destination wr) newline E) (\<lambda>(result, E).
     if result
     then (case b_dst (e_dst E) of
             None \<Rightarrow> Inl DanglingPointer
           | Some out \<Rightarrow>
               let (ok, out) = wr (take (b_bufferCount (e_dst E)) (b_buffer (e_dst E))) out
               in Inr (ok, E\<lparr>e_dst := (e_dst E)\<lparr>b_dst := Some out\<rparr>\<rparr>))
     else Inr (False, E))"

definition String_start :: "bool \<Rightarrow> char \<Rightarrow> fstring \<Rightarrow> (bool \<times> fstring) result" where
  "String_start app src dst = bindR (formatOpt app [src] dst) (\<lambda>dst. Inr (\<not> m_truncated dst, dst))"

definition String_start_plain :: "bool \<Rightarrow> fstring \<Rightarrow> (bool \<times> fstring) result" where
  "String_start_plain app dst =
     bindR (if app then Inr dst else clear dst) (\<lambda>dst. Inr (\<not> m_truncated dst, dst))"

definition String_append :: "char \<Rightarrow> fstring \<Rightarrow> (bool \<times> fstring) result" where
  "String_append src dst = bindR (appendTo (Some [src]) 1 dst) (\<lambda>dst. Inr (\<not> m_truncated dst, dst))"

definition string_destination :: "bool \<Rightarrow> fstring destination" where
  "string_destination app =
     \<lparr>start_with = String_start app, start_plain = String_start_plain app, append_char = String_append\<rparr>"

subsection \<open>Decoder_\<close>

text \<open>
  The virtual methods look at the current character and may replace it in the buffer. The start of frame
  test says in addition whether the character stays in the buffer, as the first one of the frame.
\<close>

record 'x scanner =
  is_start :: "char \<Rightarrow> 'x \<Rightarrow> (char \<times> bool \<times> bool) \<times> 'x"
  is_legal :: "char \<Rightarrow> 'x \<Rightarrow> (char \<times> bool) \<times> 'x"
  is_eof :: "char \<Rightarrow> bool"
  is_escape :: "char \<Rightarrow> bool"

text \<open>
  \<open>d_data\<close> is the part of the raw input buffer that is not processed yet; \<open>d_frame\<close> has the characters that
  have been stored in the buffer of the client.
\<close>

record 'x decoder =
  d_data :: string
  d_inFrame :: bool
  d_escaping :: bool
  d_frame :: string
  d_ext :: 'x

definition initializeFrame :: "'x decoder \<Rightarrow> 'x decoder" where
  "initializeFrame D = D\<lparr>d_inFrame := False, d_escaping := False, d_frame := []\<rparr>"

definition Decoder :: "'x \<Rightarrow> 'x decoder" where
  "Decoder x = \<lparr>d_data = [], d_inFrame = False, d_escaping = False, d_frame = [], d_ext = x\<rparr>"

definition store_char :: "nat \<Rightarrow> char \<Rightarrow> 'x decoder \<Rightarrow> 'x decoder" where
  "store_char maxSizeOfFrame c D =
     (if length (d_frame D) < maxSizeOfFrame then D\<lparr>d_frame := d_frame D @ [c], d_escaping := False\<rparr>
      else initializeFrame D)"

function scan_loop :: "'x scanner \<Rightarrow> nat \<Rightarrow> 'x decoder \<Rightarrow> string option \<times> 'x decoder" where
  "scan_loop v n D =
     (case d_data D of
        [] \<Rightarrow> (None, D)
      | c # cs \<Rightarrow>
          if \<not> d_inFrame D
          then let ((c, found, keep), x) = is_start v c (d_ext D)
               in if found
                  then scan_loop v n (D\<lparr>d_ext := x, d_inFrame := True, d_escaping := False, d_frame := [],
                                        d_data := (if keep then c # cs else cs)\<rparr>)
                  else scan_loop v n (D\<lparr>d_ext := x, d_data := cs\<rparr>)
          else let ((c, legal), x) = is_legal v c (d_ext D); D = D\<lparr>d_ext := x, d_data := cs\<rparr>
               in if \<not> legal then scan_loop v n (D\<lparr>d_inFrame := False\<rparr>)
                  else if \<not> d_escaping D
                  then if is_eof v c then (Some (d_frame D), initializeFrame D)
                       else if \<not> is_escape v c then scan_loop v n (store_char n c D)
                       else scan_loop v n (D\<lparr>d_escaping := True\<rparr>)
                  else scan_loop v n (store_char n c D))"
  by pat_completeness auto
termination scan_loop
  by (relation "measure (\<lambda>(v, n, D). 2 * length (d_data D) + (if d_inFrame D then 0 else 1))")
    (auto simp: store_char_def initializeFrame_def)

text \<open>One read and scan; the answer is success, the size of the frame so far, and the frame at its end.\<close>

definition scan_some ::
  "('i \<Rightarrow> (string option \<times> 'i) result) \<Rightarrow> 'x scanner \<Rightarrow> nat \<Rightarrow> 'x decoder \<Rightarrow> 'i
   \<Rightarrow> ((bool \<times> nat \<times> string option) \<times> 'x decoder \<times> 'i) result" where
  "scan_some rd v n D inp =
     (if d_data D = []
      then bindR (rd inp) (\<lambda>(chunk, inp).
           case chunk of
             None \<Rightarrow> Inr ((False, length (d_frame D), None), initializeFrame D, inp)
           | Some cs \<Rightarrow>
               let (fr, D) = scan_loop v n (D\<lparr>d_data := cs\<rparr>)
               in Inr ((True, (case fr of None \<Rightarrow> length (d_frame D) | Some f \<Rightarrow> length f), fr), D, inp))
      else let (fr, D) = scan_loop v n D
           in Inr ((True, (case fr of None \<Rightarrow> length (d_frame D) | Some f \<Rightarrow> length f), fr), D, inp))"

partial_function (option) scan_frames ::
  "('i \<Rightarrow> (string option \<times> 'i) result) \<Rightarrow> 'x scanner \<Rightarrow> nat \<Rightarrow> 'x decoder \<Rightarrow> 'i
   \<Rightarrow> (string option \<times> 'x decoder \<times> 'i) result option" where
  "scan_frames rd v n D inp =
     bindOR (Some (scan_some rd v n D inp)) (\<lambda>((ok, _, fr), D, inp).
     if \<not> ok then Some (Inr (None, D, inp))
     else (case fr of Some f \<Rightarrow> Some (Inr (Some f, D, inp)) | None \<Rightarrow> scan_frames rd v n D inp))"

definition scan ::
  "('i \<Rightarrow> (string option \<times> 'i) result) \<Rightarrow> 'x scanner \<Rightarrow> bool \<Rightarrow> nat \<Rightarrow> 'x decoder \<Rightarrow> 'i
   \<Rightarrow> (string option \<times> 'x decoder \<times> 'i) result option" where
  "scan rd v frame_given n D inp =
     (let D = initializeFrame D
      in if \<not> frame_given then Some (Inr (None, D, inp)) else scan_frames rd v n D inp)"

definition oobRead ::
  "('i \<Rightarrow> (string option \<times> 'i) result) \<Rightarrow> nat \<Rightarrow> 'x decoder \<Rightarrow> 'i \<Rightarrow> (string option \<times> 'x decoder \<times> 'i) result" where
  "oobRead rd numBytes D inp =
     (if d_inFrame D then Inr (None, D, inp)
      else bindR (if d_data D = [] then rd inp else Inr (Some (d_data D), inp)) (\<lambda>(chunk, inp).
           case chunk of
             None \<Rightarrow> Inr (None, D, inp)
           | Some cs \<Rightarrow> Inr (Some (take numBytes cs), D\<lparr>d_data := drop numBytes cs\<rparr>, inp)))"

subsection \<open>StringDecoder, StreamDecoder, AsciiDecoder and LineDecoder\<close>

definition string_scanner :: "char \<Rightarrow> char \<Rightarrow> char \<Rightarrow> unit scanner" where
  "string_scanner sof eof esc =
     \<lparr>is_start = (\<lambda>c x. ((c, c = sof, False), x)), is_legal = (\<lambda>c x. ((c, c \<noteq> NUL), x)),
      is_eof = (\<lambda>c. c = eof), is_escape = (\<lambda>c. c = esc)\<rparr>"

record string_source =
  src_text :: "string option"
  src_done :: bool

definition StringDecoder_setInput :: "string option \<Rightarrow> string_source" where
  "StringDecoder_setInput src = \<lparr>src_text = src, src_done = False\<rparr>"

text \<open>The buffer size is one, so that each call passes one character; the call after the last one passes none.\<close>

definition StringDecoder_read :: "string_source \<Rightarrow> (string option \<times> string_source) result" where
  "StringDecoder_read inp =
     (case src_text inp of
        None \<Rightarrow> Inl FatalError
      | Some cs \<Rightarrow>
          if src_done inp then Inr (None, inp)
          else if cs = [] then Inr (Some [], inp\<lparr>src_done := True\<rparr>)
          else Inr (Some (take 1 cs), inp\<lparr>src_text := Some (drop 1 cs)\<rparr>))"

text \<open>The arguments are \<open>Input::available\<close> and \<open>Input::read\<close> for the size of the buffer.\<close>

definition StreamDecoder_read ::
  "('i \<Rightarrow> bool) \<Rightarrow> ('i \<Rightarrow> string option \<times> 'i) \<Rightarrow> bool \<Rightarrow> 'i option \<Rightarrow> (string option \<times> 'i option) result" where
  "StreamDecoder_read available rd blocking inp =
     (case inp of
        None \<Rightarrow> Inl FatalError
      | Some i \<Rightarrow>
          if \<not> blocking \<and> \<not> available i then Inr (Some [], Some i)
          else let (chunk, i) = rd i in Inr (chunk, Some i))"

text \<open>The value of a character; \<open>sc\<close> says whether plain \<open>char\<close> is signed on the target.\<close>

definition char_value :: "bool \<Rightarrow> char \<Rightarrow> int" where
  "char_value sc c = (let n = of_char c in if sc \<and> 128 \<le> n then n - 256 else n)"

definition ascii_legal :: "bool \<Rightarrow> bool \<Rightarrow> char \<Rightarrow> bool" where
  "ascii_legal sc restricted c \<longleftrightarrow>
     char_value sc c < 0x80 \<and> (\<not> restricted \<or> char_value sc c \<le> 0x7E \<and> 0x20 \<le> char_value sc c)"

definition ascii_scanner :: "bool \<Rightarrow> bool \<Rightarrow> char \<Rightarrow> char \<Rightarrow> char \<Rightarrow> unit scanner" where
  "ascii_scanner sc restricted sof eof esc =
     \<lparr>is_start = (\<lambda>c x. ((c, c = sof, False), x)), is_legal = (\<lambda>c x. ((c, ascii_legal sc restricted c), x)),
      is_eof = (\<lambda>c. c = eof), is_escape = (\<lambda>c. c = esc)\<rparr>"

definition line_eof :: "char \<Rightarrow> bool" where
  "line_eof c \<longleftrightarrow> c = CHR 0x0A \<or> c = CHR 0x0D"

definition line_tab :: "char \<Rightarrow> char \<Rightarrow> char" where
  "line_tab convertTabs c = (if c = CHR 0x09 \<and> convertTabs \<noteq> CHR 0x09 then convertTabs else c)"

text \<open>The state is the flag \<open>m_illegal\<close>.\<close>

definition line_isStartOfFrame :: "bool \<Rightarrow> char \<Rightarrow> char \<Rightarrow> bool \<Rightarrow> (char \<times> bool \<times> bool) \<times> bool" where
  "line_isStartOfFrame sc convertTabs c illegal =
     (let c = line_tab convertTabs c;
          illegal = (if line_eof c then False else illegal);
          found = (\<not> illegal \<and> 0x20 \<le> char_value sc c \<and> char_value sc c \<le> 0x7E)
      in ((c, found, found), illegal))"

definition line_isLegalCharacter :: "bool \<Rightarrow> char \<Rightarrow> char \<Rightarrow> bool \<Rightarrow> (char \<times> bool) \<times> bool" where
  "line_isLegalCharacter sc convertTabs c illegal =
     (let c = line_tab convertTabs c
      in if line_eof c then ((c, True), False)
         else if char_value sc c > 0x7E \<or> char_value sc c < 0x20 then ((c, False), True)
         else ((c, True), illegal))"

definition line_scanner :: "bool \<Rightarrow> char \<Rightarrow> bool scanner" where
  "line_scanner sc convertTabs =
     \<lparr>is_start = line_isStartOfFrame sc convertTabs, is_legal = line_isLegalCharacter sc convertTabs,
      is_eof = line_eof, is_escape = (\<lambda>_. False)\<rparr>"

subsection \<open>Decoding does not depend on the pieces\<close>

declare scan_loop.simps [simp del]

text \<open>One round of the loop: the frame is complete, or the loop goes on.\<close>

definition scan_char :: "'x scanner \<Rightarrow> nat \<Rightarrow> char \<Rightarrow> string \<Rightarrow> 'x decoder \<Rightarrow> string \<times> 'x decoder + 'x decoder" where
  "scan_char v n c cs D =
     (if \<not> d_inFrame D
      then let ((c, found, keep), x) = is_start v c (d_ext D)
           in if found
              then Inr (D\<lparr>d_ext := x, d_inFrame := True, d_escaping := False, d_frame := [],
                          d_data := (if keep then c # cs else cs)\<rparr>)
              else Inr (D\<lparr>d_ext := x, d_data := cs\<rparr>)
      else let ((c, legal), x) = is_legal v c (d_ext D); D = D\<lparr>d_ext := x, d_data := cs\<rparr>
           in if \<not> legal then Inr (D\<lparr>d_inFrame := False\<rparr>)
              else if \<not> d_escaping D
              then if is_eof v c then Inl (d_frame D, initializeFrame D)
                   else if \<not> is_escape v c then Inr (store_char n c D)
                   else Inr (D\<lparr>d_escaping := True\<rparr>)
              else Inr (store_char n c D))"

lemma scan_loop_Nil [simp]: "d_data D = [] \<Longrightarrow> scan_loop v n D = (None, D)"
  by (simp add: scan_loop.simps)

lemma scan_loop_Cons:
  "d_data D = c # cs \<Longrightarrow> scan_loop v n D = (case scan_char v n c cs D of Inl (f, D1) \<Rightarrow> (Some f, D1) | Inr D1 \<Rightarrow> scan_loop v n D1)"
  by (subst scan_loop.simps) (simp add: scan_char_def Let_def split: prod.split)

lemma scan_char_append:
  "scan_char v n c (cs @ ys) (D\<lparr>d_data := zs\<rparr>) =
     (case scan_char v n c cs D of
        Inl (f, D1) \<Rightarrow> Inl (f, D1\<lparr>d_data := d_data D1 @ ys\<rparr>)
      | Inr D1 \<Rightarrow> Inr (D1\<lparr>d_data := d_data D1 @ ys\<rparr>))"
  by (simp add: scan_char_def Let_def store_char_def initializeFrame_def split: prod.split)

abbreviation scan_work :: "'x decoder \<Rightarrow> nat" where
  "scan_work D \<equiv> 2 * length (d_data D) + (if d_inFrame D then 0 else 1)"

lemma scan_char_work: "d_data D = c # cs \<Longrightarrow> scan_char v n c cs D = Inr D1 \<Longrightarrow> scan_work D1 < scan_work D"
  by (auto simp: scan_char_def Let_def store_char_def initializeFrame_def split: prod.splits if_splits)

lemma scan_loop_resume:
  "scan_loop v n D = (r, D') \<Longrightarrow>
   (case r of
      None \<Rightarrow> d_data D' = [] \<and> scan_loop v n (D\<lparr>d_data := d_data D @ ys\<rparr>) = scan_loop v n (D'\<lparr>d_data := ys\<rparr>)
    | Some f \<Rightarrow> scan_loop v n (D\<lparr>d_data := d_data D @ ys\<rparr>) = (Some f, D'\<lparr>d_data := d_data D' @ ys\<rparr>))"
proof (induction "scan_work D" arbitrary: D rule: less_induct)
  case less
  show ?case
  proof (cases "d_data D")
    case (Cons c cs)
    have more: "scan_loop v n (D\<lparr>d_data := d_data D @ ys\<rparr>) =
        (case scan_char v n c (cs @ ys) (D\<lparr>d_data := d_data D @ ys\<rparr>) of Inl (f, D1) \<Rightarrow> (Some f, D1) | Inr D1 \<Rightarrow> scan_loop v n D1)"
      using Cons by (intro scan_loop_Cons) simp
    show ?thesis
    proof (cases "scan_char v n c cs D")
      case (Inl p)
      then show ?thesis
        using less.prems Cons more by (cases p) (auto simp: scan_loop_Cons [OF Cons] scan_char_append)
    next
      case (Inr D1)
      then show ?thesis
        using less.hyps [OF scan_char_work [OF Cons Inr]] less.prems more
        by (cases r) (simp_all add: scan_loop_Cons [OF Cons] scan_char_append)
    qed
  qed (use less.prems in auto)
qed

lemma scan_loop_append:
  "scan_loop v n D = (None, D') \<Longrightarrow> d_data D' = [] \<and> scan_loop v n (D\<lparr>d_data := d_data D @ ys\<rparr>) = scan_loop v n (D'\<lparr>d_data := ys\<rparr>)"
  "scan_loop v n D = (Some f, D') \<Longrightarrow> scan_loop v n (D\<lparr>d_data := d_data D @ ys\<rparr>) = (Some f, D'\<lparr>d_data := d_data D' @ ys\<rparr>)"
  using scan_loop_resume [of v n D None D' ys] scan_loop_resume [of v n D "Some f" D' ys] by simp_all

text \<open>
  What the decoder needs from a source: as long as there is text, a read succeeds with the next piece of it,
  which may be empty, and empty pieces come to an end.
\<close>

locale char_source =
  fixes rd :: "'i \<Rightarrow> (string option \<times> 'i) result"
    and ready :: "'i \<Rightarrow> bool"
    and unread :: "'i \<Rightarrow> string"
    and remaining :: "'i \<Rightarrow> nat"
  assumes read_piece: "ready i \<Longrightarrow> unread i \<noteq> [] \<Longrightarrow>
    \<exists>cs i'. rd i = Inr (Some cs, i') \<and> unread i = cs @ unread i' \<and> ready i' \<and> remaining i' < remaining i"
begin

lemma scan_frames_text:
  "ready i \<Longrightarrow> scan_loop v n (D\<lparr>d_data := d_data D @ unread i\<rparr>) = (Some f, D') \<Longrightarrow>
   \<exists>D'' i'. scan_frames rd v n D i = Some (Inr (Some f, D'', i')) \<and> ready i' \<and> D' = D''\<lparr>d_data := d_data D'' @ unread i'\<rparr>"
proof (induction "2 * remaining i + length (d_data D)" arbitrary: i D rule: less_induct)
  case less
  show ?case
  proof (cases "d_data D = []")
    case True
    then have "unread i \<noteq> []"
      using less.prems(2) by (cases "unread i") auto
    then obtain cs i1 where i1: "rd i = Inr (Some cs, i1)" "unread i = cs @ unread i1" "ready i1" "remaining i1 < remaining i"
      using read_piece [OF less.prems(1)] by blast
    obtain r D1 where D1: "scan_loop v n (D\<lparr>d_data := cs\<rparr>) = (r, D1)"
      by fastforce
    show ?thesis
    proof (cases r)
      case None
      note app = scan_loop_append(1) [OF D1 [unfolded None], of "unread i1"]
      then have "scan_loop v n (D1\<lparr>d_data := d_data D1 @ unread i1\<rparr>) = (Some f, D')"
        using less.prems(2) i1(2) True by simp
      then have "\<exists>D'' i'. scan_frames rd v n D1 i1 = Some (Inr (Some f, D'', i')) \<and> ready i' \<and> D' = D''\<lparr>d_data := d_data D'' @ unread i'\<rparr>"
        using less.hyps [of i1 D1] i1(3,4) app True by simp
      then show ?thesis
        using True i1(1) D1 None by (subst scan_frames.simps) (simp add: scan_some_def)
    next
      case (Some g)
      then have "g = f" "D' = D1\<lparr>d_data := d_data D1 @ unread i1\<rparr>"
        using scan_loop_append(2) [OF D1 [unfolded Some], of "unread i1"] less.prems(2) i1(2) True by simp_all
      then show ?thesis
        using True i1 D1 Some by (subst scan_frames.simps) (simp add: scan_some_def)
    qed
  next
    case False
    obtain r D1 where D1: "scan_loop v n D = (r, D1)"
      by fastforce
    show ?thesis
    proof (cases r)
      case None
      note app = scan_loop_append(1) [OF D1 [unfolded None], of "unread i"]
      then have "scan_loop v n (D1\<lparr>d_data := d_data D1 @ unread i\<rparr>) = (Some f, D')"
        using less.prems(2) by simp
      then have "\<exists>D'' i'. scan_frames rd v n D1 i = Some (Inr (Some f, D'', i')) \<and> ready i' \<and> D' = D''\<lparr>d_data := d_data D'' @ unread i'\<rparr>"
        using less.hyps [of i D1] less.prems(1) app False by simp
      then show ?thesis
        using False D1 None by (subst scan_frames.simps) (simp add: scan_some_def)
    next
      case (Some g)
      then have "g = f" "D' = D1\<lparr>d_data := d_data D1 @ unread i\<rparr>"
        using scan_loop_append(2) [OF D1 [unfolded Some], of "unread i"] less.prems(2) by simp_all
      then show ?thesis
        using False less.prems(1) D1 Some by (subst scan_frames.simps) (simp add: scan_some_def)
    qed
  qed
qed

end

text \<open>A string is such a source, one character at a time.\<close>

interpretation string_source: char_source StringDecoder_read "\<lambda>i. src_text i \<noteq> None \<and> \<not> src_done i"
    "\<lambda>i. case src_text i of None \<Rightarrow> [] | Some cs \<Rightarrow> cs" "\<lambda>i. case src_text i of None \<Rightarrow> 0 | Some cs \<Rightarrow> length cs"
  by unfold_locales (auto simp: StringDecoder_read_def neq_Nil_conv)

text \<open>So is a stream that delivers its text in any pieces, also empty ones, with any availability.\<close>

fun next_piece :: "string list \<Rightarrow> string option \<times> string list" where
  "next_piece [] = (None, [])"
| "next_piece (cs # pieces) = (Some cs, pieces)"

interpretation stream_source: char_source "StreamDecoder_read (\<lambda>i. i \<noteq> []) next_piece blocking" "\<lambda>i. i \<noteq> None"
    "\<lambda>i. case i of None \<Rightarrow> [] | Some pieces \<Rightarrow> concat pieces" "\<lambda>i. case i of None \<Rightarrow> 0 | Some pieces \<Rightarrow> length pieces" for blocking
proof unfold_locales
  fix i :: "string list option"
  assume "i \<noteq> None" "(case i of None \<Rightarrow> [] | Some pieces \<Rightarrow> concat pieces) \<noteq> []"
  then obtain cs pieces where "i = Some (cs # pieces)"
    by (cases i; cases "the i") auto
  then show "\<exists>cs i'. StreamDecoder_read (\<lambda>i. i \<noteq> []) next_piece blocking i = Inr (Some cs, i') \<and>
      (case i of None \<Rightarrow> [] | Some pieces \<Rightarrow> concat pieces) = cs @ (case i' of None \<Rightarrow> [] | Some pieces \<Rightarrow> concat pieces) \<and>
      i' \<noteq> None \<and> (case i' of None \<Rightarrow> 0 | Some pieces \<Rightarrow> length pieces) < (case i of None \<Rightarrow> 0 | Some pieces \<Rightarrow> length pieces)"
    by (simp add: StreamDecoder_read_def)
qed

subsection \<open>Frames in a text\<close>

definition escaped :: "char \<Rightarrow> char \<Rightarrow> string \<Rightarrow> string" where
  "escaped eof esc p = concat (map (\<lambda>c. if esc \<noteq> NUL \<and> (c = esc \<or> c = eof) then [esc, c] else [c]) p)"

text \<open>Decoders that know a frame by its first and last character.\<close>

definition mark_scanner :: "char \<Rightarrow> char \<Rightarrow> char \<Rightarrow> (char \<Rightarrow> bool) \<Rightarrow> unit scanner" where
  "mark_scanner sof eof esc legal =
     \<lparr>is_start = (\<lambda>c x. ((c, c = sof, False), x)), is_legal = (\<lambda>c x. ((c, legal c), x)),
      is_eof = (\<lambda>c. c = eof), is_escape = (\<lambda>c. c = esc)\<rparr>"

lemma mark_scanners:
  "string_scanner sof eof esc = mark_scanner sof eof esc (\<lambda>c. c \<noteq> NUL)"
  "ascii_scanner sc restricted sof eof esc = mark_scanner sof eof esc (ascii_legal sc restricted)"
  by (simp_all add: string_scanner_def ascii_scanner_def mark_scanner_def)

lemma no_ext [simp]: "D\<lparr>d_ext := u\<rparr> = D" for D :: "unit decoder"
  by (cases D) simp

lemma scan_char_mark:
  "scan_char (mark_scanner sof eof esc legal) n c cs D =
     (if \<not> d_inFrame D
      then Inr (if c = sof then D\<lparr>d_inFrame := True, d_escaping := False, d_frame := [], d_data := cs\<rparr> else D\<lparr>d_data := cs\<rparr>)
      else if \<not> legal c then Inr (D\<lparr>d_data := cs, d_inFrame := False\<rparr>)
      else if d_escaping D \<or> (c \<noteq> eof \<and> c \<noteq> esc) then Inr (store_char n c (D\<lparr>d_data := cs\<rparr>))
      else if c = eof then Inl (d_frame D, initializeFrame (D\<lparr>d_data := cs\<rparr>))
      else Inr (D\<lparr>d_data := cs, d_escaping := True\<rparr>))"
  by (auto simp: scan_char_def mark_scanner_def Let_def)

lemma scan_noise:
  assumes "sof \<notin> set noise" "\<not> d_inFrame D"
  shows "scan_loop (mark_scanner sof eof esc legal) n (D\<lparr>d_data := noise @ rest\<rparr>) =
    scan_loop (mark_scanner sof eof esc legal) n (D\<lparr>d_data := rest\<rparr>)"
  using assms
proof (induction noise)
  case (Cons c noise)
  have "scan_char (mark_scanner sof eof esc legal) n c (noise @ rest) (D\<lparr>d_data := (c # noise) @ rest\<rparr>) =
      Inr (D\<lparr>d_data := noise @ rest\<rparr>)"
    using Cons.prems by (auto simp: scan_char_mark)
  then show ?case
    using Cons by (simp add: scan_loop_Cons)
qed simp

lemma scan_payload:
  assumes "esc \<noteq> NUL" "esc \<noteq> eof" "legal esc" "legal eof" "\<forall>c \<in> set p. legal c"
    and "d_inFrame D" "\<not> d_escaping D" "length (d_frame D) + length p \<le> n"
  shows "scan_loop (mark_scanner sof eof esc legal) n (D\<lparr>d_data := escaped eof esc p @ eof # rest\<rparr>) =
    (Some (d_frame D @ p), initializeFrame (D\<lparr>d_data := rest\<rparr>))"
  using assms(5-)
proof (induction p arbitrary: D)
  case Nil
  then show ?case
    using assms(2,4) by (simp add: escaped_def scan_loop_Cons scan_char_mark initializeFrame_def)
next
  case (Cons c p)
  let ?v = "mark_scanner sof eof esc legal" and ?tail = "escaped eof esc p @ eof # rest"
  let ?D = "D\<lparr>d_frame := d_frame D @ [c], d_data := ?tail\<rparr>"
  have IH: "scan_loop ?v n ?D = (Some (d_frame D @ c # p), initializeFrame (D\<lparr>d_data := rest\<rparr>))"
    using Cons.IH [of "D\<lparr>d_frame := d_frame D @ [c]\<rparr>"] Cons.prems by (simp add: initializeFrame_def)
  show ?case
  proof (cases "c = esc \<or> c = eof")
    case True
    have "scan_char ?v n esc (c # ?tail) (D\<lparr>d_data := esc # c # ?tail\<rparr>) = Inr (D\<lparr>d_data := c # ?tail, d_escaping := True\<rparr>)"
      using assms(2,3) Cons.prems by (simp add: scan_char_mark)
    moreover have "scan_char ?v n c ?tail (D\<lparr>d_data := c # ?tail, d_escaping := True\<rparr>) = Inr ?D"
      using Cons.prems by (simp add: scan_char_mark store_char_def)
    ultimately show ?thesis
      using True assms(1) IH by (simp add: escaped_def scan_loop_Cons)
  next
    case False
    have "scan_char ?v n c ?tail (D\<lparr>d_data := c # ?tail\<rparr>) = Inr ?D"
      using False Cons.prems by (simp add: scan_char_mark store_char_def)
    then show ?thesis
      using False assms(1) IH by (simp add: escaped_def scan_loop_Cons)
  qed
qed

definition frame_text :: "char \<Rightarrow> char \<Rightarrow> char \<Rightarrow> string \<Rightarrow> string" where
  "frame_text sof eof esc p = (if sof = NUL then [] else [sof]) @ escaped eof esc p @ [eof]"

lemma scan_loop_frame:
  assumes "sof \<notin> set noise" "sof \<noteq> NUL" "esc \<noteq> NUL" "esc \<noteq> eof" "legal esc" "legal eof" "\<forall>c \<in> set p. legal c" "length p \<le> n"
  shows "scan_loop (mark_scanner sof eof esc legal) n ((initializeFrame D)\<lparr>d_data := noise @ frame_text sof eof esc p @ rest\<rparr>) =
    (Some p, (initializeFrame D)\<lparr>d_data := rest\<rparr>)"
proof -
  let ?v = "mark_scanner sof eof esc legal" and ?D = "initializeFrame D"
  have idle: "\<not> d_inFrame ?D"
    by (simp add: initializeFrame_def)
  have "scan_loop ?v n (?D\<lparr>d_data := sof # escaped eof esc p @ eof # rest\<rparr>) =
      scan_loop ?v n (D\<lparr>d_inFrame := True, d_escaping := False, d_frame := [], d_data := escaped eof esc p @ eof # rest\<rparr>)"
    by (simp add: scan_loop_Cons scan_char_mark initializeFrame_def)
  also have "\<dots> = (Some p, ?D\<lparr>d_data := rest\<rparr>)"
    using scan_payload [OF assms(3-7), of "D\<lparr>d_inFrame := True, d_escaping := False, d_frame := []\<rparr>" n sof rest] assms(8) by (simp add: initializeFrame_def)
  finally show ?thesis
    using scan_noise [OF assms(1) idle] assms(2) by (simp add: frame_text_def)
qed

context char_source
begin

text \<open>The next frame of the input is found, and the input is left at the end of it.\<close>

lemma scan_finds_frame:
  assumes "ready i" "d_data D @ unread i = noise @ frame_text sof eof esc p @ rest"
    and "sof \<notin> set noise" "sof \<noteq> NUL" "esc \<noteq> NUL" "esc \<noteq> eof" "legal esc" "legal eof" "\<forall>c \<in> set p. legal c" "length p \<le> n"
  shows "\<exists>D' i'. scan rd (mark_scanner sof eof esc legal) True n D i = Some (Inr (Some p, D', i')) \<and> ready i' \<and>
    d_data D' @ unread i' = rest"
proof -
  have "d_data (initializeFrame D) @ unread i = noise @ frame_text sof eof esc p @ rest"
    using assms(2) by (simp add: initializeFrame_def)
  then have "scan_loop (mark_scanner sof eof esc legal) n ((initializeFrame D)\<lparr>d_data := d_data (initializeFrame D) @ unread i\<rparr>) =
      (Some p, (initializeFrame D)\<lparr>d_data := rest\<rparr>)"
    using scan_loop_frame [where legal = legal, OF assms(3-)] by simp
  from scan_frames_text [OF assms(1) this] show ?thesis
    by (auto simp: scan_def dest!: arg_cong [where f = d_data])
qed

end

subsection \<open>Encoding\<close>

text \<open>The characters that an encoder marks its frames with never change.\<close>

abbreviation marks :: "'d encoder \<Rightarrow> char \<times> char \<times> char \<times> bool" where
  "marks E \<equiv> (e_sof E, e_eof E, e_esc E, e_appendNewline E)"

text \<open>What the encoder needs from a destination, for texts that fit.\<close>

locale text_sink =
  fixes v :: "'d destination"
    and idle :: "'d \<Rightarrow> string \<Rightarrow> bool"
    and receives :: "'d \<Rightarrow> string \<Rightarrow> bool"
    and fits :: "string \<Rightarrow> bool"
    and kept :: "string \<Rightarrow> string"
  assumes fits_prefix: "fits (t @ u) \<Longrightarrow> fits t"
    and start_with: "idle d t \<Longrightarrow> fits (kept t @ [c]) \<Longrightarrow> \<exists>d'. start_with v c d = Inr (True, d') \<and> receives d' (kept t @ [c])"
    and start_plain: "idle d t \<Longrightarrow> fits (kept t) \<Longrightarrow> \<exists>d'. start_plain v d = Inr (True, d') \<and> receives d' (kept t)"
    and append_char: "receives d t \<Longrightarrow> fits (t @ [c]) \<Longrightarrow> \<exists>d'. append_char v c d = Inr (True, d') \<and> receives d' (t @ [c])"
begin

lemma output_char_text:
  assumes "e_inFrame E" "receives (e_dst E) t" "fits (t @ escaped (e_eof E) (e_esc E) [c])"
  shows "\<exists>d. output_char v c E = Inr (True, E\<lparr>e_dst := d\<rparr>) \<and> receives d (t @ escaped (e_eof E) (e_esc E) [c])"
proof (cases "e_esc E \<noteq> NUL \<and> (c = e_esc E \<or> c = e_eof E)")
  case True
  then have esc: "escaped (e_eof E) (e_esc E) [c] = [e_esc E] @ [c]"
    by (simp add: escaped_def)
  then have fit: "fits (t @ [e_esc E])" "fits ((t @ [e_esc E]) @ [c])"
    using assms(3) fits_prefix [of "t @ [e_esc E]" "[c]"] by simp_all
  obtain d1 where d1: "append_char v (e_esc E) (e_dst E) = Inr (True, d1)" "receives d1 (t @ [e_esc E])"
    using append_char [OF assms(2) fit(1)] by blast
  obtain d2 where "append_char v c d1 = Inr (True, d2)" "receives d2 ((t @ [e_esc E]) @ [c])"
    using append_char [OF d1(2) fit(2)] by blast
  then show ?thesis
    using True assms(1) d1(1) esc by (auto simp: output_char_def to_dst_def)
next
  case False
  then have esc: "escaped (e_eof E) (e_esc E) [c] = [c]"
    by (simp add: escaped_def)
  then obtain d1 where "append_char v c (e_dst E) = Inr (True, d1)" "receives d1 (t @ [c])"
    using append_char [OF assms(2), of c] assms(3) by auto
  then show ?thesis
    using False assms(1) esc by (auto simp: output_char_def to_dst_def)
qed

lemma output_string_text:
  "e_inFrame E \<Longrightarrow> receives (e_dst E) t \<Longrightarrow> fits (t @ escaped (e_eof E) (e_esc E) p) \<Longrightarrow>
   \<exists>d. output_string v p E = Inr (True, E\<lparr>e_dst := d\<rparr>) \<and> receives d (t @ escaped (e_eof E) (e_esc E) p)"
proof (induction p arbitrary: E t)
  case Nil
  then show ?case
    by (auto simp: escaped_def intro!: exI [of _ "e_dst E"])
next
  case (Cons c p)
  let ?cs = "escaped (e_eof E) (e_esc E) [c]" and ?tail = "escaped (e_eof E) (e_esc E) p"
  have split: "escaped (e_eof E) (e_esc E) (c # p) = ?cs @ ?tail"
    by (simp add: escaped_def)
  have "fits (t @ ?cs)"
    using Cons.prems(3) fits_prefix [of "t @ ?cs" ?tail] by (simp add: split)
  then obtain d where d: "output_char v c E = Inr (True, E\<lparr>e_dst := d\<rparr>)" "receives d (t @ ?cs)"
    using output_char_text [OF Cons.prems(1,2)] by blast
  show ?case
    using Cons.IH [of "E\<lparr>e_dst := d\<rparr>" "t @ ?cs"] Cons.prems d by (simp add: split)
qed

lemma start_text:
  assumes "idle (e_dst E) t" "\<not> e_inFrame E" "fits (kept t @ (if e_sof E = NUL then [] else [e_sof E]))"
  shows "\<exists>d. startFrame v E = Inr (True, E\<lparr>e_inFrame := True, e_dst := d\<rparr>) \<and>
    receives d (kept t @ (if e_sof E = NUL then [] else [e_sof E]))"
  using start_with [OF assms(1), of "e_sof E"] start_plain [OF assms(1)] assms(2,3)
  by (cases "e_sof E = NUL") (auto simp: startFrame_def to_dst_def)

lemma end_text:
  assumes "e_inFrame E" "receives (e_dst E) t"
    and "fits (t @ e_eof E # (if e_appendNewline E then escaped (e_eof E) (e_esc E) newline else []))"
  shows "\<exists>E'. endFrame v newline E = Inr (True, E') \<and> \<not> e_inFrame E' \<and> marks E' = marks E \<and>
    receives (e_dst E') (t @ e_eof E # (if e_appendNewline E then escaped (e_eof E) (e_esc E) newline else []))"
proof -
  have "fits (t @ [e_eof E])"
    using assms(3) fits_prefix [of "t @ [e_eof E]"] by simp
  then obtain d where d: "append_char v (e_eof E) (e_dst E) = Inr (True, d)" "receives d (t @ [e_eof E])"
    using append_char [OF assms(2)] by blast
  show ?thesis
  proof (cases "e_appendNewline E")
    case True
    let ?E = "E\<lparr>e_dst := d, e_inFrame := True\<rparr>"
    obtain d' where "output_string v newline ?E = Inr (True, ?E\<lparr>e_dst := d'\<rparr>)"
        "receives d' (t @ e_eof E # escaped (e_eof E) (e_esc E) newline)"
      using output_string_text [of ?E "t @ [e_eof E]" newline] d(2) assms(3) True by auto
    then show ?thesis
      using True assms(1) d(1) by (auto simp: endFrame_def to_dst_def)
  qed (use assms(1) d in \<open>auto simp: endFrame_def to_dst_def\<close>)
qed

end

text \<open>A client sends a frame.\<close>

definition send_frame :: "'d destination \<Rightarrow> ('d encoder \<Rightarrow> (bool \<times> 'd encoder) result) \<Rightarrow> string \<Rightarrow> 'd encoder \<Rightarrow> (bool \<times> 'd encoder) result" where
  "send_frame v finish p E =
     bindR (startFrame v E) (\<lambda>(ok, E). if \<not> ok then Inr (False, E)
     else bindR (output_string v p E) (\<lambda>(ok, E). if \<not> ok then Inr (False, E) else finish E))"

definition sent_text :: "'d encoder \<Rightarrow> string \<Rightarrow> string \<Rightarrow> string" where
  "sent_text E newline p = frame_text (e_sof E) (e_eof E) (e_esc E) p @ (if e_appendNewline E then escaped (e_eof E) (e_esc E) newline else [])"

context text_sink
begin

lemma send_text:
  assumes "idle (e_dst E) t" "\<not> e_inFrame E" "fits (kept t @ sent_text E newline p)"
  shows "\<exists>E'. send_frame v (endFrame v newline) p E = Inr (True, E') \<and> \<not> e_inFrame E' \<and> marks E' = marks E \<and>
    receives (e_dst E') (kept t @ sent_text E newline p)"
proof -
  let ?sof = "if e_sof E = NUL then [] else [e_sof E]" and ?p = "escaped (e_eof E) (e_esc E) p"
    and ?closing = "e_eof E # (if e_appendNewline E then escaped (e_eof E) (e_esc E) newline else [])"
  have all: "kept t @ sent_text E newline p = ((kept t @ ?sof) @ ?p) @ ?closing"
    by (simp add: sent_text_def frame_text_def)
  note fit = assms(3) [unfolded all]
  obtain d1 where d1: "startFrame v E = Inr (True, E\<lparr>e_inFrame := True, e_dst := d1\<rparr>)" "receives d1 (kept t @ ?sof)"
    using start_text [OF assms(1,2) fits_prefix [OF fits_prefix [OF fit]]] by blast
  let ?E1 = "E\<lparr>e_inFrame := True, e_dst := d1\<rparr>"
  obtain d2 where d2: "output_string v p ?E1 = Inr (True, ?E1\<lparr>e_dst := d2\<rparr>)" "receives d2 ((kept t @ ?sof) @ ?p)"
    using output_string_text [of ?E1 "kept t @ ?sof" p] d1(2) fits_prefix [OF fit] by auto
  obtain E3 where "endFrame v newline (?E1\<lparr>e_dst := d2\<rparr>) = Inr (True, E3)" "\<not> e_inFrame E3" "marks E3 = marks E"
      "receives (e_dst E3) (((kept t @ ?sof) @ ?p) @ ?closing)"
    using end_text [of "?E1\<lparr>e_dst := d2\<rparr>" "(kept t @ ?sof) @ ?p" newline] d2(2) fit by (auto cong: if_cong)
  then show ?thesis
    using d1(1) d2(1) unfolding all by (auto simp: send_frame_def)
qed

end

interpretation string_sink: text_sink "string_destination app"
    "\<lambda>d t. text_rel d \<lparr>lt_text = t, lt_max = n, lt_truncated = False\<rparr>"
    "\<lambda>d t. text_rel d \<lparr>lt_text = t, lt_max = n, lt_truncated = False\<rparr>"
    "\<lambda>t. length t \<le> n \<and> NUL \<notin> set t" "\<lambda>t. if app then t else []" for app n
proof unfold_locales
  fix d t c
  let ?a = "\<lambda>t. \<lparr>lt_text = t, lt_max = n, lt_truncated = False\<rparr>"
  assume d: "text_rel d (?a t)"
  show "length ((if app then t else []) @ [c]) \<le> n \<and> NUL \<notin> set ((if app then t else []) @ [c]) \<Longrightarrow>
      \<exists>d'. start_with (string_destination app) c d = Inr (True, d') \<and> text_rel d' (?a ((if app then t else []) @ [c]))"
    using vformat_refines [OF d, of "[c]" app] by (auto simp: string_destination_def String_start_def limit_def text_rel_def)
  show "length (if app then t else []) \<le> n \<and> NUL \<notin> set (if app then t else []) \<Longrightarrow>
      \<exists>d'. start_plain (string_destination app) d = Inr (True, d') \<and> text_rel d' (?a (if app then t else []))"
    using string_clear_refines [OF d] d by (auto simp: string_destination_def String_start_plain_def retext_def text_rel_def)
  show "length (t @ [c]) \<le> n \<and> NUL \<notin> set (t @ [c]) \<Longrightarrow>
      \<exists>d'. append_char (string_destination app) c d = Inr (True, d') \<and> text_rel d' (?a (t @ [c]))"
    using assign_refines(4) [OF d, of c] by (auto simp: string_destination_def String_append_def char_text_def text_rel_def)
qed auto

text \<open>An output stream that takes everything.\<close>

definition accept_char :: "char \<Rightarrow> string \<Rightarrow> bool \<times> string" where
  "accept_char c out = (True, out @ [c])"

definition accept_block :: "char list \<Rightarrow> string \<Rightarrow> bool \<times> string" where
  "accept_block cs out = (True, out @ cs)"

interpretation stream_sink: text_sink "stream_destination accept_char" "\<lambda>d t. d = Some t" "\<lambda>d t. d = Some t" "\<lambda>_. True" "\<lambda>t. t"
  by unfold_locales (auto simp: stream_destination_def Stream_append_def Stream_start_def accept_char_def)

definition block_receives :: "string block \<Rightarrow> string \<Rightarrow> bool" where
  "block_receives b t \<longleftrightarrow> length (b_buffer b) = b_bufferSize b \<and> b_bufferCount b < b_bufferSize b \<and>
     (\<exists>out. b_dst b = Some out \<and> t = out @ take (b_bufferCount b) (b_buffer b))"

definition block_idle :: "string block \<Rightarrow> string \<Rightarrow> bool" where
  "block_idle b t \<longleftrightarrow> length (b_buffer b) = b_bufferSize b \<and> 0 < b_bufferSize b \<and> b_dst b = Some t"

lemma appendToBlock_text:
  assumes "block_receives b t"
  shows "\<exists>b'. appendToBlock accept_block c b = Inr (True, b') \<and> block_receives b' (t @ [c])"
proof -
  obtain out where b: "length (b_buffer b) = b_bufferSize b" "b_bufferCount b < b_bufferSize b"
      "b_dst b = Some out" "t = out @ take (b_bufferCount b) (b_buffer b)"
    using assms by (auto simp: block_receives_def)
  let ?buf = "take (b_bufferCount b) (b_buffer b) @ c # drop (Suc (b_bufferCount b)) (b_buffer b)"
  have "write_block (b_bufferCount b) [c] (b_buffer b) = Inr ?buf"
    using b(1,2) by (simp add: write_block_def)
  then show ?thesis
    using b by (cases "Suc (b_bufferCount b) < b_bufferSize b")
      (auto simp: appendToBlock_def accept_block_def block_receives_def min_def take_Suc_conv_app_nth)
qed

interpretation block_sink: text_sink "block_destination accept_block" block_idle block_receives "\<lambda>_. True" "\<lambda>t. t"
proof unfold_locales
  fix d t c
  assume "block_idle d t"
  then have start: "block_receives (d\<lparr>b_bufferCount := 0\<rparr>) t"
    by (simp add: block_idle_def block_receives_def)
  show "\<exists>d'. start_with (block_destination accept_block) c d = Inr (True, d') \<and> block_receives d' (t @ [c])"
    using appendToBlock_text [OF start] by (simp add: block_destination_def Block_start_def)
  show "\<exists>d'. start_plain (block_destination accept_block) d = Inr (True, d') \<and> block_receives d' t"
    using start by (simp add: block_destination_def Block_start_plain_def)
qed (auto simp: block_destination_def appendToBlock_text)

lemma escaped_set: "set (escaped eof esc p) \<subseteq> insert esc (set p)"
  by (auto simp: escaped_def)

definition printable :: "char \<Rightarrow> bool" where
  "printable c \<longleftrightarrow> 0x20 \<le> (of_char c :: int) \<and> (of_char c :: int) \<le> 0x7E"

lemma printable_value:
  assumes "printable c"
  shows "0x20 \<le> char_value sc c" "char_value sc c \<le> 0x7E" "\<not> line_eof c" "line_tab t c = c"
proof -
  have v: "char_value sc c = of_char c"
    using assms by (simp add: char_value_def Let_def printable_def)
  show "0x20 \<le> char_value sc c" "char_value sc c \<le> 0x7E"
    using assms unfolding v printable_def by linarith+
  show "\<not> line_eof c" "line_tab t c = c"
    using assms by (auto simp: printable_def line_eof_def line_tab_def)
qed

text \<open>
  The characters that the constructor of \<open>AsciiDecoder\<close> documents as accepted inside a frame. The decoder takes all of
  them; where \<open>char\<close> is signed and the decoder is not restricted, it takes every other character as well.
\<close>

definition ascii_documented :: "bool \<Rightarrow> char \<Rightarrow> bool" where
  "ascii_documented restricted c \<longleftrightarrow> (if restricted then printable c else (of_char c :: int) \<le> 0x7F)"

lemma ascii_documented_legal: "ascii_documented restricted c \<Longrightarrow> ascii_legal sc restricted c"
  by (auto simp: ascii_documented_def ascii_legal_def printable_def char_value_def Let_def split: if_splits)

lemma ascii_accepts_all_characters: "ascii_legal True False c"
proof -
  have "(of_char c :: int) < 256"
    using pos_mod_bound [of 256 "of_char c :: int"] by (simp only: of_char_mod_256)
  then show ?thesis
    by (simp add: ascii_legal_def char_value_def Let_def)
qed

text \<open>The lines of a text: the line decoder skips empty lines.\<close>

lemma scan_line_body:
  assumes "\<forall>c \<in> set p. printable c" "line_eof nl"
    and "d_inFrame D" "\<not> d_escaping D" "\<not> d_ext D" "length (d_frame D) + length p \<le> n"
  shows "scan_loop (line_scanner sc tab) n (D\<lparr>d_data := p @ nl # rest\<rparr>) =
    (Some (d_frame D @ p), initializeFrame (D\<lparr>d_data := rest\<rparr>))"
  using assms(1,3-)
proof (induction p arbitrary: D)
  case Nil
  then show ?case
    using assms(2)
    by (simp add: scan_loop_Cons scan_char_def line_scanner_def line_isLegalCharacter_def Let_def initializeFrame_def)
      (auto simp: line_eof_def line_tab_def)
next
  case (Cons c p)
  have pr: "0x20 \<le> char_value sc c" "char_value sc c \<le> 0x7E" "\<not> line_eof c" "line_tab tab c = c"
    using printable_value [of c] Cons.prems(1) by simp_all
  have "scan_char (line_scanner sc tab) n c (p @ nl # rest) (D\<lparr>d_data := c # p @ nl # rest\<rparr>) =
      Inr (D\<lparr>d_frame := d_frame D @ [c], d_data := p @ nl # rest\<rparr>)"
    using Cons.prems pr by (simp add: scan_char_def line_scanner_def line_isLegalCharacter_def Let_def store_char_def)
  then show ?case
    using Cons.IH [of "D\<lparr>d_frame := d_frame D @ [c]\<rparr>"] Cons.prems by (simp add: scan_loop_Cons initializeFrame_def)
qed

lemma line_eof_value:
  assumes "line_eof c"
  shows "line_tab t c = c" "char_value sc c < 0x20"
proof -
  have "c = CHR 0x0A \<or> c = CHR 0x0D"
    using assms by (simp add: line_eof_def)
  then show "line_tab t c = c" "char_value sc c < 0x20"
    by (elim disjE; simp add: line_tab_def char_value_def)+
qed

lemma scan_line_gap:
  assumes "\<forall>c \<in> set gap. line_eof c" "\<not> d_inFrame D" "\<not> d_ext D"
  shows "scan_loop (line_scanner sc tab) n (D\<lparr>d_data := gap @ rest\<rparr>) = scan_loop (line_scanner sc tab) n (D\<lparr>d_data := rest\<rparr>)"
  using assms
proof (induction gap)
  case (Cons c gap)
  have c: "line_tab tab c = c" "char_value sc c < 0x20"
    using Cons.prems(1) line_eof_value [of c] by simp_all
  moreover have "D\<lparr>d_ext := False\<rparr> = D"
    using Cons.prems(3) by (cases D) simp
  ultimately have "scan_char (line_scanner sc tab) n c (gap @ rest) (D\<lparr>d_data := (c # gap) @ rest\<rparr>) = Inr (D\<lparr>d_data := gap @ rest\<rparr>)"
    using Cons.prems by (simp add: scan_char_def line_scanner_def line_isStartOfFrame_def Let_def)
  then show ?case
    using scan_loop_Cons [of "D\<lparr>d_data := (c # gap) @ rest\<rparr>" c "gap @ rest" "line_scanner sc tab" n] Cons.IH Cons.prems by simp
qed simp

lemma scan_line:
  assumes "\<forall>c \<in> set gap. line_eof c" "\<forall>c \<in> set p. printable c" "p \<noteq> []" "line_eof nl" "length p \<le> n" "\<not> d_ext D"
  shows "scan_loop (line_scanner sc tab) n ((initializeFrame D)\<lparr>d_data := gap @ p @ nl # rest\<rparr>) =
    (Some p, (initializeFrame D)\<lparr>d_data := rest\<rparr>)"
proof -
  let ?D = "initializeFrame D"
  obtain c q where p: "p = c # q"
    using assms(3) by (cases p) auto
  then have pr: "0x20 \<le> char_value sc c" "char_value sc c \<le> 0x7E" "\<not> line_eof c" "line_tab tab c = c"
    using printable_value [of c] assms(2) by simp_all
  have idle: "\<not> d_inFrame ?D" "\<not> d_ext ?D"
    using assms(6) by (simp_all add: initializeFrame_def)
  have "scan_char (line_scanner sc tab) n c (q @ nl # rest) (?D\<lparr>d_data := p @ nl # rest\<rparr>) =
      Inr (?D\<lparr>d_inFrame := True, d_data := p @ nl # rest\<rparr>)"
    using assms(6) pr p by (simp add: scan_char_def line_scanner_def line_isStartOfFrame_def Let_def initializeFrame_def)
  then have "scan_loop (line_scanner sc tab) n (?D\<lparr>d_data := p @ nl # rest\<rparr>) =
      scan_loop (line_scanner sc tab) n (?D\<lparr>d_inFrame := True, d_data := p @ nl # rest\<rparr>)"
    using scan_loop_Cons [of "?D\<lparr>d_data := p @ nl # rest\<rparr>" c "q @ nl # rest"] p by simp
  also have "\<dots> = (Some p, ?D\<lparr>d_data := rest\<rparr>)"
    using scan_line_body [OF assms(2,4), of "?D\<lparr>d_inFrame := True\<rparr>" n sc tab rest] assms(5,6)
    by (simp add: initializeFrame_def)
  finally show ?thesis
    unfolding scan_line_gap [OF assms(1) idle] .
qed

context char_source
begin

lemma scan_finds_line:
  assumes "ready i" "d_data D @ unread i = gap @ p @ nl # rest"
    and "\<forall>c \<in> set gap. line_eof c" "\<forall>c \<in> set p. printable c" "p \<noteq> []" "line_eof nl" "length p \<le> n" "\<not> d_ext D"
  shows "\<exists>D' i'. scan rd (line_scanner sc tab) True n D i = Some (Inr (Some p, D', i')) \<and> ready i' \<and>
    d_data D' @ unread i' = rest \<and> \<not> d_ext D'"
proof -
  have "d_data (initializeFrame D) @ unread i = gap @ p @ nl # rest"
    using assms(2) by (simp add: initializeFrame_def)
  then have "scan_loop (line_scanner sc tab) n ((initializeFrame D)\<lparr>d_data := d_data (initializeFrame D) @ unread i\<rparr>) =
      (Some p, (initializeFrame D)\<lparr>d_data := rest\<rparr>)"
    using scan_line [OF assms(3-)] by simp
  from scan_frames_text [OF assms(1) this] obtain D'' i' where
    r: "scan_frames rd (line_scanner sc tab) n (initializeFrame D) i = Some (Inr (Some p, D'', i'))" "ready i'"
      "(initializeFrame D)\<lparr>d_data := rest\<rparr> = D''\<lparr>d_data := d_data D'' @ unread i'\<rparr>"
    by blast
  have "d_data D'' @ unread i' = rest" "d_ext D'' = d_ext D"
    using arg_cong [OF r(3), of d_data] arg_cong [OF r(3), of d_ext] by (simp_all add: initializeFrame_def)
  then show ?thesis
    using r(1,2) assms(8) by (auto simp: scan_def)
qed

end

text \<open>
  C36. Line decoder over a stream. Whatever pieces the stream delivers its text in, the scan returns the next line that
  is not empty, when it has printable characters only and fits the frame buffer, skips the empty lines and the second half
  of a CR-LF before it, and leaves the decoder ready for the text after the line.
\<close>

theorem line_decoder_reads_line:
  assumes "d_data D @ concat pieces = gap @ p @ nl # rest" "\<not> d_ext D"
    and "list_all line_eof gap" "list_all printable p" "p \<noteq> []" "line_eof nl" "length p \<le> n"
  shows "\<exists>D' pieces'. scan (StreamDecoder_read (\<lambda>i. i \<noteq> []) next_piece blocking) (line_scanner sc tab) True n D (Some pieces) =
      Some (Inr (Some p, D', Some pieces')) \<and> d_data D' @ concat pieces' = rest \<and> \<not> d_ext D'"
proof -
  obtain D' i' where i': "scan (StreamDecoder_read (\<lambda>i. i \<noteq> []) next_piece blocking) (line_scanner sc tab) True n D (Some pieces) =
      Some (Inr (Some p, D', i'))" "i' \<noteq> None" "d_data D' @ (case i' of None \<Rightarrow> [] | Some pieces \<Rightarrow> concat pieces) = rest" "\<not> d_ext D'"
    using stream_source.scan_finds_line [of "Some pieces" D gap p nl rest n blocking sc tab] assms
    unfolding list_all_iff by auto
  then obtain pieces' where "i' = Some pieces'"
    by auto
  with i' show ?thesis
    by auto
qed

theorem line_decoder_reads_line_witness:
  "\<exists>D' pieces'. scan (StreamDecoder_read (\<lambda>i. i \<noteq> []) next_piece False) (line_scanner True CHR 0x20) True 8 (Decoder False)
      (Some [CHR 0x0A # ''bs'', [], ''p get'' @ [CHR 0x0D], ''x'']) =
      Some (Inr (Some ''bsp get'', D', Some pieces')) \<and> d_data D' @ concat pieces' = ''x'' \<and> \<not> d_ext D'"
  by (rule line_decoder_reads_line [where gap = "[CHR 0x0A]" and nl = "CHR 0x0D"])
    (simp_all add: Decoder_def line_eof_def printable_def)

subsection \<open>Round trips\<close>

text \<open>A client sends frames and another one receives them.\<close>

fun send_frames ::
  "'d destination \<Rightarrow> ('d encoder \<Rightarrow> (bool \<times> 'd encoder) result) \<Rightarrow> string list \<Rightarrow> 'd encoder \<Rightarrow> (bool \<times> 'd encoder) result" where
  "send_frames v finish [] E = Inr (True, E)"
| "send_frames v finish (p # ps) E =
     bindR (send_frame v finish p E) (\<lambda>(ok, E). if \<not> ok then Inr (False, E) else send_frames v finish ps E)"

fun receive_frames ::
  "('i \<Rightarrow> (string option \<times> 'i) result) \<Rightarrow> 'x scanner \<Rightarrow> nat \<Rightarrow> nat \<Rightarrow> 'x decoder \<Rightarrow> 'i
   \<Rightarrow> (string option list \<times> 'x decoder \<times> 'i) result option" where
  "receive_frames rd v n 0 D inp = Some (Inr ([], D, inp))"
| "receive_frames rd v n (Suc k) D inp =
     bindOR (scan rd v True n D inp) (\<lambda>(f, D, inp).
     bindOR (receive_frames rd v n k D inp) (\<lambda>(fs, D, inp). Some (Inr (f # fs, D, inp))))"

abbreviation line_ending :: "char \<times> char \<times> char \<times> bool \<Rightarrow> string \<Rightarrow> string" where
  "line_ending m newline \<equiv> case m of (sof, eof, esc, nl) \<Rightarrow> if nl then escaped eof esc newline else []"

definition sent_texts :: "char \<times> char \<times> char \<times> bool \<Rightarrow> string \<Rightarrow> string list \<Rightarrow> string" where
  "sent_texts m newline ps = (case m of (sof, eof, esc, nl) \<Rightarrow>
     concat (map (\<lambda>p. frame_text sof eof esc p @ line_ending m newline) ps))"

lemma sent_texts_simps:
  "sent_texts m newline [] = []"
  "sent_texts (marks E) newline (p # ps) = sent_text E newline p @ sent_texts (marks E) newline ps"
  by (simp_all add: sent_texts_def sent_text_def split: prod.split)

lemma stream_sends_frames:
  "e_dst E = Some t \<Longrightarrow> \<not> e_inFrame E \<Longrightarrow>
   \<exists>E'. send_frames (stream_destination accept_char) (endFrame (stream_destination accept_char) newline) ps E = Inr (True, E') \<and>
     e_dst E' = Some (t @ sent_texts (marks E) newline ps)"
proof (induction ps arbitrary: E t)
  case (Cons p ps)
  obtain E1 where E1: "send_frame (stream_destination accept_char) (endFrame (stream_destination accept_char) newline) p E = Inr (True, E1)"
      "\<not> e_inFrame E1" "marks E1 = marks E" "e_dst E1 = Some (t @ sent_text E newline p)"
    using stream_sink.send_text [of E t newline p] Cons.prems by auto
  show ?case
    using Cons.IH [OF E1(4,2)] E1(1) unfolding E1(3) by (simp add: sent_texts_simps)
qed (simp add: sent_texts_simps)

context char_source
begin

lemma receives_sent_frames:
  assumes "sof \<noteq> NUL" "esc \<noteq> NUL" "esc \<noteq> eof" "legal esc" "legal eof" "sof \<notin> set (line_ending (sof, eof, esc, nl) newline)"
    and "\<forall>p \<in> set ps. length p \<le> n \<and> (\<forall>c \<in> set p. legal c)"
    and "ready i" "sof \<notin> set noise" "d_data D @ unread i = noise @ sent_texts (sof, eof, esc, nl) newline ps @ rest"
  shows "\<exists>D' i'. receive_frames rd (mark_scanner sof eof esc legal) n (length ps) D i = Some (Inr (map Some ps, D', i')) \<and> ready i' \<and>
    d_data D' @ unread i' = (if ps = [] then noise else line_ending (sof, eof, esc, nl) newline) @ rest"
  using assms(7-)
proof (induction ps arbitrary: D i noise)
  case (Cons p ps)
  let ?nl = "line_ending (sof, eof, esc, nl) newline"
  have "d_data D @ unread i = noise @ frame_text sof eof esc p @ (?nl @ sent_texts (sof, eof, esc, nl) newline ps @ rest)"
    using Cons.prems(4) by (simp add: sent_texts_def)
  then obtain D1 i1 where 1: "scan rd (mark_scanner sof eof esc legal) True n D i = Some (Inr (Some p, D1, i1))" "ready i1"
      "d_data D1 @ unread i1 = ?nl @ sent_texts (sof, eof, esc, nl) newline ps @ rest"
    using scan_finds_frame [OF Cons.prems(2) _ Cons.prems(3) assms(1,2,3,4,5)] Cons.prems(1) by (metis list.set_intros(1))
  show ?case
    using Cons.IH [OF _ 1(2) assms(6) 1(3)] Cons.prems(1) 1(1) by (auto split: if_splits)
qed (auto simp: sent_texts_def)

end

text \<open>
  C34. Frames over a stream. Whatever frames an encoder writes to a stream, with any characters in them that the ASCII
  decoder documents as accepted (0x20 to 0x7E when restricted, 0x00 to 0x7F otherwise), also the start, end and escape
  characters, a decoder that reads the stream in any pieces, after any noise without the start character, returns exactly
  these frames in this order. The frame buffer need only hold the longest frame, and what follows the frames is left to be
  read. The end and the escape character are different and themselves accepted, the start and the escape character are
  not NUL, and where the encoder appends a newline, the newline and the escape character do not start a frame.
\<close>

theorem frame_stream_roundtrip:
  assumes "sof \<noteq> NUL" "esc \<noteq> NUL" "esc \<noteq> eof" "ascii_documented restricted esc" "ascii_documented restricted eof"
    and "\<not> nl \<or> sof \<notin> set newline \<and> sof \<noteq> esc"
    and "list_all (\<lambda>p. length p \<le> n \<and> list_all (ascii_documented restricted) p) ps" "sof \<notin> set noise"
  shows "\<exists>E' sent. send_frames (stream_destination accept_char) (endFrame (stream_destination accept_char) newline) ps
        (Encoder sof eof esc nl (Some noise)) = Inr (True, E') \<and> e_dst E' = Some sent \<and>
      (\<forall>pieces rest. concat pieces = sent @ rest \<longrightarrow>
        (\<exists>D' pieces'. receive_frames (StreamDecoder_read (\<lambda>i. i \<noteq> []) next_piece blocking) (ascii_scanner sc restricted sof eof esc)
           n (length ps) (Decoder ()) (Some pieces) = Some (Inr (map Some ps, D', Some pieces')) \<and>
           d_data D' @ concat pieces' = (if ps = [] then noise else if nl then escaped eof esc newline else []) @ rest))"
proof -
  let ?E = "Encoder sof eof esc nl (Some noise)" and ?out = "stream_destination accept_char"
  note legal = ascii_documented_legal [of restricted _ sc]
  have E: "e_dst ?E = Some noise" "\<not> e_inFrame ?E" "marks ?E = (sof, eof, esc, nl)"
    by (simp_all add: Encoder_def)
  obtain E' where E': "send_frames ?out (endFrame ?out newline) ps ?E = Inr (True, E')"
      "e_dst E' = Some (noise @ sent_texts (sof, eof, esc, nl) newline ps)"
    using stream_sends_frames [OF E(1,2), of newline ps] E(3) by auto
  have nl: "sof \<notin> set (line_ending (sof, eof, esc, nl) newline)"
    using assms(6) escaped_set [of eof esc newline] by auto
  show ?thesis
  proof (rule exI [of _ E'], rule exI [of _ "noise @ sent_texts (sof, eof, esc, nl) newline ps"], intro conjI allI impI, fact E'(1), fact E'(2))
    fix pieces rest
    assume "concat pieces = (noise @ sent_texts (sof, eof, esc, nl) newline ps) @ rest"
    then obtain D' i' where "receive_frames (StreamDecoder_read (\<lambda>i. i \<noteq> []) next_piece blocking) (ascii_scanner sc restricted sof eof esc)
           n (length ps) (Decoder ()) (Some pieces) = Some (Inr (map Some ps, D', i'))" "i' \<noteq> None"
        "d_data D' @ (case i' of None \<Rightarrow> [] | Some pieces \<Rightarrow> concat pieces) =
           (if ps = [] then noise else if nl then escaped eof esc newline else []) @ rest"
      using stream_source.receives_sent_frames [OF assms(1-3) legal [OF assms(4)] legal [OF assms(5)] nl, of ps n "Some pieces" noise "Decoder ()" rest blocking]
        assms(7,8) legal
      unfolding mark_scanners list_all_iff by (auto simp: Decoder_def)
    then show "\<exists>D' pieces'. receive_frames (StreamDecoder_read (\<lambda>i. i \<noteq> []) next_piece blocking) (ascii_scanner sc restricted sof eof esc)
           n (length ps) (Decoder ()) (Some pieces) = Some (Inr (map Some ps, D', Some pieces')) \<and>
           d_data D' @ concat pieces' = (if ps = [] then noise else if nl then escaped eof esc newline else []) @ rest"
      by auto
  qed
qed

theorem frame_stream_roundtrip_witness:
  "\<exists>E' sent. send_frames (stream_destination accept_char) (endFrame (stream_destination accept_char) [CHR 0x0A]) [''a;b~^'', []]
        (Encoder CHR ''^'' CHR '';'' CHR ''~'' True (Some ''noise'')) = Inr (True, E') \<and> e_dst E' = Some sent \<and>
      (\<forall>pieces rest. concat pieces = sent @ rest \<longrightarrow>
        (\<exists>D' pieces'. receive_frames (StreamDecoder_read (\<lambda>i. i \<noteq> []) next_piece False) (ascii_scanner True True CHR ''^'' CHR '';'' CHR ''~'')
           5 2 (Decoder ()) (Some pieces) = Some (Inr ([Some ''a;b~^'', Some []], D', Some pieces')) \<and>
           d_data D' @ concat pieces' = CHR 0x0A # rest))"
  using frame_stream_roundtrip [where sof = "CHR ''^''" and esc = "CHR ''~''" and eof = "CHR '';''" and sc = True and restricted = True and nl = True
      and newline = "[CHR 0x0A]" and n = 5 and ps = "[''a;b~^'', []]" and noise = "''noise''" and blocking = False]
  by (simp add: ascii_documented_def printable_def escaped_def eval_nat_numeral del: send_frames.simps receive_frames.simps)

text \<open>A block encoder ends a frame like the other encoders and then writes what is left in its buffer.\<close>

lemma send_frame_flush:
  assumes "\<And>E. flush (False, E) = Inr (False, E)"
  shows "send_frame v (\<lambda>E. bindR (finish E) flush) p E = bindR (send_frame v finish p E) flush"
  using assms
  by (cases "startFrame v E"; cases "output_string v p (snd (projr (startFrame v E)))") (auto simp: send_frame_def simp del: bindR_eq_Inr)

lemma block_sends_frame:
  assumes "block_idle (e_dst E) t" "\<not> e_inFrame E"
  shows "\<exists>E'. send_frame (block_destination accept_block) (Block_endFrame accept_block newline) p E = Inr (True, E') \<and>
    \<not> e_inFrame E' \<and> marks E' = marks E \<and> block_idle (e_dst E') (t @ sent_text E newline p)"
proof -
  obtain E1 where E1: "send_frame (block_destination accept_block) (endFrame (block_destination accept_block) newline) p E = Inr (True, E1)"
      "\<not> e_inFrame E1" "marks E1 = marks E" "block_receives (e_dst E1) (t @ sent_text E newline p)"
    using block_sink.send_text [OF assms] by auto
  show ?thesis
    unfolding Block_endFrame_def
    by (subst send_frame_flush) (use E1 in \<open>auto simp: block_receives_def block_idle_def accept_block_def\<close>)
qed

lemma block_sends_frames:
  "block_idle (e_dst E) t \<Longrightarrow> \<not> e_inFrame E \<Longrightarrow>
   \<exists>E'. send_frames (block_destination accept_block) (Block_endFrame accept_block newline) ps E = Inr (True, E') \<and>
     b_dst (e_dst E') = Some (t @ sent_texts (marks E) newline ps)"
proof (induction ps arbitrary: E t)
  case (Cons p ps)
  obtain E1 where E1: "send_frame (block_destination accept_block) (Block_endFrame accept_block newline) p E = Inr (True, E1)"
      "\<not> e_inFrame E1" "marks E1 = marks E" "block_idle (e_dst E1) (t @ sent_text E newline p)"
    using block_sends_frame [OF Cons.prems, of newline p] by auto
  show ?case
    using Cons.IH [OF E1(4,2)] E1(1) unfolding E1(3) by (simp add: sent_texts_simps)
qed (simp add: sent_texts_simps block_idle_def)

text \<open>
  C35. Buffered encoding. For a buffer of any size but zero, and whatever it holds at the beginning, the block encoder puts the
  same characters on its output as the unbuffered stream encoder: at the end of every frame nothing is left in the buffer.
\<close>

theorem block_encoder_equals_stream:
  assumes "buf \<noteq> []"
  shows "\<exists>B' S'. send_frames (block_destination accept_block) (Block_endFrame accept_block newline) ps
        (Encoder sof eof esc nl \<lparr>b_dst = Some out, b_buffer = buf, b_bufferSize = length buf, b_bufferCount = k\<rparr>) = Inr (True, B') \<and>
      send_frames (stream_destination accept_char) (endFrame (stream_destination accept_char) newline) ps
        (Encoder sof eof esc nl (Some out)) = Inr (True, S') \<and>
      b_dst (e_dst B') = e_dst S'"
  using block_sends_frames [of "Encoder sof eof esc nl \<lparr>b_dst = Some out, b_buffer = buf, b_bufferSize = length buf, b_bufferCount = k\<rparr>" out newline ps]
    stream_sends_frames [of "Encoder sof eof esc nl (Some out)" out newline ps] assms
  by (auto simp: Encoder_def block_idle_def)

theorem block_encoder_equals_stream_witness:
  "\<exists>B' S'. send_frames (block_destination accept_block) (Block_endFrame accept_block [CHR 0x0A]) [''abc;'', ''d'']
        (Encoder CHR ''^'' CHR '';'' CHR ''~'' True \<lparr>b_dst = Some [], b_buffer = ''xx'', b_bufferSize = 2, b_bufferCount = 1\<rparr>) = Inr (True, B') \<and>
      send_frames (stream_destination accept_char) (endFrame (stream_destination accept_char) [CHR 0x0A]) [''abc;'', ''d'']
        (Encoder CHR ''^'' CHR '';'' CHR ''~'' True (Some [])) = Inr (True, S') \<and>
      b_dst (e_dst B') = e_dst S'"
  using block_encoder_equals_stream [of "''xx''" "[CHR 0x0A]" "[''abc;'', ''d'']" "CHR ''^''" "CHR '';''" "CHR ''~''" True "[]" 1]
  by (simp add: eval_nat_numeral del: send_frames.simps)

lemma escaped_length: "length (escaped eof esc p) \<le> 2 * length p"
  by (induction p) (auto simp: escaped_def)

text \<open>
  Frames in strings. A frame encoded into a string that has room for it, whatever characters it has, is decoded
  from that string to exactly the characters that went in.
\<close>

lemma frame_string_roundtrip:
  assumes "sof \<noteq> NUL" "eof \<noteq> NUL" "esc \<noteq> NUL" "esc \<noteq> eof" "NUL \<notin> set p" "NUL \<notin> set newline" "length p \<le> n"
    and "2 * length p + 2 * length newline + 2 < length mem"
  shows "\<exists>E' sent. bindR (FString (Some []) (Some mem)) (\<lambda>dst.
          send_frame (string_destination False) (endFrame (string_destination False) newline) p (Encoder sof eof esc nl dst)) = Inr (True, E') \<and>
      holds_text (length mem - 1) sent (m_strPtr (e_dst E')) \<and>
      (\<exists>D' i'. scan StringDecoder_read (string_scanner sof eof esc) True n (Decoder ()) (StringDecoder_setInput (Some sent)) =
         Some (Inr (Some p, D', i')))"
proof -
  let ?a = "\<lambda>t. \<lparr>lt_text = t, lt_max = length mem - 1, lt_truncated = False\<rparr>"
  obtain dst where dst: "FString (Some []) (Some mem) = Inr dst" "text_rel dst (?a [])"
    using new_string [of mem "[]"] assms(8) by (cases mem) auto
  let ?E = "Encoder sof eof esc nl dst"
  let ?nl = "if nl then escaped eof esc newline else []"
  have sent: "sent_text ?E newline p = frame_text sof eof esc p @ ?nl"
    by (simp add: sent_text_def Encoder_def)
  have "length (sent_text ?E newline p) \<le> length mem - 1" "NUL \<notin> set (sent_text ?E newline p)"
    using assms escaped_length [of eof esc p] escaped_length [of eof esc newline] escaped_set [of eof esc p] escaped_set [of eof esc newline]
    unfolding sent by (auto simp: frame_text_def)
  then obtain E' where "send_frame (string_destination False) (endFrame (string_destination False) newline) p ?E = Inr (True, E')"
      "text_rel (e_dst E') (?a (sent_text ?E newline p))"
    using string_sink.send_text [of ?E "[]" "length mem - 1" False newline p] dst(2) by (auto simp: Encoder_def)
  moreover have "\<forall>c \<in> set p. c \<noteq> NUL"
    using assms(5) by auto
  then have "\<exists>D' i'. scan StringDecoder_read (string_scanner sof eof esc) True n (Decoder ())
      (StringDecoder_setInput (Some (sent_text ?E newline p))) = Some (Inr (Some p, D', i'))"
    using string_source.scan_finds_frame [of "StringDecoder_setInput (Some (sent_text ?E newline p))" "Decoder ()" "[]" sof eof esc p ?nl "\<lambda>c. c \<noteq> NUL" n] assms(1-7)
    unfolding mark_scanners sent by (auto simp: StringDecoder_setInput_def Decoder_def)
  ultimately show ?thesis
    using dst(1) by (auto simp: text_rel_def)
qed

lemma frame_string_roundtrip_witness:
  "\<exists>E' sent. bindR (FString (Some []) (Some (replicate 16 NUL))) (\<lambda>dst.
          send_frame (string_destination False) (endFrame (string_destination False) []) ''a.;b~'' (Encoder CHR ''.'' CHR '';'' CHR ''~'' False dst)) = Inr (True, E') \<and>
      holds_text 15 sent (m_strPtr (e_dst E')) \<and>
      (\<exists>D' i'. scan StringDecoder_read (string_scanner CHR ''.'' CHR '';'' CHR ''~'') True 5 (Decoder ()) (StringDecoder_setInput (Some sent)) =
         Some (Inr (Some ''a.;b~'', D', i')))"
  using frame_string_roundtrip [of "CHR ''.''" "CHR '';''" "CHR ''~''" "''a.;b~''" "[]" 5 "replicate 16 NUL" False]
  by (simp del: bindR_eq_Inr)

end
