(* ===== verification/Model_Point.thy ===== *)
theory Model_Point
  imports Prelude
begin

text \<open>
  The data model of Colony.Core (src/src/Cpl/Dm/ModelPointCommon_.cpp, Subscriber.cpp, EventLoop.cpp,
  Mp/RefCounter.cpp, Mp/Numeric.h). A model point is a value with a valid flag, a lock and a sequence
  number; subscribers are told when it changes.

  The first part is the point itself, as the components of the thermostat read and write it. The
  second part is the subscription protocol between one model point, its subscribers and the event
  loops that deliver the notifications: objects are numbers, the intrusive lists are lists of
  numbers, and putting an object into a list while it is in another one is the fatal error of
  Cpl::Container::Item. The third part is the reference counter.

  The value that \<open>memset\<close> gives the data of an invalid point is the field \<open>m_zero\<close>. The mutex of the
  model database makes each operation atomic, so it does not appear.
\<close>

datatype LockRequest_T = eNO_REQUEST | eLOCK | eUNLOCK

record 'a point =
  m_data :: 'a
  m_zero :: 'a
  m_seqNum :: u16
  m_locked :: bool
  m_valid :: bool

abbreviation (input) SEQUENCE_NUMBER_UNKNOWN :: u16 where
  "SEQUENCE_NUMBER_UNKNOWN \<equiv> 0"

definition ModelPointCommon :: "'a \<Rightarrow> 'a \<Rightarrow> bool \<Rightarrow> 'a point" where
  "ModelPointCommon initial zero isValid =
     \<lparr>m_data = (if isValid then initial else zero), m_zero = zero,
      m_seqNum = SEQUENCE_NUMBER_UNKNOWN + 1, m_locked = False, m_valid = isValid\<rparr>"

definition testAndUpdateLock :: "LockRequest_T \<Rightarrow> 'a point \<Rightarrow> bool \<times> 'a point" where
  "testAndUpdateLock lockRequest p =
     (if lockRequest = eUNLOCK then (True, p\<lparr>m_locked := False\<rparr>)
      else if lockRequest = eLOCK then (True, p\<lparr>m_locked := True\<rparr>)
      else if \<not> m_locked p then (True, p)
      else (False, p))"

definition advanceSequenceNumber :: "'a point \<Rightarrow> 'a point" where
  "advanceSequenceNumber p =
     (let n = m_seqNum p + 1
      in p\<lparr>m_seqNum := (if n = SEQUENCE_NUMBER_UNKNOWN then SEQUENCE_NUMBER_UNKNOWN + 1 else n)\<rparr>)"

definition setLockState :: "LockRequest_T \<Rightarrow> 'a point \<Rightarrow> 'a point" where
  "setLockState lockRequest p =
     (if lockRequest = eLOCK then p\<lparr>m_locked := True\<rparr>
      else if lockRequest = eUNLOCK then p\<lparr>m_locked := False\<rparr> else p)"

definition isNotValid :: "'a point \<Rightarrow> bool" where
  "isNotValid p = (\<not> m_valid p)"

definition readData :: "'a point \<Rightarrow> 'a option" where
  "readData p = (if m_valid p then Some (m_data p) else None)"

definition hookSetInvalid :: "'a point \<Rightarrow> 'a point" where
  "hookSetInvalid p = p\<lparr>m_data := m_zero p\<rparr>"

text \<open>
  What an update does to the point: whether there is a change to report, and the point before its
  sequence number advances. Reporting the change is \<open>processChangeNotifications\<close>, which advances the
  sequence number and then tells the subscribers.
\<close>

definition write_core :: "'a \<Rightarrow> LockRequest_T \<Rightarrow> 'a point \<Rightarrow> bool \<times> 'a point" where
  "write_core srcData lockRequest p =
     (let (ok, p) = testAndUpdateLock lockRequest p
      in if ok \<and> (\<not> m_valid p \<or> m_data p \<noteq> srcData)
         then (True, p\<lparr>m_data := srcData, m_valid := True\<rparr>) else (False, p))"

definition invalid_core :: "LockRequest_T \<Rightarrow> 'a point \<Rightarrow> bool \<times> 'a point" where
  "invalid_core lockRequest p =
     (let (ok, p) = testAndUpdateLock lockRequest p
      in if ok \<and> m_valid p then (True, hookSetInvalid (p\<lparr>m_valid := False\<rparr>)) else (False, p))"

text \<open>The updates of a point that nobody observes.\<close>

definition commit :: "bool \<times> 'a point \<Rightarrow> 'a point" where
  "commit r = (if fst r then advanceSequenceNumber (snd r) else snd r)"

definition writeData :: "'a \<Rightarrow> LockRequest_T \<Rightarrow> 'a point \<Rightarrow> 'a point" where
  "writeData srcData lockRequest p = commit (write_core srcData lockRequest p)"

definition setInvalid :: "LockRequest_T \<Rightarrow> 'a point \<Rightarrow> 'a point" where
  "setInvalid lockRequest p = commit (invalid_core lockRequest p)"

definition touch :: "'a point \<Rightarrow> 'a point" where
  "touch p = advanceSequenceNumber p"

definition copyDataAndStateFrom :: "'a point \<Rightarrow> LockRequest_T \<Rightarrow> 'a point \<Rightarrow> 'a point" where
  "copyDataAndStateFrom src lockRequest p =
     (if isNotValid src then setInvalid eNO_REQUEST p else writeData (m_data src) lockRequest p)"

subsection \<open>Subscriptions\<close>

datatype State_T =
    eSTATE_UNSUBSCRIBED | eSTATE_IDLE | eSTATE_NOTIFY_PENDING | eSTATE_NOTIFY_NOTIFYING
  | eSTATE_NOTIFY_PENDING_DETACH

datatype Event_T = eATTACH | eDETACH | eDATA_CHANGED | eNOTIFYING | eNOTIFY_COMPLETE

record subscriber =
  m_state :: State_T
  m_attached :: bool
  m_seqNumber :: u16
  m_eventLoopHdl :: nat

record 'a dm =
  d_point :: "'a point"
  d_subscribers :: "nat list"
  d_sub :: "nat \<Rightarrow> subscriber"
  d_pending :: "nat \<Rightarrow> nat list"

definition SubscriberBase :: "nat \<Rightarrow> subscriber" where
  "SubscriberBase loop = \<lparr>m_state = eSTATE_UNSUBSCRIBED, m_attached = False,
     m_seqNumber = SEQUENCE_NUMBER_UNKNOWN, m_eventLoopHdl = loop\<rparr>"

definition setState :: "nat \<Rightarrow> State_T \<Rightarrow> 'a dm \<Rightarrow> 'a dm" where
  "setState i st d = d\<lparr>d_sub := (d_sub d)(i := (d_sub d i)\<lparr>m_state := st\<rparr>)\<rparr>"

definition setSequenceNumber :: "nat \<Rightarrow> u16 \<Rightarrow> 'a dm \<Rightarrow> 'a dm" where
  "setSequenceNumber i n d = d\<lparr>d_sub := (d_sub d)(i := (d_sub d i)\<lparr>m_seqNumber := n\<rparr>)\<rparr>"

definition setModelPoint :: "nat \<Rightarrow> bool \<Rightarrow> 'a dm \<Rightarrow> 'a dm" where
  "setModelPoint i b d = d\<lparr>d_sub := (d_sub d)(i := (d_sub d i)\<lparr>m_attached := b\<rparr>)\<rparr>"

text \<open>An item carries a pointer to the list it is in (Item.cpp), so it is in at most one.\<close>

definition in_list :: "nat \<Rightarrow> 'a dm \<Rightarrow> bool" where
  "in_list i d \<longleftrightarrow> i \<in> set (d_subscribers d) \<or> i \<in> set (d_pending d (m_eventLoopHdl (d_sub d i)))"

definition put_subscriber :: "nat \<Rightarrow> 'a dm \<Rightarrow> 'a dm result" where
  "put_subscriber i d =
     (if in_list i d then Inl FatalError else Inr (d\<lparr>d_subscribers := d_subscribers d @ [i]\<rparr>))"

definition addPendingChangingNotification :: "nat \<Rightarrow> 'a dm \<Rightarrow> 'a dm result" where
  "addPendingChangingNotification i d =
     (let l = m_eventLoopHdl (d_sub d i)
      in if in_list i d then Inl FatalError
         else Inr (d\<lparr>d_pending := (d_pending d)(l := d_pending d l @ [i])\<rparr>))"

definition removePendingChangingNotification :: "nat \<Rightarrow> 'a dm \<Rightarrow> 'a dm" where
  "removePendingChangingNotification i d =
     (let l = m_eventLoopHdl (d_sub d i)
      in d\<lparr>d_pending := (d_pending d)(l := remove1 i (d_pending d l))\<rparr>)"

definition transitionToNotifyPending :: "nat \<Rightarrow> 'a dm \<Rightarrow> 'a dm result" where
  "transitionToNotifyPending i d =
     bindR (addPendingChangingNotification i d) (\<lambda>d. Inr (setState i eSTATE_NOTIFY_PENDING d))"

definition transitionToSubscribed :: "nat \<Rightarrow> 'a dm \<Rightarrow> 'a dm result" where
  "transitionToSubscribed i d =
     (let d = d\<lparr>d_subscribers := remove1 i (d_subscribers d)\<rparr>
      in if m_seqNum (d_point d) = m_seqNumber (d_sub d i)
         then put_subscriber i (setState i eSTATE_IDLE d)
         else transitionToNotifyPending i d)"

definition processSubscriptionEvent :: "nat \<Rightarrow> Event_T \<Rightarrow> 'a dm \<Rightarrow> 'a dm result" where
  "processSubscriptionEvent i event d =
     (case m_state (d_sub d i) of
        eSTATE_UNSUBSCRIBED \<Rightarrow>
          (case event of
             eATTACH \<Rightarrow> transitionToSubscribed i d
           | eDATA_CHANGED \<Rightarrow> Inl FatalError
           | _ \<Rightarrow> Inr d)
      | eSTATE_IDLE \<Rightarrow>
          (case event of
             eATTACH \<Rightarrow> transitionToSubscribed i d
           | eDETACH \<Rightarrow> Inr (setState i eSTATE_UNSUBSCRIBED (d\<lparr>d_subscribers := remove1 i (d_subscribers d)\<rparr>))
           | eDATA_CHANGED \<Rightarrow> transitionToNotifyPending i d
           | _ \<Rightarrow> Inr d)
      | eSTATE_NOTIFY_PENDING \<Rightarrow>
          (case event of
             eATTACH \<Rightarrow> transitionToSubscribed i (removePendingChangingNotification i d)
           | eDETACH \<Rightarrow> Inr (setState i eSTATE_UNSUBSCRIBED (removePendingChangingNotification i d))
           | eNOTIFYING \<Rightarrow>
               Inr (setState i eSTATE_NOTIFY_NOTIFYING (setSequenceNumber i (m_seqNum (d_point d)) d))
           | eDATA_CHANGED \<Rightarrow> Inl FatalError
           | _ \<Rightarrow> Inr d)
      | eSTATE_NOTIFY_NOTIFYING \<Rightarrow>
          (case event of
             eDETACH \<Rightarrow> Inr (setState i eSTATE_NOTIFY_PENDING_DETACH d)
           | eNOTIFY_COMPLETE \<Rightarrow> transitionToSubscribed i d
           | eDATA_CHANGED \<Rightarrow> Inl FatalError
           | _ \<Rightarrow> Inr d)
      | eSTATE_NOTIFY_PENDING_DETACH \<Rightarrow>
          (case event of
             eATTACH \<Rightarrow> Inr (setState i eSTATE_NOTIFY_NOTIFYING d)
           | eNOTIFY_COMPLETE \<Rightarrow> Inr (setState i eSTATE_UNSUBSCRIBED d)
           | eDATA_CHANGED \<Rightarrow> Inl FatalError
           | _ \<Rightarrow> Inr d))"

text \<open>
  The loop of processChangeNotifications takes the first subscriber from the list until the list is
  empty; the fuel is the length of the list, which is enough when no notification puts a subscriber
  back.
\<close>

fun notify_subscribers :: "nat \<Rightarrow> 'a dm \<Rightarrow> 'a dm result" where
  "notify_subscribers n d =
     (case d_subscribers d of
        [] \<Rightarrow> Inr d
      | i # is \<Rightarrow>
          (case n of
             0 \<Rightarrow> Inl OutOfFuel
           | Suc n \<Rightarrow>
               bindR (processSubscriptionEvent i eDATA_CHANGED (d\<lparr>d_subscribers := is\<rparr>))
                 (notify_subscribers n)))"

declare notify_subscribers.simps [simp del]

definition processChangeNotifications :: "'a dm \<Rightarrow> 'a dm result" where
  "processChangeNotifications d =
     notify_subscribers (length (d_subscribers d)) (d\<lparr>d_point := advanceSequenceNumber (d_point d)\<rparr>)"

definition report :: "bool \<times> 'a point \<Rightarrow> 'a dm \<Rightarrow> 'a dm result" where
  "report r d =
     (let d = d\<lparr>d_point := snd r\<rparr> in if fst r then processChangeNotifications d else Inr d)"

definition dm_writeData :: "'a \<Rightarrow> LockRequest_T \<Rightarrow> 'a dm \<Rightarrow> 'a dm result" where
  "dm_writeData srcData lockRequest d = report (write_core srcData lockRequest (d_point d)) d"

definition dm_setInvalid :: "LockRequest_T \<Rightarrow> 'a dm \<Rightarrow> 'a dm result" where
  "dm_setInvalid lockRequest d = report (invalid_core lockRequest (d_point d)) d"

definition dm_touch :: "'a dm \<Rightarrow> 'a dm result" where
  "dm_touch d = processChangeNotifications d"

definition attachSubscriber :: "nat \<Rightarrow> u16 \<Rightarrow> 'a dm \<Rightarrow> 'a dm result" where
  "attachSubscriber i initialSeqNumber d =
     processSubscriptionEvent i eATTACH (setModelPoint i True (setSequenceNumber i initialSeqNumber d))"

definition detachSubscriber :: "nat \<Rightarrow> 'a dm \<Rightarrow> 'a dm result" where
  "detachSubscriber i d =
     bindR (processSubscriptionEvent i eDETACH d) (\<lambda>d. Inr (setModelPoint i False d))"

definition readAndSync :: "nat \<Rightarrow> 'a dm \<Rightarrow> ('a option \<times> 'a dm) result" where
  "readAndSync i d =
     bindR (attachSubscriber i (m_seqNum (d_point d)) d) (\<lambda>d'. Inr (readData (d_point d), d'))"

text \<open>
  Event loop \<open>l\<close> delivers one notification in two steps, with the callback of the subscriber in
  between; the callback may itself call any operation of the model point.
\<close>

definition begin_notification :: "nat \<Rightarrow> 'a dm \<Rightarrow> (nat option \<times> 'a dm) result" where
  "begin_notification l d =
     (case d_pending d l of
        [] \<Rightarrow> Inr (None, d)
      | i # is \<Rightarrow>
          if \<not> m_attached (d_sub d i) then Inl FatalError
          else bindR (processSubscriptionEvent i eNOTIFYING (d\<lparr>d_pending := (d_pending d)(l := is)\<rparr>))
                 (\<lambda>d. Inr (Some i, d)))"

definition end_notification :: "nat \<Rightarrow> 'a dm \<Rightarrow> 'a dm result" where
  "end_notification i d = processSubscriptionEvent i eNOTIFY_COMPLETE d"

text \<open>
  One model point under every sequence of calls: the writers, the subscribers' calls and the two halves
  of a delivery. The subscription calls are made in the thread of the event loop of the subscriber, as
  ModelPoint.h requires, so no such call falls between the removal from the pending list and the
  eNOTIFYING event.
\<close>

datatype 'a dm_op =
    Write 'a LockRequest_T | SetInvalid LockRequest_T | Touch
  | Attach nat u16 | Detach nat | ReadAndSync nat | BeginNotify nat | EndNotify nat

fun dm_step :: "'a dm_op \<Rightarrow> 'a dm \<Rightarrow> 'a dm result" where
  "dm_step (Write x r) d = dm_writeData x r d"
| "dm_step (SetInvalid r) d = dm_setInvalid r d"
| "dm_step Touch d = dm_touch d"
| "dm_step (Attach i n) d = attachSubscriber i n d"
| "dm_step (Detach i) d = detachSubscriber i d"
| "dm_step (ReadAndSync i) d = bindR (readAndSync i d) (\<lambda>r. Inr (snd r))"
| "dm_step (BeginNotify l) d = bindR (begin_notification l d) (\<lambda>r. Inr (snd r))"
| "dm_step (EndNotify i) d = end_notification i d"

fun dm_run :: "'a dm_op list \<Rightarrow> 'a dm \<Rightarrow> 'a dm result" where
  "dm_run [] d = Inr d"
| "dm_run (x # xs) d = bindR (dm_step x d) (dm_run xs)"

text \<open>The event loop with callbacks that do not touch the model point.\<close>

fun deliver :: "nat \<Rightarrow> nat \<Rightarrow> 'a dm \<Rightarrow> 'a dm result" where
  "deliver l 0 d = Inr d"
| "deliver l (Suc n) d =
     bindR (begin_notification l d) (\<lambda>r.
       case fst r of
         None \<Rightarrow> Inr (snd r)
       | Some i \<Rightarrow> bindR (end_notification i (snd r)) (deliver l n))"

definition dm_init :: "'a point \<Rightarrow> (nat \<Rightarrow> nat) \<Rightarrow> 'a dm" where
  "dm_init p loop = \<lparr>d_point = p, d_subscribers = [], d_sub = (\<lambda>i. SubscriberBase (loop i)),
     d_pending = (\<lambda>l. [])\<rparr>"

subsection \<open>The reference counter and the numeric points\<close>

definition processDataUpdated :: "'a point \<Rightarrow> 'a point" where
  "processDataUpdated p = advanceSequenceNumber (p\<lparr>m_valid := True\<rparr>)"

definition updateAndCheckForChangeNotification :: "u32 \<Rightarrow> u32 point \<Rightarrow> u32 point" where
  "updateAndCheckForChangeNotification newValue p =
     (let q = (if \<not> m_valid p \<or> (m_data p = 0 \<and> newValue \<noteq> 0) \<or> (newValue = 0 \<and> m_data p \<noteq> 0)
               then processDataUpdated p else p)
      in q\<lparr>m_data := newValue\<rparr>)"

definition ref_reset :: "u32 \<Rightarrow> LockRequest_T \<Rightarrow> u32 point \<Rightarrow> u32 point" where
  "ref_reset newValue lockRequest p =
     (let (ok, p) = testAndUpdateLock lockRequest p
      in if ok then updateAndCheckForChangeNotification newValue p else p)"

definition ref_increment :: "u32 \<Rightarrow> LockRequest_T \<Rightarrow> u32 point \<Rightarrow> u32 point" where
  "ref_increment incrementAmount lockRequest p =
     (let (ok, p) = testAndUpdateLock lockRequest p
      in if ok
         then let newValue = m_data p + incrementAmount;
                  newValue = (if newValue < m_data p then - 1 else newValue)
              in updateAndCheckForChangeNotification newValue p
         else p)"

definition ref_decrement :: "u32 \<Rightarrow> LockRequest_T \<Rightarrow> u32 point \<Rightarrow> u32 point" where
  "ref_decrement decrementAmount lockRequest p =
     (let (ok, p) = testAndUpdateLock lockRequest p
      in if ok
         then let newValue = m_data p - decrementAmount;
                  newValue = (if newValue > m_data p then 0 else newValue)
              in updateAndCheckForChangeNotification newValue p
         else p)"

definition num_increment :: "('w :: len) word \<Rightarrow> LockRequest_T \<Rightarrow> 'w word point \<Rightarrow> 'w word point" where
  "num_increment incSize lockRequest p = writeData (m_data p + incSize) lockRequest p"

definition num_decrement :: "('w :: len) word \<Rightarrow> LockRequest_T \<Rightarrow> 'w word point \<Rightarrow> 'w word point" where
  "num_decrement decSize lockRequest p = writeData (m_data p - decSize) lockRequest p"

subsection \<open>Export and import\<close>

text \<open>
  The data of a point as bytes. A stream is a list of bytes and the caller passes the length to
  respect; touching a byte past the end of the stream is \<open>OutOfBounds\<close>. The points of fixed size have no
  metadata (ModelPoint.h).
\<close>

definition bool_byte :: "bool \<Rightarrow> u8" where
  "bool_byte b = (if b then 1 else 0)"

definition getExternalSize :: "bool \<Rightarrow> u8 list point \<Rightarrow> nat" where
  "getExternalSize includeLockedState p =
     (let baseSize = length (m_data p) + 1 in if includeLockedState then baseSize + 1 else baseSize)"

definition memcpy_to :: "u8 list \<Rightarrow> nat \<Rightarrow> u8 list \<Rightarrow> u8 list result" where
  "memcpy_to dst k src =
     (if k + length src \<le> length dst then Inr (take k dst @ src @ drop (k + length src) dst)
      else Inl OutOfBounds)"

definition memcpy_from :: "u8 list \<Rightarrow> nat \<Rightarrow> nat \<Rightarrow> u8 list result" where
  "memcpy_from src k n = (if k + n \<le> length src then Inr (take n (drop k src)) else Inl OutOfBounds)"

definition exportData :: "u8 list \<Rightarrow> nat \<Rightarrow> bool \<Rightarrow> u8 list point \<Rightarrow> (nat \<times> u8 list) result" where
  "exportData dst maxDstLength includeLockedState p =
     (if maxDstLength \<ge> getExternalSize False p
      then bindR (memcpy_to dst 0 (m_data p)) (\<lambda>dst.
           bindR (memcpy_to dst (length (m_data p)) [bool_byte (m_valid p)]) (\<lambda>dst.
           bindR (if includeLockedState
                  then memcpy_to dst (length (m_data p) + 1) [bool_byte (m_locked p)] else Inr dst) (\<lambda>dst.
           Inr (getExternalSize includeLockedState p, dst))))
      else Inr (0, dst))"

definition importData :: "u8 list \<Rightarrow> nat \<Rightarrow> bool \<Rightarrow> u8 list point \<Rightarrow> (nat \<times> u8 list point) result" where
  "importData src srcLength includeLockedState p =
     (if getExternalSize False p \<le> srcLength
      then bindR (memcpy_from src 0 (length (m_data p))) (\<lambda>bs.
           bindR (memcpy_from src (length (m_data p)) 1) (\<lambda>v.
           bindR (if includeLockedState
                  then bindR (memcpy_from src (length (m_data p) + 1) 1) (\<lambda>l. Inr (l \<noteq> [0]))
                  else Inr (m_locked p)) (\<lambda>locked.
           Inr (getExternalSize includeLockedState p,
                advanceSequenceNumber (p\<lparr>m_data := bs, m_valid := v \<noteq> [0], m_locked := locked\<rparr>)))))
      else Inr (0, p))"

subsection \<open>What a change does to the subscribers\<close>

definition notified :: "'a dm \<Rightarrow> 'a dm" where
  "notified d =
     d\<lparr>d_subscribers := [],
       d_sub := (\<lambda>i. if i \<in> set (d_subscribers d) then (d_sub d i)\<lparr>m_state := eSTATE_NOTIFY_PENDING\<rparr>
                      else d_sub d i),
       d_pending := (\<lambda>l. d_pending d l @ filter (\<lambda>i. m_eventLoopHdl (d_sub d i) = l) (d_subscribers d))\<rparr>"

definition waiting :: "'a dm \<Rightarrow> bool" where
  "waiting d \<longleftrightarrow> distinct (d_subscribers d) \<and>
     (\<forall>i \<in> set (d_subscribers d). m_state (d_sub d i) = eSTATE_IDLE \<and>
        i \<notin> set (d_pending d (m_eventLoopHdl (d_sub d i))))"

lemma notify_one:
  assumes "d_subscribers d = i # is" "waiting d"
  obtains d' where
    "processSubscriptionEvent i eDATA_CHANGED (d\<lparr>d_subscribers := is\<rparr>) = Inr d'"
    "d_subscribers d' = is" "waiting d'" "notified d' = notified d"
proof -
  let ?l = "m_eventLoopHdl (d_sub d i)"
  let ?d = "setState i eSTATE_NOTIFY_PENDING
     (d\<lparr>d_subscribers := is, d_pending := (d_pending d)(?l := d_pending d ?l @ [i])\<rparr>)"
  have i: "m_state (d_sub d i) = eSTATE_IDLE" "i \<notin> set (d_pending d ?l)" "i \<notin> set is" "distinct is"
    and is': "\<And>j. j \<in> set is \<Longrightarrow> m_state (d_sub d j) = eSTATE_IDLE \<and>
        j \<notin> set (d_pending d (m_eventLoopHdl (d_sub d j)))"
    using assms by (auto simp: waiting_def)
  have "processSubscriptionEvent i eDATA_CHANGED (d\<lparr>d_subscribers := is\<rparr>) = Inr ?d"
    using i by (simp add: processSubscriptionEvent_def transitionToNotifyPending_def
      addPendingChangingNotification_def in_list_def Let_def bindR_def)
  moreover have "d_subscribers ?d = is"
    by (simp add: setState_def)
  moreover have "waiting ?d"
    using i by (auto simp: waiting_def setState_def dest: is')
  moreover have "notified ?d = notified d"
    by (rule dm.equality)
      (use i(3) in \<open>auto simp: notified_def setState_def assms(1) fun_eq_iff intro!: filter_cong\<close>)
  ultimately show ?thesis
    by (rule that)
qed

lemma notify_subscribers_eq:
  "waiting d \<Longrightarrow> length (d_subscribers d) \<le> n \<Longrightarrow> notify_subscribers n d = Inr (notified d)"
proof (induction n arbitrary: d)
  case 0
  then show ?case
    by (simp add: notify_subscribers.simps [of 0] notified_def)
next
  case (Suc n)
  show ?case
  proof (cases "d_subscribers d")
    case Nil
    then show ?thesis
      by (simp add: notify_subscribers.simps [of "Suc n"] notified_def)
  next
    case (Cons i "is")
    then obtain d' where "processSubscriptionEvent i eDATA_CHANGED (d\<lparr>d_subscribers := is\<rparr>) = Inr d'"
      "d_subscribers d' = is" "waiting d'" "notified d' = notified d"
      using Suc.prems by (blast intro: notify_one)
    then show ?thesis
      using Suc Cons by (simp add: notify_subscribers.simps [of "Suc n"])
  qed
qed

subsection \<open>The protocol invariant\<close>

definition dm_inv :: "'a dm \<Rightarrow> bool" where
  "dm_inv d \<longleftrightarrow>
     distinct (d_subscribers d) \<and> (\<forall>l. distinct (d_pending d l)) \<and>
     (\<forall>i. i \<in> set (d_subscribers d) \<longleftrightarrow> m_state (d_sub d i) = eSTATE_IDLE) \<and>
     (\<forall>i l. i \<in> set (d_pending d l) \<longleftrightarrow>
        m_state (d_sub d i) = eSTATE_NOTIFY_PENDING \<and> m_eventLoopHdl (d_sub d i) = l) \<and>
     (\<forall>i. m_state (d_sub d i) = eSTATE_IDLE \<longrightarrow> m_seqNumber (d_sub d i) = m_seqNum (d_point d)) \<and>
     (\<forall>i. m_attached (d_sub d i) \<longleftrightarrow>
        m_state (d_sub d i) \<in> {eSTATE_IDLE, eSTATE_NOTIFY_PENDING, eSTATE_NOTIFY_NOTIFYING}) \<and>
     m_seqNum (d_point d) \<noteq> SEQUENCE_NUMBER_UNKNOWN"

lemma dm_inv_waiting: "dm_inv d \<Longrightarrow> waiting (d\<lparr>d_point := p\<rparr>)"
  by (simp add: dm_inv_def waiting_def)

lemma advance_not_unknown: "m_seqNum (advanceSequenceNumber p) \<noteq> SEQUENCE_NUMBER_UNKNOWN"
  by (simp add: advanceSequenceNumber_def Let_def)

lemma processChangeNotifications_eq:
  assumes "dm_inv d"
  shows "processChangeNotifications (d\<lparr>d_point := p\<rparr>)
           = Inr (notified (d\<lparr>d_point := advanceSequenceNumber p\<rparr>))"
  using dm_inv_waiting [OF assms] by (simp add: processChangeNotifications_def notify_subscribers_eq)

lemma notified_inv:
  assumes "dm_inv d" "m_seqNum p \<noteq> SEQUENCE_NUMBER_UNKNOWN"
  shows "dm_inv (notified (d\<lparr>d_point := p\<rparr>))"
  using assms by (auto simp: dm_inv_def notified_def)

lemma core_seqNum [simp]:
  "m_seqNum (snd (write_core x r p)) = m_seqNum p" "m_seqNum (snd (invalid_core r p)) = m_seqNum p"
  by (simp_all add: write_core_def invalid_core_def testAndUpdateLock_def hookSetInvalid_def Let_def)

lemma report_ok:
  assumes "dm_inv d" "m_seqNum (snd r) = m_seqNum (d_point d)"
  obtains d' where "report r d = Inr d'" "dm_inv d'" "d_point d' = commit r"
    "d' = (if fst r then notified (d\<lparr>d_point := commit r\<rparr>) else d\<lparr>d_point := commit r\<rparr>)"
proof (cases "fst r")
  case True
  show ?thesis
    by (rule that [of "notified (d\<lparr>d_point := commit r\<rparr>)"])
      (use True assms in \<open>simp_all add: report_def commit_def processChangeNotifications_eq notified_inv
         advance_not_unknown\<close>, simp add: notified_def)
next
  case False
  show ?thesis
    by (rule that [of "d\<lparr>d_point := commit r\<rparr>"])
      (use False assms in \<open>simp_all add: report_def commit_def dm_inv_def\<close>)
qed

lemma transitionToSubscribed_ok:
  assumes "dm_inv d" "m_state (d_sub d i) \<in> {eSTATE_UNSUBSCRIBED, eSTATE_IDLE, eSTATE_NOTIFY_NOTIFYING}"
  obtains d' where
    "transitionToSubscribed i (setModelPoint i True (setSequenceNumber i n d)) = Inr d'" "dm_inv d'"
    "m_state (d_sub d' i) = (if n = m_seqNum (d_point d) then eSTATE_IDLE else eSTATE_NOTIFY_PENDING)"
    "d_point d' = d_point d"
proof -
  let ?r = "transitionToSubscribed i (setModelPoint i True (setSequenceNumber i n d))"
  have not_pending: "m_state (d_sub d i) \<noteq> eSTATE_NOTIFY_PENDING"
    using assms(2) by auto
  have ok: "\<exists>d'. ?r = Inr d' \<and> dm_inv d' \<and>
      m_state (d_sub d' i) = (if n = m_seqNum (d_point d) then eSTATE_IDLE else eSTATE_NOTIFY_PENDING) \<and>
      d_point d' = d_point d"
  proof (cases "n = m_seqNum (d_point d)")
    case True
    then show ?thesis
      using assms not_pending
      by (simp add: transitionToSubscribed_def put_subscriber_def in_list_def setState_def
          setModelPoint_def setSequenceNumber_def Let_def dm_inv_def)
  next
    case False
    then show ?thesis
      using assms not_pending
      by (simp add: transitionToSubscribed_def transitionToNotifyPending_def in_list_def setState_def
          addPendingChangingNotification_def setModelPoint_def setSequenceNumber_def Let_def dm_inv_def)
  qed
  then show ?thesis
    using that by blast
qed

lemmas dm_upd_defs = setState_def setModelPoint_def setSequenceNumber_def
  removePendingChangingNotification_def Let_def

lemma removePending_transition:
  assumes "dm_inv d" "m_state (d_sub d i) = eSTATE_NOTIFY_PENDING"
  shows "dm_inv (setModelPoint i False (setState i eSTATE_UNSUBSCRIBED (removePendingChangingNotification i d)))"
    and "transitionToSubscribed i (removePendingChangingNotification i
           (setModelPoint i True (setSequenceNumber i n d)))
         = transitionToSubscribed i (setModelPoint i True (setSequenceNumber i n
             (setModelPoint i False (setState i eSTATE_UNSUBSCRIBED (removePendingChangingNotification i d)))))"
  using assms
  by (auto simp: dm_inv_def dm_upd_defs transitionToSubscribed_def put_subscriber_def in_list_def
      transitionToNotifyPending_def addPendingChangingNotification_def bindR_def)

lemma attachSubscriber_ok:
  assumes "dm_inv d"
  obtains d' where "attachSubscriber i n d = Inr d'" "dm_inv d'" "d_point d' = d_point d"
proof -
  let ?d = "setModelPoint i True (setSequenceNumber i n d)"
  let ?c = "setModelPoint i False (setState i eSTATE_UNSUBSCRIBED (removePendingChangingNotification i d))"
  have st: "m_state (d_sub ?d i) = m_state (d_sub d i)" "d_point ?c = d_point d"
    "m_state (d_sub ?c i) = eSTATE_UNSUBSCRIBED"
    by (simp_all add: dm_upd_defs)
  have "\<exists>d'. attachSubscriber i n d = Inr d' \<and> dm_inv d' \<and> d_point d' = d_point d"
  proof (cases "m_state (d_sub d i)")
    case eSTATE_NOTIFY_PENDING
    then show ?thesis
      using removePending_transition [OF assms eSTATE_NOTIFY_PENDING]
        transitionToSubscribed_ok [of ?c i n] st
      by (simp add: attachSubscriber_def processSubscriptionEvent_def) (metis st(2))
  qed (use assms transitionToSubscribed_ok [OF assms, of i n] st in
      \<open>force simp: attachSubscriber_def processSubscriptionEvent_def dm_inv_def dm_upd_defs\<close>)+
  then show ?thesis
    using that by blast
qed

lemma detachSubscriber_ok:
  assumes "dm_inv d"
  obtains d' where "detachSubscriber i d = Inr d'" "dm_inv d'" "d_point d' = d_point d"
    "\<not> m_attached (d_sub d' i)" "\<And>l. i \<notin> set (d_pending d' l)" "i \<notin> set (d_subscribers d')"
proof -
  have "\<exists>d'. detachSubscriber i d = Inr d' \<and> dm_inv d' \<and> d_point d' = d_point d \<and>
      \<not> m_attached (d_sub d' i)"
    using assms
    by (cases "m_state (d_sub d i)")
      (force simp: detachSubscriber_def processSubscriptionEvent_def dm_inv_def dm_upd_defs)+
  then show ?thesis
    using that by (force simp: dm_inv_def)
qed

lemma end_notification_ok:
  assumes "dm_inv d"
  obtains d' where "end_notification i d = Inr d'" "dm_inv d'" "d_point d' = d_point d"
    "m_state (d_sub d i) = eSTATE_NOTIFY_NOTIFYING \<Longrightarrow> m_state (d_sub d' i) =
       (if m_seqNumber (d_sub d i) = m_seqNum (d_point d) then eSTATE_IDLE else eSTATE_NOTIFY_PENDING)"
proof -
  let ?n = "m_seqNumber (d_sub d i)"
  have same: "m_attached (d_sub d i) \<Longrightarrow> setModelPoint i True (setSequenceNumber i ?n d) = d"
    by (rule dm.equality) (auto simp: dm_upd_defs fun_eq_iff intro!: subscriber.equality)
  have "\<exists>d'. end_notification i d = Inr d' \<and> dm_inv d' \<and> d_point d' = d_point d \<and>
      (m_state (d_sub d i) = eSTATE_NOTIFY_NOTIFYING \<longrightarrow> m_state (d_sub d' i) =
         (if ?n = m_seqNum (d_point d) then eSTATE_IDLE else eSTATE_NOTIFY_PENDING))"
  proof (cases "m_state (d_sub d i)")
    case eSTATE_NOTIFY_NOTIFYING
    then have att: "m_attached (d_sub d i)"
      using assms by (simp add: dm_inv_def)
    show ?thesis
      by (rule transitionToSubscribed_ok [OF assms, of i ?n])
        (simp_all add: eSTATE_NOTIFY_NOTIFYING end_notification_def processSubscriptionEvent_def
          same [OF att])
  qed (use assms in \<open>auto simp: end_notification_def processSubscriptionEvent_def dm_inv_def dm_upd_defs\<close>)
  then show ?thesis
    using that by blast
qed

lemma begin_notification_ok:
  assumes "dm_inv d"
  obtains d' where "begin_notification l d = Inr (None, d)" "d_pending d l = []"
  | i "is" d' where "d_pending d l = i # is" "begin_notification l d = Inr (Some i, d')" "dm_inv d'"
    "d_point d' = d_point d" "m_state (d_sub d' i) = eSTATE_NOTIFY_NOTIFYING"
    "m_seqNumber (d_sub d' i) = m_seqNum (d_point d)" "d_pending d' = (d_pending d)(l := is)"
    "\<And>j. j \<noteq> i \<Longrightarrow> d_sub d' j = d_sub d j" "m_eventLoopHdl (d_sub d' i) = m_eventLoopHdl (d_sub d i)"
proof (cases "d_pending d l")
  case Nil
  then show ?thesis
    by (simp add: begin_notification_def that)
next
  case (Cons i "is")
  have "i \<in> set (d_pending d l)" "i \<notin> set is"
    using assms Cons by (auto simp: dm_inv_def) (metis distinct.simps(2))
  then have i: "m_state (d_sub d i) = eSTATE_NOTIFY_PENDING" "m_eventLoopHdl (d_sub d i) = l"
    "m_attached (d_sub d i)" "i \<notin> set is"
    using assms by (auto simp: dm_inv_def)
  let ?d = "setState i eSTATE_NOTIFY_NOTIFYING (setSequenceNumber i (m_seqNum (d_point d))
     (d\<lparr>d_pending := (d_pending d)(l := is)\<rparr>))"
  have "\<And>j. j \<in> set is \<longleftrightarrow> j \<noteq> i \<and> j \<in> set (d_pending d l)"
    using Cons i(4) by auto
  moreover have "distinct is"
    using assms Cons by (auto simp: dm_inv_def) (metis distinct.simps(2))
  ultimately have "dm_inv ?d"
    using assms i by (auto simp: dm_inv_def dm_upd_defs)
  then show ?thesis
    using Cons i by (intro that(2) [of i "is" ?d])
      (auto simp: begin_notification_def processSubscriptionEvent_def dm_upd_defs)
qed

lemma dm_step_ok:
  assumes "dm_inv d"
  obtains d' where "dm_step x d = Inr d'" "dm_inv d'"
proof (cases x)
  case (Write y r)
  then show ?thesis
    using that report_ok [OF assms, of "write_core y r (d_point d)"] by (auto simp: dm_writeData_def)
next
  case (SetInvalid r)
  then show ?thesis
    using that report_ok [OF assms, of "invalid_core r (d_point d)"] by (auto simp: dm_setInvalid_def)
next
  case Touch
  then show ?thesis
    using that processChangeNotifications_eq [OF assms, of "d_point d"]
      notified_inv [OF assms advance_not_unknown] by (simp add: dm_touch_def)
next
  case (Attach i n)
  show ?thesis
    by (rule attachSubscriber_ok [OF assms, of i n]) (simp add: Attach that)
next
  case (Detach i)
  show ?thesis
    by (rule detachSubscriber_ok [OF assms, of i]) (simp add: Detach that)
next
  case (ReadAndSync i)
  show ?thesis
    by (rule attachSubscriber_ok [OF assms, of i "m_seqNum (d_point d)"])
      (simp add: ReadAndSync readAndSync_def that)
next
  case (BeginNotify l)
  show ?thesis
    by (rule begin_notification_ok [OF assms, of l]) (simp_all add: BeginNotify that assms)
next
  case (EndNotify i)
  show ?thesis
    by (rule end_notification_ok [OF assms, of i]) (simp add: EndNotify that)
qed

lemma dm_run_ok:
  assumes "dm_inv d"
  obtains d' where "dm_run xs d = Inr d'" "dm_inv d'"
proof -
  have "\<exists>d'. dm_run xs d = Inr d' \<and> dm_inv d'"
    using assms
  proof (induction xs arbitrary: d)
    case (Cons x xs)
    then show ?case
      by (metis dm_step_ok dm_run.simps(2) bindR_simps(2))
  qed simp
  then show ?thesis
    using that by blast
qed

lemma dm_init_inv: "m_seqNum p \<noteq> SEQUENCE_NUMBER_UNKNOWN \<Longrightarrow> dm_inv (dm_init p loop)"
  by (simp add: dm_init_def dm_inv_def SubscriberBase_def)

lemma end_synced:
  assumes "dm_inv d" "m_state (d_sub d i) = eSTATE_NOTIFY_NOTIFYING"
    "m_seqNumber (d_sub d i) = m_seqNum (d_point d)"
  obtains d' where "end_notification i d = Inr d'" "dm_inv d'" "d_point d' = d_point d"
    "d_pending d' = d_pending d" "d_sub d' = (d_sub d)(i := (d_sub d i)\<lparr>m_state := eSTATE_IDLE\<rparr>)"
proof -
  obtain d' where d': "end_notification i d = Inr d'" "dm_inv d'"
    using end_notification_ok [OF assms(1), of i] by blast
  have "i \<notin> set (d_subscribers d)" "\<And>l. i \<notin> set (d_pending d l)"
    using assms by (auto simp: dm_inv_def)
  then have "d' = (setState i eSTATE_IDLE d)\<lparr>d_subscribers := d_subscribers d @ [i]\<rparr>"
    using d'(1) assms(2,3)
    by (simp add: end_notification_def processSubscriptionEvent_def transitionToSubscribed_def
        put_subscriber_def in_list_def remove1_idem dm_upd_defs)
  then show ?thesis
    using that d' by (simp add: dm_upd_defs)
qed

lemma deliver_all:
  assumes "dm_inv d"
  shows "\<exists>d'. deliver l (length (d_pending d l)) d = Inr d' \<and> dm_inv d' \<and> d_pending d' l = [] \<and>
    d_point d' = d_point d \<and>
    (\<forall>i. m_eventLoopHdl (d_sub d' i) = m_eventLoopHdl (d_sub d i) \<and>
      (if i \<in> set (d_pending d l) then m_state (d_sub d' i) = eSTATE_IDLE else d_sub d' i = d_sub d i))"
  using assms
proof (induction "d_pending d l" arbitrary: d)
  case Nil
  from Nil(1) [symmetric] show ?case
    using Nil(2) by simp
next
  case (Cons i "is")
  from begin_notification_ok [OF Cons.prems, of l] obtain d1 where d1:
    "begin_notification l d = Inr (Some i, d1)" "dm_inv d1" "d_point d1 = d_point d"
    "m_state (d_sub d1 i) = eSTATE_NOTIFY_NOTIFYING" "m_seqNumber (d_sub d1 i) = m_seqNum (d_point d)"
    "d_pending d1 = (d_pending d)(l := is)" "\<And>j. j \<noteq> i \<Longrightarrow> d_sub d1 j = d_sub d j"
    "m_eventLoopHdl (d_sub d1 i) = m_eventLoopHdl (d_sub d i)"
    using Cons(2) by (metis list.inject list.distinct(1))
  obtain d2 where d2: "end_notification i d1 = Inr d2" "dm_inv d2" "d_point d2 = d_point d1"
    "d_pending d2 = d_pending d1" "d_sub d2 = (d_sub d1)(i := (d_sub d1 i)\<lparr>m_state := eSTATE_IDLE\<rparr>)"
    using end_synced [OF d1(2,4)] d1(3,5) by metis
  have p2: "is = d_pending d2 l" and pd: "d_pending d l = i # is"
    using d2(4) d1(6) Cons(2) by simp_all
  have i: "i \<notin> set is"
    using Cons.prems pd by (auto simp: dm_inv_def) (metis distinct.simps(2))
  from Cons(1) [OF p2 d2(2)] obtain d3 where
    "deliver l (length is) d2 = Inr d3" "dm_inv d3" "d_pending d3 l = []" "d_point d3 = d_point d2"
    "\<And>j. m_eventLoopHdl (d_sub d3 j) = m_eventLoopHdl (d_sub d2 j)"
    "\<And>j. if j \<in> set is then m_state (d_sub d3 j) = eSTATE_IDLE else d_sub d3 j = d_sub d2 j"
    unfolding p2 [symmetric] by blast
  note d3 = this
  have "if j \<in> set (i # is) then m_state (d_sub d3 j) = eSTATE_IDLE else d_sub d3 j = d_sub d j" for j
    using d3(6) [of j] d1(7) [of j] i d2(5) by (cases "j = i") (simp_all split: if_splits)
  moreover have "m_eventLoopHdl (d_sub d3 j) = m_eventLoopHdl (d_sub d j)" for j
    using d3(5) [of j] d1(7,8) d2(5) by (cases "j = i") simp_all
  ultimately show ?case
    using d1(1,3) d2(1,3) d3 pd by simp
qed

lemma advance_neq: "m_seqNum (advanceSequenceNumber p) \<noteq> m_seqNum p"
proof -
  have "m_seqNum p + 1 \<noteq> m_seqNum p" "m_seqNum p + 1 = 0 \<Longrightarrow> m_seqNum p \<noteq> 1"
    by auto
  then show ?thesis
    by (auto simp: advanceSequenceNumber_def Let_def)
qed

text \<open>Where a sequence number stands on the cycle 1, 2, \<dots>, 65535.\<close>

definition seq_index :: "'a point \<Rightarrow> nat" where
  "seq_index p = unat (m_seqNum p) - 1"

lemma seq_index_advance:
  assumes "m_seqNum p \<noteq> SEQUENCE_NUMBER_UNKNOWN"
  shows "seq_index (advanceSequenceNumber p) = Suc (seq_index p) mod 65535"
proof -
  have b: "0 < unat (m_seqNum p)" "unat (m_seqNum p) < 65536"
    using assms unat_below [of "m_seqNum p"] by (simp_all add: unat_gt_0)
  show ?thesis
  proof (cases "m_seqNum p + 1 = 0")
    case True
    then have "m_seqNum p = - 1"
      by (simp add: eq_neg_iff_add_eq_0)
    then have "unat (m_seqNum p) = 65535"
      by (simp add: unsigned_minus_1_eq_mask mask_eq_exp_minus_1)
    then show ?thesis
      using True by (simp add: seq_index_def advanceSequenceNumber_def)
  next
    case False
    then have "unat (m_seqNum p + 1) = unat (m_seqNum p) + 1"
      by (metis unatSuc Suc_eq_plus1 add.commute)
    moreover from this have "unat (m_seqNum p) + 1 < 65536"
      using unat_below [of "m_seqNum p + 1"] by simp
    ultimately show ?thesis
      using False b by (simp add: seq_index_def advanceSequenceNumber_def)
  qed
qed

lemma seq_index_advances:
  assumes "m_seqNum p \<noteq> SEQUENCE_NUMBER_UNKNOWN"
  shows "m_seqNum ((advanceSequenceNumber ^^ n) p) \<noteq> SEQUENCE_NUMBER_UNKNOWN \<and>
    seq_index ((advanceSequenceNumber ^^ n) p) = (seq_index p + n) mod 65535"
proof (induction n)
  case 0
  then show ?case
    using assms unat_below [of "m_seqNum p"] by (simp add: seq_index_def unat_gt_0)
next
  case (Suc n)
  then show ?case
    by (simp add: seq_index_advance advance_not_unknown mod_Suc_eq)
qed

lemma seq_index_inj:
  assumes "m_seqNum p \<noteq> SEQUENCE_NUMBER_UNKNOWN" "m_seqNum q \<noteq> SEQUENCE_NUMBER_UNKNOWN"
  shows "seq_index p = seq_index q \<longleftrightarrow> m_seqNum p = m_seqNum q"
proof -
  have "0 < unat (m_seqNum p)" "0 < unat (m_seqNum q)"
    using assms by (simp_all add: unat_gt_0)
  then have "seq_index p = seq_index q \<longleftrightarrow> unat (m_seqNum p) = unat (m_seqNum q)"
    by (auto simp: seq_index_def)
  then show ?thesis
    by (simp add: word_unat_eq_iff)
qed

lemma update_data: "m_data (updateAndCheckForChangeNotification n p) = n"
  by (simp add: updateAndCheckForChangeNotification_def)

lemma update_seqNum:
  "m_seqNum (updateAndCheckForChangeNotification n p) = m_seqNum p
     \<longleftrightarrow> m_valid p \<and> (n = 0 \<longleftrightarrow> m_data p = 0)"
  using advance_neq [of "p\<lparr>m_valid := True\<rparr>"]
  by (auto simp: updateAndCheckForChangeNotification_def processDataUpdated_def Let_def)

lemma sat_add:
  fixes a b :: u32
  shows "unat (if a + b < a then - 1 else a + b) = min (2 ^ 32 - 1) (unat a + unat b)"
proof (cases "unat a + unat b < 2 ^ 32")
  case True
  then show ?thesis
    by (simp add: unat_word_add_no_wrap word_less_nat_alt)
next
  case False
  then have "unat (a + b) = unat a + unat b - 2 ^ 32"
    using unat_below [of a] unat_below [of b] by (simp add: unat_word_ariths mod_if)
  then show ?thesis
    using False unat_below [of a] unat_below [of b]
    by (simp add: word_less_nat_alt unsigned_minus_1_eq_mask mask_eq_exp_minus_1)
qed

lemma sat_sub:
  fixes a b :: u32
  shows "unat (if a - b > a then 0 else a - b) = unat a - unat b"
proof (cases "unat b \<le> unat a")
  case True
  then show ?thesis
    by (simp add: unat_word_sub_no_wrap word_less_nat_alt)
next
  case False
  then have "unat (a - b) = 2 ^ 32 + unat a - unat b"
    using unat_below [of b] by (simp add: unat_sub_if_size word_size)
  then show ?thesis
    using False unat_below [of b] by (simp add: word_less_nat_alt)
qed

subsection \<open>Properties\<close>

text \<open>
  C18. The subscription protocol is sound. From a new model point with new subscribers, every sequence
  of writes, invalidations, touches, attaches, detaches and notification deliveries runs without a
  fatal error: no subscriber is put into two lists, no data change reaches a subscriber in a wrong
  state, and no pending notification has lost its model point. At every point of the run a subscriber
  is in the list of the model point exactly when it is idle, in the pending list of its own event loop
  exactly when a notification is pending, and an idle subscriber has seen the current sequence number.
\<close>

theorem dm_protocol_sound:
  "\<exists>d. dm_run ops (dm_init (ModelPointCommon v z valid) loop) = Inr d \<and> dm_inv d"
  by (rule dm_run_ok [OF dm_init_inv, of "ModelPointCommon v z valid" ops loop])
    (simp_all add: ModelPointCommon_def)

lemma reachable_inv:
  assumes "dm_run ops (dm_init (ModelPointCommon v z valid) loop) = Inr d"
  shows "dm_inv d"
  by (rule dm_run_ok [OF dm_init_inv, of "ModelPointCommon v z valid" ops loop])
    (use assms in \<open>simp_all add: ModelPointCommon_def\<close>)

text \<open>
  C20. A change is reported to exactly the idle subscribers, once each and in the order of the list,
  and the point itself changes as a point without subscribers would: a write that changes the value,
  or validates the point, moves every idle subscriber to the end of the pending list of its event
  loop and leaves none idle; a write without effect notifies nobody.
\<close>

theorem dm_write_notifies:
  assumes "dm_run ops (dm_init (ModelPointCommon v z valid) loop) = Inr d"
  shows "\<exists>d'. dm_writeData x r d = Inr d' \<and> d_point d' = writeData x r (d_point d) \<and>
    (if m_seqNum (d_point d') = m_seqNum (d_point d)
     then d_subscribers d' = d_subscribers d \<and> d_pending d' = d_pending d
     else d_subscribers d' = [] \<and>
       (\<forall>l. d_pending d' l
          = d_pending d l @ filter (\<lambda>i. m_eventLoopHdl (d_sub d i) = l) (d_subscribers d)))"
proof -
  let ?r = "write_core x r (d_point d)"
  obtain d' where "dm_writeData x r d = Inr d'" "d_point d' = writeData x r (d_point d)"
    "d' = (if fst ?r then notified (d\<lparr>d_point := commit ?r\<rparr>) else d\<lparr>d_point := commit ?r\<rparr>)"
    using report_ok [OF reachable_inv [OF assms], of ?r] by (auto simp: dm_writeData_def writeData_def)
  moreover have "m_seqNum (commit ?r) = m_seqNum (d_point d) \<longleftrightarrow> \<not> fst ?r"
    using advance_neq [of "snd ?r"] by (simp add: commit_def)
  ultimately show ?thesis
    by (auto simp: notified_def)
qed

definition sample_dm :: "u32 dm" where
  "sample_dm = dm_init (ModelPointCommon 5 0 True) (\<lambda>i. i)"

definition sample_attached :: "u32 dm" where
  "sample_attached = sample_dm\<lparr>d_subscribers := [7],
     d_sub := (d_sub sample_dm)(7 := \<lparr>m_state = eSTATE_IDLE, m_attached = True, m_seqNumber = 1,
       m_eventLoopHdl = 7\<rparr>)\<rparr>"

lemma sample_attached_run:
  "dm_run [Attach 7 1] (dm_init (ModelPointCommon 5 0 True) (\<lambda>i. i)) = Inr sample_attached"
  by (auto simp: sample_attached_def sample_dm_def attachSubscriber_def processSubscriptionEvent_def
      transitionToSubscribed_def put_subscriber_def in_list_def dm_upd_defs dm_init_def SubscriberBase_def
      ModelPointCommon_def)

theorem dm_write_notifies_witness:
  "\<exists>d'. dm_writeData 6 eNO_REQUEST sample_attached = Inr d' \<and> m_data (d_point d') = 6 \<and>
     d_subscribers d' = [] \<and> d_pending d' 7 = [7]"
proof -
  have "writeData 6 eNO_REQUEST (d_point sample_attached)
      = \<lparr>m_data = 6, m_zero = 0, m_seqNum = 2, m_locked = False, m_valid = True\<rparr>"
    "m_seqNum (d_point sample_attached) = 1"
    by (simp_all add: sample_attached_def sample_dm_def dm_init_def ModelPointCommon_def writeData_def
        write_core_def testAndUpdateLock_def commit_def advanceSequenceNumber_def)
  then show ?thesis
    using dm_write_notifies [OF sample_attached_run, of 6 eNO_REQUEST]
    by (auto simp: sample_attached_def sample_dm_def dm_init_def split: if_splits)
qed

text \<open>
  C19. Every subscriber is told eventually. When event loop \<open>l\<close> has delivered as many notifications as
  were pending, none is left, the point is unchanged, and every attached subscriber of that loop whose
  callback is not still running is idle with the current sequence number.
\<close>

theorem dm_deliver_synchronises:
  assumes "dm_run ops (dm_init (ModelPointCommon v z valid) loop) = Inr d"
  shows "\<exists>d'. deliver l (length (d_pending d l)) d = Inr d' \<and> d_pending d' l = [] \<and>
    d_point d' = d_point d \<and>
    (\<forall>i. m_eventLoopHdl (d_sub d i) = l \<and> m_attached (d_sub d i) \<and>
        m_state (d_sub d i) \<noteq> eSTATE_NOTIFY_NOTIFYING \<longrightarrow>
      m_state (d_sub d' i) = eSTATE_IDLE \<and> m_seqNumber (d_sub d' i) = m_seqNum (d_point d'))"
proof -
  note inv = reachable_inv [OF assms]
  obtain d' where d': "deliver l (length (d_pending d l)) d = Inr d'" "dm_inv d'" "d_pending d' l = []"
    "d_point d' = d_point d"
    "\<And>i. if i \<in> set (d_pending d l) then m_state (d_sub d' i) = eSTATE_IDLE else d_sub d' i = d_sub d i"
    using deliver_all [OF inv, of l] by blast
  have "m_state (d_sub d' i) = eSTATE_IDLE \<and> m_seqNumber (d_sub d' i) = m_seqNum (d_point d')"
    if i: "m_eventLoopHdl (d_sub d i) = l" "m_attached (d_sub d i)"
      "m_state (d_sub d i) \<noteq> eSTATE_NOTIFY_NOTIFYING" for i
  proof -
    have "i \<in> set (d_pending d l) \<or> m_state (d_sub d i) = eSTATE_IDLE"
      using inv i by (auto simp: dm_inv_def)
    then have "m_state (d_sub d' i) = eSTATE_IDLE"
      using d'(5) [of i] by (auto split: if_splits)
    then show ?thesis
      using d'(2) by (simp add: dm_inv_def)
  qed
  then show ?thesis
    using d' by blast
qed

definition sample_stale :: "u32 dm" where
  "sample_stale = sample_dm\<lparr>
     d_sub := (d_sub sample_dm)(7 := \<lparr>m_state = eSTATE_NOTIFY_PENDING, m_attached = True,
       m_seqNumber = 0, m_eventLoopHdl = 7\<rparr>),
     d_pending := (\<lambda>l. [])(7 := [7])\<rparr>"

lemma sample_stale_run:
  "dm_run [Attach 7 0] (dm_init (ModelPointCommon 5 0 True) (\<lambda>i. i)) = Inr sample_stale"
  by (auto simp: sample_stale_def sample_dm_def attachSubscriber_def processSubscriptionEvent_def
      transitionToSubscribed_def transitionToNotifyPending_def addPendingChangingNotification_def
      in_list_def dm_upd_defs dm_init_def SubscriberBase_def ModelPointCommon_def)

theorem dm_deliver_synchronises_witness:
  "m_seqNumber (d_sub sample_stale 7) = 0 \<and>
   (\<exists>d'. deliver 7 1 sample_stale = Inr d' \<and> m_seqNumber (d_sub d' 7) = 1)"
proof -
  have 7: "m_eventLoopHdl (d_sub sample_stale 7) = 7" "m_attached (d_sub sample_stale 7)"
    "m_state (d_sub sample_stale 7) \<noteq> eSTATE_NOTIFY_NOTIFYING" "length (d_pending sample_stale 7) = 1"
    "m_seqNum (d_point sample_stale) = 1" "m_seqNumber (d_sub sample_stale 7) = 0"
    by (simp_all add: sample_stale_def sample_dm_def dm_init_def ModelPointCommon_def)
  show ?thesis
    using dm_deliver_synchronises [OF sample_stale_run, of 7, unfolded 7(4)] 7 by metis
qed

text \<open>
  How long a sequence number stays unambiguous. Starting from a number other than 'unknown', the
  number never becomes 'unknown', and after \<open>n\<close> changes it is the number it started from exactly when
  \<open>n\<close> is a multiple of 65535. So a subscriber that compares numbers misses changes only if a multiple
  of 65535 of them happened since it last looked.
\<close>

lemma sequence_number_period:
  assumes "m_seqNum p \<noteq> SEQUENCE_NUMBER_UNKNOWN"
  shows "m_seqNum ((advanceSequenceNumber ^^ n) p) \<noteq> SEQUENCE_NUMBER_UNKNOWN \<and>
    (m_seqNum ((advanceSequenceNumber ^^ n) p) = m_seqNum p \<longleftrightarrow> 65535 dvd n)"
proof -
  note adv = seq_index_advances [OF assms, of n]
  have small: "seq_index p < 65535"
    using assms unat_below [of "m_seqNum p"] by (simp add: seq_index_def unat_gt_0)
  have "m_seqNum ((advanceSequenceNumber ^^ n) p) = m_seqNum p
      \<longleftrightarrow> (seq_index p + n) mod 65535 = seq_index p mod 65535"
    using seq_index_inj [of "(advanceSequenceNumber ^^ n) p" p] assms adv small by simp
  also have "\<dots> \<longleftrightarrow> 65535 dvd n"
    by (simp add: mod_eq_dvd_iff_nat)
  finally show ?thesis
    using adv by simp
qed

lemma sequence_number_period_witness:
  "m_seqNum ((advanceSequenceNumber ^^ 65535) (ModelPointCommon (0 :: u8) 0 True)) = 1 \<and>
   m_seqNum ((advanceSequenceNumber ^^ 65534) (ModelPointCommon (0 :: u8) 0 True)) \<noteq> 1"
proof -
  have start: "m_seqNum (ModelPointCommon (0 :: u8) 0 True) = 1"
    by (simp add: ModelPointCommon_def)
  then show ?thesis
    using sequence_number_period [of "ModelPointCommon (0 :: u8) 0 True" 65535]
      sequence_number_period [of "ModelPointCommon (0 :: u8) 0 True" 65534] by simp
qed

text \<open>
  The reference counter. An accepted increment or decrement moves the count by the amount asked
  for and stops at the ends of the 32-bit range instead of wrapping, and the change is announced (the
  sequence number advances) exactly when the point was invalid or the count moved between zero and
  non-zero.
\<close>

lemma ref_counter_saturates:
  assumes "\<not> m_locked p \<or> r \<noteq> eNO_REQUEST"
  shows "unat (m_data (ref_increment n r p)) = min (2 ^ 32 - 1) (unat (m_data p) + unat n) \<and>
    unat (m_data (ref_decrement n r p)) = unat (m_data p) - unat n \<and>
    m_data (ref_reset n r p) = n \<and>
    (\<forall>q \<in> {ref_increment n r p, ref_decrement n r p, ref_reset n r p}.
       m_seqNum q = m_seqNum p \<longleftrightarrow> m_valid p \<and> (m_data q = 0 \<longleftrightarrow> m_data p = 0))"
proof -
  obtain q where ok: "testAndUpdateLock r p = (True, q)"
    "m_data q = m_data p" "m_valid q = m_valid p" "m_seqNum q = m_seqNum p"
    using assms by (cases r) (auto simp: testAndUpdateLock_def)
  have "m_data (ref_reset n r p) = n"
    by (simp add: ref_reset_def ok update_data)
  moreover have "unat (m_data (ref_increment n r p)) = min (2 ^ 32 - 1) (unat (m_data p) + unat n)"
    using sat_add [of "m_data q" n]
    by (simp add: ref_increment_def Let_def ok(1) ok(2) [symmetric] update_data split del: if_split)
  moreover have "unat (m_data (ref_decrement n r p)) = unat (m_data p) - unat n"
    using sat_sub [of "m_data q" n]
    by (simp add: ref_decrement_def Let_def ok(1) ok(2) [symmetric] update_data split del: if_split)
  moreover have "m_seqNum (ref_reset n r p) = m_seqNum p
      \<longleftrightarrow> m_valid p \<and> (m_data (ref_reset n r p) = 0 \<longleftrightarrow> m_data p = 0)"
    by (simp add: ref_reset_def ok update_data update_seqNum [of _ q, unfolded ok])
  moreover have "m_seqNum (ref_increment n r p) = m_seqNum p
      \<longleftrightarrow> m_valid p \<and> (m_data (ref_increment n r p) = 0 \<longleftrightarrow> m_data p = 0)"
    by (simp add: ref_increment_def Let_def ok update_data update_seqNum [of _ q, unfolded ok])
  moreover have "m_seqNum (ref_decrement n r p) = m_seqNum p
      \<longleftrightarrow> m_valid p \<and> (m_data (ref_decrement n r p) = 0 \<longleftrightarrow> m_data p = 0)"
    by (simp add: ref_decrement_def Let_def ok update_data update_seqNum [of _ q, unfolded ok])
  ultimately show ?thesis
    by simp
qed

lemma ref_counter_saturates_witness:
  "unat (m_data (ref_increment 10 eNO_REQUEST (ModelPointCommon 4294967290 0 True))) = 4294967295 \<and>
   unat (m_data (ref_decrement 10 eNO_REQUEST (ModelPointCommon 3 0 True))) = 0"
  using ref_counter_saturates [of "ModelPointCommon 4294967290 0 True" eNO_REQUEST 10]
    ref_counter_saturates [of "ModelPointCommon 3 0 True" eNO_REQUEST 10]
  by (simp add: ModelPointCommon_def)

text \<open>
  Export and import are inverse. A point exported into a stream that is long enough for what is
  written, and imported by another point of the same size, gives that point the same data, valid flag
  and, when it is included, lock; both calls report the same number of bytes and the bytes after them
  are untouched.
\<close>

lemma export_import_roundtrip:
  assumes "getExternalSize locks p \<le> length dst" "length (m_data q) = length (m_data p)"
  shows "\<exists>dst' q'. exportData dst (length dst) locks p = Inr (getExternalSize locks p, dst') \<and>
    importData dst' (length dst') locks q = Inr (getExternalSize locks p, q') \<and>
    length dst' = length dst \<and> drop (getExternalSize locks p) dst' = drop (getExternalSize locks p) dst \<and>
    m_data q' = m_data p \<and> m_valid q' = m_valid p \<and>
    m_locked q' = (if locks then m_locked p else m_locked q) \<and> m_seqNum q' \<noteq> m_seqNum q"
proof -
  let ?n = "length (m_data p)"
  let ?bs = "m_data p @ bool_byte (m_valid p) # (if locks then [bool_byte (m_locked p)] else [])"
  let ?dst = "?bs @ drop (getExternalSize locks p) dst"
  let ?q = "advanceSequenceNumber (q\<lparr>m_data := m_data p, m_valid := m_valid p,
     m_locked := (if locks then m_locked p else m_locked q)\<rparr>)"
  have len: "?n + 1 + (if locks then 1 else 0) \<le> length dst"
    using assms(1) by (simp add: getExternalSize_def split: if_splits)
  have "exportData dst (length dst) locks p = Inr (getExternalSize locks p, ?dst)"
    using len by (cases locks) (simp_all add: exportData_def memcpy_to_def getExternalSize_def)
  moreover have "importData ?dst (length ?dst) locks q = Inr (getExternalSize locks p, ?q)"
    using len assms(2)
    by (cases locks) (simp_all add: importData_def memcpy_from_def getExternalSize_def bool_byte_def)
  moreover have "length ?dst = length dst"
    using len by (cases locks) (simp_all add: getExternalSize_def)
  moreover have "drop (getExternalSize locks p) ?dst = drop (getExternalSize locks p) dst"
    by (simp add: getExternalSize_def)
  moreover have "m_data ?q = m_data p" "m_valid ?q = m_valid p"
    "m_locked ?q = (if locks then m_locked p else m_locked q)"
    by (simp_all add: advanceSequenceNumber_def Let_def)
  moreover have "m_seqNum ?q \<noteq> m_seqNum q"
    using advance_neq [of "q\<lparr>m_data := m_data p, m_valid := m_valid p,
     m_locked := (if locks then m_locked p else m_locked q)\<rparr>"] by simp
  ultimately show ?thesis
    by (intro exI [of _ ?dst] exI [of _ ?q]) simp
qed

lemma export_import_roundtrip_witness:
  "\<exists>dst' q'. exportData [0, 0, 0, 0, 9] 5 True (ModelPointCommon [1, 2] [0, 0] True) = Inr (4, dst') \<and>
    importData dst' (length dst') True (ModelPointCommon [3, 4] [0, 0] False) = Inr (4, q') \<and>
    m_data q' = [1, 2]"
proof -
  let ?p = "ModelPointCommon [1, 2] [0, 0] True :: u8 list point"
  let ?q = "ModelPointCommon [3, 4] [0, 0] False :: u8 list point"
  let ?d = "[0, 0, 0, 0, 9] :: u8 list"
  have h: "getExternalSize True ?p \<le> length ?d" "length (m_data ?q) = length (m_data ?p)"
    "length ?d = 5" "getExternalSize True ?p = 4" "m_data ?p = [1, 2]"
    by (simp_all add: ModelPointCommon_def getExternalSize_def)
  from export_import_roundtrip [OF h(1,2), unfolded h(3-)] show ?thesis
    by blast
qed

text \<open>
  The length check of export and import forgets the lock. With the lock included and a stream of
  exactly the size that \<open>getExternalSize\<close> gives by default, the check passes and the call then
  writes, respectively reads, one byte past the end of the stream.
\<close>

lemma export_locked_overruns:
  "exportData (replicate (getExternalSize False p) 0) (getExternalSize False p) True p = Inl OutOfBounds \<and>
   importData (replicate (getExternalSize False p) 0) (getExternalSize False p) True p = Inl OutOfBounds"
  by (simp_all add: exportData_def importData_def getExternalSize_def memcpy_to_def memcpy_from_def)

end
