(* ===== verification/Ring_Buffer.thy ===== *)
theory Ring_Buffer
  imports Prelude
begin

text \<open>
  Cpl::Container::RingBuffer (src/src/Cpl/Container/RingBuffer.h): a single producer, single consumer
  ring buffer over caller supplied memory. A pointer into the element memory is modelled by its
  offset from \<open>m_elements\<close>, so \<open>m_endOfMemPtr\<close> is the offset \<open>m_memoryNumElements\<close>. The
  count of items is computed in 32-bit \<open>unsigned\<close> arithmetic, as the code does.
\<close>

record 'a ring =
  m_headPtr :: nat
  m_tailPtr :: nat
  m_memoryNumElements :: nat
  m_elements :: "'a list"

definition RingBuffer :: "nat \<Rightarrow> 'a list \<Rightarrow> 'a ring" where
  "RingBuffer numElements memoryForElements =
     \<lparr>m_headPtr = 0, m_tailPtr = 0, m_memoryNumElements = numElements,
      m_elements = memoryForElements\<rparr>"

definition clearTheBuffer :: "'a ring \<Rightarrow> 'a ring" where
  "clearTheBuffer rb = rb\<lparr>m_headPtr := 0, m_tailPtr := 0\<rparr>"

definition isEmpty :: "'a ring \<Rightarrow> bool" where
  "isEmpty rb \<longleftrightarrow> m_headPtr rb = m_tailPtr rb"

definition isFull :: "'a ring \<Rightarrow> bool" where
  "isFull rb =
     (let nextElem = m_tailPtr rb + 1;
          nextElem = (if m_memoryNumElements rb \<le> nextElem then 0 else nextElem)
      in nextElem = m_headPtr rb)"

definition add :: "'a \<Rightarrow> 'a ring \<Rightarrow> bool \<times> 'a ring" where
  "add item rb =
     (if isFull rb then (False, rb)
      else let mem = (m_elements rb)[m_tailPtr rb := item];
               tail = m_tailPtr rb + 1;
               tail = (if m_memoryNumElements rb \<le> tail then 0 else tail)
           in (True, rb\<lparr>m_elements := mem, m_tailPtr := tail\<rparr>))"

definition remove :: "'a ring \<Rightarrow> 'a option \<times> 'a ring" where
  "remove rb =
     (if isEmpty rb then (None, rb)
      else let dst = m_elements rb ! m_headPtr rb;
               head = m_headPtr rb + 1;
               head = (if m_memoryNumElements rb \<le> head then 0 else head)
           in (Some dst, rb\<lparr>m_headPtr := head\<rparr>))"

definition peekHead :: "'a ring \<Rightarrow> 'a option" where
  "peekHead rb = (if isEmpty rb then None else Some (m_elements rb ! m_headPtr rb))"

definition peekTail :: "'a ring \<Rightarrow> 'a option" where
  "peekTail rb =
     (if isEmpty rb then None
      else let prevElem = (if m_tailPtr rb = 0 then m_memoryNumElements rb - 1
                           else m_tailPtr rb - 1)
           in Some (m_elements rb ! prevElem))"

definition getNumItems :: "'a ring \<Rightarrow> u32" where
  "getNumItems rb =
     (let headIdx = of_nat (m_headPtr rb);
          tailIdx = of_nat (m_tailPtr rb);
          tailIdx = (if tailIdx < headIdx then tailIdx + of_nat (m_memoryNumElements rb) else tailIdx)
      in tailIdx - headIdx)"

definition getMaxItems :: "'a ring \<Rightarrow> u32" where
  "getMaxItems rb = of_nat (m_memoryNumElements rb) - 1"

text \<open>
  The direct memory access interface: the peek operations return an offset and the number of
  elements that can be accessed from there without wrapping.
\<close>

definition peekNextRemoveItems :: "'a ring \<Rightarrow> (nat \<times> u32) option" where
  "peekNextRemoveItems rb =
     (if isEmpty rb then None
      else let totalNumElements = getNumItems rb;
               flat = of_nat (m_memoryNumElements rb - m_headPtr rb);
               flat = (if totalNumElements < flat then totalNumElements else flat)
           in Some (m_headPtr rb, flat))"

definition removeElements :: "nat \<Rightarrow> 'a ring \<Rightarrow> 'a ring" where
  "removeElements n rb =
     (let head = m_headPtr rb + n
      in rb\<lparr>m_headPtr := (if m_memoryNumElements rb \<le> head then 0 else head)\<rparr>)"

definition peekNextAddItems :: "'a ring \<Rightarrow> (nat \<times> u32) option" where
  "peekNextAddItems rb =
     (if isFull rb then None
      else let totalAvailElements = getMaxItems rb - getNumItems rb;
               flat = of_nat (m_memoryNumElements rb - m_tailPtr rb);
               flat = (if totalAvailElements < flat then totalAvailElements else flat)
           in Some (m_tailPtr rb, flat))"

definition addElements :: "nat \<Rightarrow> 'a ring \<Rightarrow> 'a ring" where
  "addElements n rb =
     (let tail = m_tailPtr rb + n
      in rb\<lparr>m_tailPtr := (if m_memoryNumElements rb \<le> tail then 0 else tail)\<rparr>)"

subsection \<open>The bounded queue contract\<close>

text \<open>
  What a client such as the event queue of a state machine relies on: a FIFO sequence of items with
  a fixed capacity. The client's view of a run is the list of answers its calls return.
\<close>

datatype 'a queue_op = Add 'a | Remove

datatype 'a queue_answer = Added bool | Removed "'a option"

fun queue_run ::
    "('a \<Rightarrow> 'q \<Rightarrow> bool \<times> 'q) \<Rightarrow> ('q \<Rightarrow> 'a option \<times> 'q) \<Rightarrow> 'a queue_op list \<Rightarrow> 'q \<Rightarrow>
     'a queue_answer list \<times> 'q" where
  "queue_run enq deq [] q = ([], q)"
| "queue_run enq deq (Add x # ops) q =
     (let (b, q') = enq x q; (as, q'') = queue_run enq deq ops q' in (Added b # as, q''))"
| "queue_run enq deq (Remove # ops) q =
     (let (r, q') = deq q; (as, q'') = queue_run enq deq ops q' in (Removed r # as, q''))"

fun fifo_run :: "nat \<Rightarrow> 'a queue_op list \<Rightarrow> 'a list \<Rightarrow> 'a queue_answer list \<times> 'a list" where
  "fifo_run n [] xs = ([], xs)"
| "fifo_run n (Add x # ops) xs =
     (if length xs < n then let (as, ys) = fifo_run n ops (xs @ [x]) in (Added True # as, ys)
      else let (as, ys) = fifo_run n ops xs in (Added False # as, ys))"
| "fifo_run n (Remove # ops) xs =
     (case xs of
        [] \<Rightarrow> let (as, ys) = fifo_run n ops [] in (Removed None # as, ys)
      | x # xs' \<Rightarrow> let (as, ys) = fifo_run n ops xs' in (Removed (Some x) # as, ys))"

locale bounded_queue =
  fixes enq :: "'a \<Rightarrow> 'q \<Rightarrow> bool \<times> 'q"
    and deq :: "'q \<Rightarrow> 'a option \<times> 'q"
    and items :: "'q \<Rightarrow> 'a list"
    and cap :: "'q \<Rightarrow> nat"
    and ok :: "'q \<Rightarrow> bool"
  assumes enq_room: "ok q \<Longrightarrow> length (items q) < cap q \<Longrightarrow>
      fst (enq x q) \<and> items (snd (enq x q)) = items q @ [x]"
    and enq_full: "ok q \<Longrightarrow> \<not> length (items q) < cap q \<Longrightarrow> enq x q = (False, q)"
    and deq_empty: "ok q \<Longrightarrow> items q = [] \<Longrightarrow> deq q = (None, q)"
    and deq_item: "ok q \<Longrightarrow> items q = y # ys \<Longrightarrow> fst (deq q) = Some y \<and> items (snd (deq q)) = ys"
    and ok_enq: "ok q \<Longrightarrow> ok (snd (enq x q))"
    and ok_deq: "ok q \<Longrightarrow> ok (snd (deq q))"
    and cap_enq: "cap (snd (enq x q)) = cap q"
    and cap_deq: "cap (snd (deq q)) = cap q"
begin

lemma run_refines_fifo:
  "ok q \<Longrightarrow>
   fst (queue_run enq deq ops q) = fst (fifo_run (cap q) ops (items q)) \<and>
   items (snd (queue_run enq deq ops q)) = snd (fifo_run (cap q) ops (items q)) \<and>
   ok (snd (queue_run enq deq ops q))"
proof (induction ops arbitrary: q)
  case Nil
  then show ?case by simp
next
  case (Cons a ops)
  show ?case
  proof (cases a)
    case (Add x)
    note IH = Cons.IH [OF ok_enq [OF Cons.prems, of x]]
    show ?thesis
      using IH Add enq_room [OF Cons.prems, of x] enq_full [OF Cons.prems, of x]
      by (auto simp: cap_enq split_beta Let_def)
  next
    case Remove
    note IH = Cons.IH [OF ok_deq [OF Cons.prems]]
    show ?thesis
      using IH Remove deq_empty [OF Cons.prems] deq_item [OF Cons.prems]
      by (cases "items q") (auto simp: cap_deq split_beta Let_def)
  qed
qed

lemma enq_length: "ok q \<Longrightarrow> length (items q) \<le> cap q \<Longrightarrow> length (items (snd (enq x q))) \<le> cap q"
  using enq_room [of q x] enq_full [of q x] by (cases "length (items q) < cap q") auto

end

subsection \<open>The ring buffer refines the bounded queue\<close>

definition ring_ok :: "'a ring \<Rightarrow> bool" where
  "ring_ok rb \<longleftrightarrow>
     0 < m_memoryNumElements rb \<and> m_memoryNumElements rb < 2 ^ 32 \<and>
     length (m_elements rb) = m_memoryNumElements rb \<and>
     m_headPtr rb < m_memoryNumElements rb \<and> m_tailPtr rb < m_memoryNumElements rb"

definition ring_count :: "'a ring \<Rightarrow> nat" where
  "ring_count rb =
     (if m_tailPtr rb < m_headPtr rb then m_tailPtr rb + m_memoryNumElements rb - m_headPtr rb
      else m_tailPtr rb - m_headPtr rb)"

definition ring_items :: "'a ring \<Rightarrow> 'a list" where
  "ring_items rb =
     map (\<lambda>k. m_elements rb ! ((m_headPtr rb + k) mod m_memoryNumElements rb)) [0..<ring_count rb]"

definition ring_capacity :: "'a ring \<Rightarrow> nat" where
  "ring_capacity rb = m_memoryNumElements rb - 1"

lemmas ring_defs = ring_ok_def ring_count_def ring_capacity_def

lemma length_ring_items [simp]: "length (ring_items rb) = ring_count rb"
  by (simp add: ring_items_def)

lemma ring_count_le: "ring_ok rb \<Longrightarrow> ring_count rb \<le> ring_capacity rb"
  by (auto simp: ring_defs)

lemma isEmpty_iff: "ring_ok rb \<Longrightarrow> isEmpty rb \<longleftrightarrow> ring_items rb = []"
  by (auto simp: ring_defs isEmpty_def ring_items_def)

lemma isFull_iff: "ring_ok rb \<Longrightarrow> isFull rb \<longleftrightarrow> ring_count rb = ring_capacity rb"
  by (auto simp: ring_defs isFull_def Let_def)

lemma tail_index: "ring_ok rb \<Longrightarrow> (m_headPtr rb + ring_count rb) mod m_memoryNumElements rb = m_tailPtr rb"
  by (auto simp: ring_defs)

lemma slot_before_tail:
  assumes "ring_ok rb" "k < ring_count rb"
  shows "(m_headPtr rb + k) mod m_memoryNumElements rb \<noteq> m_tailPtr rb"
  using assms by (auto simp: ring_defs mod_below_twice split: if_splits)

lemma next_index:
  "ring_ok rb \<Longrightarrow> (if m_memoryNumElements rb \<le> i + 1 then 0 else i + 1) < m_memoryNumElements rb"
  by (auto simp: ring_ok_def)

lemma ring_ok_add: "ring_ok rb \<Longrightarrow> ring_ok (snd (add x rb))"
  by (auto simp: add_def Let_def ring_ok_def)

lemma ring_ok_remove: "ring_ok rb \<Longrightarrow> ring_ok (snd (remove rb))"
  by (auto simp: remove_def Let_def ring_ok_def)

lemma ring_count_add:
  "ring_ok rb \<Longrightarrow> \<not> isFull rb \<Longrightarrow> ring_count (snd (add x rb)) = Suc (ring_count rb)"
  by (auto simp: add_def isFull_def ring_defs Let_def split: if_splits)

lemma ring_items_add:
  assumes "ring_ok rb" "\<not> isFull rb"
  shows "ring_items (snd (add x rb)) = ring_items rb @ [x]"
proof -
  let ?N = "m_memoryNumElements rb"
  have mem: "m_elements (snd (add x rb)) = (m_elements rb)[m_tailPtr rb := x]"
    and head: "m_headPtr (snd (add x rb)) = m_headPtr rb"
    and N: "m_memoryNumElements (snd (add x rb)) = ?N"
    using assms by (simp_all add: add_def Let_def)
  have last: "(m_elements rb)[m_tailPtr rb := x] ! ((m_headPtr rb + ring_count rb) mod ?N) = x"
    using assms tail_index [OF assms(1)] by (simp add: ring_ok_def)
  have old: "map (\<lambda>k. (m_elements rb)[m_tailPtr rb := x] ! ((m_headPtr rb + k) mod ?N)) [0..<ring_count rb]
      = ring_items rb"
    unfolding ring_items_def
    using slot_before_tail [OF assms(1)] by (intro map_cong) (auto intro!: nth_list_update_neq dest: sym)
  show ?thesis
    using old last
    by (simp add: ring_items_def [of "snd (add x rb)"] mem head N ring_count_add [OF assms])
qed

lemma ring_count_remove:
  "ring_ok rb \<Longrightarrow> \<not> isEmpty rb \<Longrightarrow> ring_count rb = Suc (ring_count (snd (remove rb)))"
  by (auto simp: remove_def isEmpty_def ring_defs Let_def)

lemma ring_items_remove:
  assumes "ring_ok rb" "\<not> isEmpty rb"
  shows "ring_items rb = m_elements rb ! m_headPtr rb # ring_items (snd (remove rb))"
proof -
  let ?N = "m_memoryNumElements rb"
  have step: "(m_headPtr (snd (remove rb)) + k) mod ?N = (m_headPtr rb + Suc k) mod ?N" for k
  proof (cases "?N \<le> m_headPtr rb + 1")
    case True
    with assms(1) have "Suc (m_headPtr rb) = ?N" by (simp add: ring_ok_def)
    then have "m_headPtr rb + Suc k = ?N + k" by simp
    then have "(m_headPtr rb + Suc k) mod ?N = k mod ?N" by (simp only: mod_add_self1)
    with True assms show ?thesis by (simp add: remove_def Let_def)
  qed (use assms in \<open>simp add: remove_def Let_def\<close>)
  have same: "m_elements (snd (remove rb)) = m_elements rb"
      "m_memoryNumElements (snd (remove rb)) = ?N"
    using assms by (simp_all add: remove_def Let_def)
  have hd: "m_headPtr rb mod ?N = m_headPtr rb"
    using assms by (simp add: ring_ok_def)
  show ?thesis
    using ring_count_remove [OF assms]
    by (simp add: ring_items_def map_upt_Cons same step hd del: upt_Suc)
qed

interpretation ring: bounded_queue add remove ring_items ring_capacity ring_ok
proof (unfold_locales, goal_cases)
  case (1 q x)
  then have "\<not> isFull q" by (auto simp: isFull_iff)
  with 1 show ?case by (simp add: ring_items_add) (simp add: add_def Let_def)
next
  case (2 q x)
  then have "isFull q" using ring_count_le [of q] by (simp add: isFull_iff)
  then show ?case by (simp add: add_def)
next
  case (3 q)
  then show ?case by (simp add: isEmpty_iff [symmetric] remove_def)
next
  case (4 q y ys)
  then have "\<not> isEmpty q" by (simp add: isEmpty_iff)
  with 4 ring_items_remove [of q] show ?case by (auto simp: remove_def Let_def)
next
  case (5 q x)
  then show ?case by (rule ring_ok_add)
next
  case (6 q)
  then show ?case by (rule ring_ok_remove)
qed (simp_all add: ring_capacity_def add_def remove_def Let_def)

subsection \<open>Counts, peeks and direct memory access\<close>

lemma unat_getNumItems: "ring_ok rb \<Longrightarrow> unat (getNumItems rb) = ring_count rb"
proof -
  assume ok: "ring_ok rb"
  have bound: "ring_count rb < 2 ^ 32" using ok by (auto simp: ring_defs)
  have le: "unat (of_nat i :: u32) = i" if "i < 2 ^ 32" for i
    using that by (simp add: unat_of_nat_small)
  have h: "unat (of_nat (m_headPtr rb) :: u32) = m_headPtr rb"
    and t: "unat (of_nat (m_tailPtr rb) :: u32) = m_tailPtr rb"
    using ok by (simp_all add: ring_ok_def le)
  have lt: "(of_nat (m_tailPtr rb) :: u32) < of_nat (m_headPtr rb) \<longleftrightarrow> m_tailPtr rb < m_headPtr rb"
    by (simp add: word_less_nat_alt h t)
  show ?thesis
  proof (cases "m_tailPtr rb < m_headPtr rb")
    case True
    then have "getNumItems rb = of_nat (ring_count rb)"
      using ok by (simp add: getNumItems_def Let_def lt ring_defs)
    then show ?thesis using bound by (simp only: le)
  next
    case False
    then have "getNumItems rb = of_nat (ring_count rb)"
      by (simp add: getNumItems_def Let_def lt ring_count_def)
    then show ?thesis using bound by (simp only: le)
  qed
qed

lemma unat_getMaxItems: "ring_ok rb \<Longrightarrow> unat (getMaxItems rb) = ring_capacity rb"
proof -
  assume ok: "ring_ok rb"
  then have "getMaxItems rb = of_nat (ring_capacity rb)"
    by (simp add: getMaxItems_def ring_defs Suc_leI)
  moreover have "ring_capacity rb < 2 ^ LENGTH(32)" using ok by (auto simp: ring_defs)
  ultimately show ?thesis by (simp only: unat_of_nat_small)
qed

lemma peekHead_items:
  "ring_ok rb \<Longrightarrow> peekHead rb = (case ring_items rb of [] \<Rightarrow> None | x # _ \<Rightarrow> Some x)"
  using ring_items_remove [of rb] by (auto simp: peekHead_def isEmpty_iff split: list.splits)

lemma peekTail_items:
  assumes "ring_ok rb"
  shows "peekTail rb = (if ring_items rb = [] then None else Some (last (ring_items rb)))"
proof (cases "isEmpty rb")
  case True
  with assms show ?thesis by (simp add: peekTail_def isEmpty_iff)
next
  case False
  let ?N = "m_memoryNumElements rb"
  from False assms have "ring_count rb \<noteq> 0"
    by (auto simp: isEmpty_def ring_defs)
  then obtain n where n: "ring_count rb = Suc n"
    by (cases "ring_count rb") auto
  have idx: "(m_headPtr rb + n) mod ?N = (if m_tailPtr rb = 0 then ?N - 1 else m_tailPtr rb - 1)"
    using n assms by (auto simp: ring_defs mod_below_twice split: if_splits)
  have "last (ring_items rb) = m_elements rb ! ((m_headPtr rb + n) mod ?N)"
    by (simp add: ring_items_def n)
  with False assms idx show ?thesis by (auto simp: peekTail_def isEmpty_iff Let_def)
qed

text \<open>
  The client of the direct memory interface writes a block of elements into the element memory at
  the offset it was given.
\<close>

definition blit :: "nat \<Rightarrow> 'a list \<Rightarrow> 'a list \<Rightarrow> 'a list" where
  "blit p xs mem = take p mem @ xs @ drop (p + length xs) mem"

lemma length_blit [simp]: "p + length xs \<le> length mem \<Longrightarrow> length (blit p xs mem) = length mem"
  by (simp add: blit_def)

lemma nth_blit:
  "p + length xs \<le> length mem \<Longrightarrow> i < length mem \<Longrightarrow>
   blit p xs mem ! i = (if p \<le> i \<and> i < p + length xs then xs ! (i - p) else mem ! i)"
  by (auto simp: blit_def nth_append)

lemma peekNextAddItems_flat:
  assumes "ring_ok rb" "peekNextAddItems rb = Some (p, n)"
  shows "p = m_tailPtr rb" "p + unat n \<le> m_memoryNumElements rb"
    "unat n \<le> ring_capacity rb - ring_count rb"
proof -
  have nw: "unat (of_nat (m_memoryNumElements rb - m_tailPtr rb) :: u32) = m_memoryNumElements rb - m_tailPtr rb"
    using assms(1) by (intro unat_of_nat_small) (auto simp: ring_ok_def)
  have av: "unat (getMaxItems rb - getNumItems rb) = ring_capacity rb - ring_count rb"
    using assms(1) ring_count_le [OF assms(1)]
    by (simp add: unat_word_sub_no_wrap unat_getMaxItems unat_getNumItems)
  show "p = m_tailPtr rb" "p + unat n \<le> m_memoryNumElements rb"
      "unat n \<le> ring_capacity rb - ring_count rb"
    using assms nw av
    by (auto simp: peekNextAddItems_def Let_def ring_ok_def word_less_nat_alt split: if_splits)
qed

lemma addElements_items:
  assumes ok: "ring_ok rb" and pk: "peekNextAddItems rb = Some (p, n)" and len: "length xs \<le> unat n"
  defines "rb' \<equiv> addElements (length xs) (rb\<lparr>m_elements := blit p xs (m_elements rb)\<rparr>)"
  shows "ring_ok rb' \<and> ring_items rb' = ring_items rb @ xs"
proof
  let ?N = "m_memoryNumElements rb"
  note flat = peekNextAddItems_flat [OF ok pk]
  have fit: "m_tailPtr rb + length xs \<le> ?N" and room: "ring_count rb + length xs < ?N"
    using flat len ok ring_count_le [OF ok] by (auto simp: ring_ok_def ring_capacity_def)
  show "ring_ok rb'"
    using ok fit flat(1) by (auto simp: rb'_def addElements_def Let_def ring_ok_def)
  have cnt: "ring_count rb' = ring_count rb + length xs"
    using ok fit room by (auto simp: rb'_def addElements_def Let_def ring_defs split: if_splits)
  have mem: "m_elements rb' = blit (m_tailPtr rb) xs (m_elements rb)"
    and h: "m_headPtr rb' = m_headPtr rb" and N: "m_memoryNumElements rb' = ?N"
    using flat(1) by (simp_all add: rb'_def addElements_def Let_def)
  have old: "blit (m_tailPtr rb) xs (m_elements rb) ! ((m_headPtr rb + k) mod ?N)
      = m_elements rb ! ((m_headPtr rb + k) mod ?N)" if "k < ring_count rb" for k
    using that ok fit room by (subst nth_blit) (auto simp: ring_defs mod_below_twice split: if_splits)
  have new: "blit (m_tailPtr rb) xs (m_elements rb) ! ((m_headPtr rb + (ring_count rb + j)) mod ?N)
      = xs ! j" if "j < length xs" for j
    using that ok fit room by (subst nth_blit) (auto simp: ring_defs mod_below_twice split: if_splits)
  show "ring_items rb' = ring_items rb @ xs"
  proof (rule nth_equalityI)
    fix i assume "i < length (ring_items rb')"
    then show "ring_items rb' ! i = (ring_items rb @ xs) ! i"
      using old [of i] new [of "i - ring_count rb"]
      by (auto simp: ring_items_def mem h N cnt nth_append)
  qed (simp add: cnt)
qed

lemma removeElements_items:
  assumes ok: "ring_ok rb" and pk: "peekNextRemoveItems rb = Some (p, n)" and k: "k \<le> unat n"
  shows "ring_ok (removeElements k rb) \<and>
     ring_items rb = take k (drop p (m_elements rb)) @ ring_items (removeElements k rb)"
proof
  let ?N = "m_memoryNumElements rb" and ?rb = "removeElements k rb"
  have nw: "unat (of_nat (?N - m_headPtr rb) :: u32) = ?N - m_headPtr rb"
    using ok by (intro unat_of_nat_small) (auto simp: ring_ok_def)
  have p: "p = m_headPtr rb" and fit: "m_headPtr rb + k \<le> ?N" and le: "k \<le> ring_count rb"
    using pk k ok nw unat_getNumItems [OF ok]
    by (auto simp: peekNextRemoveItems_def Let_def ring_ok_def word_less_nat_alt split: if_splits)
  show "ring_ok ?rb"
    using ok fit by (auto simp: removeElements_def Let_def ring_ok_def)
  have cnt: "ring_count ?rb = ring_count rb - k"
    using ok fit le by (auto simp: removeElements_def Let_def ring_defs split: if_splits)
  have idx: "(m_headPtr ?rb + j) mod ?N = (m_headPtr rb + (k + j)) mod ?N" for j
  proof (cases "?N \<le> m_headPtr rb + k")
    case True
    with fit have "m_headPtr rb + (k + j) = ?N + j" by simp
    then have "(m_headPtr rb + (k + j)) mod ?N = j mod ?N" by (simp only: mod_add_self1)
    with True show ?thesis by (simp add: removeElements_def Let_def)
  qed (simp add: removeElements_def Let_def add.assoc)
  have same: "m_elements ?rb = m_elements rb" "m_memoryNumElements ?rb = ?N"
    by (simp_all add: removeElements_def Let_def)
  show "ring_items rb = take k (drop p (m_elements rb)) @ ring_items ?rb"
  proof (rule nth_equalityI)
    show "length (ring_items rb) = length (take k (drop p (m_elements rb)) @ ring_items ?rb)"
      using ok fit le p by (simp add: cnt ring_ok_def)
    fix i assume "i < length (ring_items rb)"
    then show "ring_items rb ! i = (take k (drop p (m_elements rb)) @ ring_items ?rb) ! i"
      using ok fit le p idx [of "i - k"] by (auto simp: ring_items_def nth_append same cnt ring_ok_def)
  qed
qed

subsection \<open>Properties\<close>

text \<open>
  C10. The ring buffer is a bounded FIFO queue: for every sequence of add and remove calls, each call
  answers as it would on a list of capacity one less than the number of memory slots, the buffer
  holds exactly the items of that list, and its indices stay within the memory.
\<close>

theorem ring_run_is_fifo:
  assumes "ring_ok rb"
  shows "fst (queue_run add remove ops rb) = fst (fifo_run (ring_capacity rb) ops (ring_items rb)) \<and>
    ring_items (snd (queue_run add remove ops rb)) = snd (fifo_run (ring_capacity rb) ops (ring_items rb)) \<and>
    ring_ok (snd (queue_run add remove ops rb))"
  using assms by (rule ring.run_refines_fifo)

theorem ring_run_is_fifo_witness:
  "fst (queue_run add remove [Add 1, Add 2, Add 3, Remove, Remove, Remove] (RingBuffer 3 [0, 0, 0 :: nat])) =
     [Added True, Added True, Added False, Removed (Some 1), Removed (Some 2), Removed None]"
  using ring_run_is_fifo [of "RingBuffer 3 [0, 0, 0 :: nat]" "[Add 1, Add 2, Add 3, Remove, Remove, Remove]"]
  by (simp add: RingBuffer_def ring_defs ring_items_def)

text \<open>
  The direct memory interface agrees with the queue: elements written at the offset that
  \<open>peekNextAddItems\<close> returned, as many as it allowed, are appended in order by \<open>addElements\<close>, exactly as
  if they had been added one by one.
\<close>

lemma ring_block_add_appends:
  assumes "ring_ok rb" "peekNextAddItems rb = Some (p, n)" "length xs \<le> unat n"
  shows "ring_ok (addElements (length xs) (rb\<lparr>m_elements := blit p xs (m_elements rb)\<rparr>)) \<and>
    ring_items (addElements (length xs) (rb\<lparr>m_elements := blit p xs (m_elements rb)\<rparr>)) = ring_items rb @ xs"
  using addElements_items [OF assms] .

lemma ring_block_add_appends_witness:
  "ring_items (addElements 2 ((RingBuffer 4 [0, 0, 0, 0 :: nat])\<lparr>m_elements := blit 0 [7, 8] [0, 0, 0, 0]\<rparr>)) = [7, 8]"
proof -
  let ?rb = "RingBuffer 4 [0, 0, 0, 0 :: nat]"
  have rb: "ring_ok ?rb" "peekNextAddItems ?rb = Some (0, 3)" "ring_items ?rb = []"
    by (simp_all add: RingBuffer_def ring_defs ring_items_def peekNextAddItems_def isFull_def getMaxItems_def
        getNumItems_def)
  have two: "length [7, 8 :: nat] = 2" "length [7, 8 :: nat] \<le> unat (3 :: u32)" by simp_all
  from ring_block_add_appends [OF rb(1,2) two(2)] rb(3) show ?thesis
    unfolding two(1) by (simp add: RingBuffer_def)
qed

text \<open>
  Removing a block: the elements that lie at the offset returned by \<open>peekNextRemoveItems\<close> are the
  oldest items of the queue, and \<open>removeElements\<close> removes exactly those.
\<close>

lemma ring_block_remove_takes:
  assumes "ring_ok rb" "peekNextRemoveItems rb = Some (p, n)" "k \<le> unat n"
  shows "ring_ok (removeElements k rb) \<and>
    ring_items rb = take k (drop p (m_elements rb)) @ ring_items (removeElements k rb)"
  using removeElements_items [OF assms] .

lemma ring_block_remove_takes_witness:
  "ring_items (removeElements 2 \<lparr>m_headPtr = 2, m_tailPtr = 1, m_memoryNumElements = 4,
     m_elements = [30, 0, 10, 20 :: nat]\<rparr>) = [30]"
proof -
  let ?rb = "\<lparr>m_headPtr = 2, m_tailPtr = 1, m_memoryNumElements = 4, m_elements = [30, 0, 10, 20 :: nat]\<rparr>"
  have rb: "ring_ok ?rb" "peekNextRemoveItems ?rb = Some (2, 2)" "ring_items ?rb = [10, 20, 30]"
    by (simp_all add: ring_defs ring_items_def peekNextRemoveItems_def isEmpty_def getNumItems_def)
      (simp_all add: upt_conv_Cons)
  from ring_block_remove_takes [OF rb(1,2), of 2] rb(3) show ?thesis by simp
qed

end
