(* ===== verification/Float_Arith.thy ===== *)
theory Float_Arith
  imports Complex_Main Prelude
begin

text \<open>
  IEEE 754 binary floating point as the sources use it (\<open>float\<close> is binary32, \<open>double\<close> is
  binary64). A finite floating point number is the rational it denotes; an arithmetic operation is
  the exact rational operation followed by rounding to nearest, ties to even, with gradual
  underflow. Infinities and NaN are not modelled: the operands of the modelled code are bounded far
  below the largest finite values.
\<close>

subsection \<open>Rounding\<close>

function nbits :: "int \<Rightarrow> nat" where
  "nbits n = (if n \<le> 0 then 0 else Suc (nbits (n div 2)))"
  by pat_completeness auto
termination
  by (relation "measure nat") auto

declare nbits.simps [simp del]

definition ilog2 :: "rat \<Rightarrow> int" where
  "ilog2 x = (if 1 \<le> x then int (nbits \<lfloor>x\<rfloor>) - 1 else - int (nbits (\<lceil>1 / x\<rceil> - 1)))"

definition rne :: "rat \<Rightarrow> int" where
  "rne x = (let f = \<lfloor>x\<rfloor>; r = x - of_int f
            in if r < 1 / 2 then f else if 1 / 2 < r then f + 1 else if even f then f else f + 1)"

definition fl :: "int \<Rightarrow> int \<Rightarrow> rat \<Rightarrow> rat" where
  "fl p emin x =
     (if x = 0 then 0
      else let e = max (ilog2 \<bar>x\<bar>) emin; q = 2 powi (e - p + 1) in of_int (rne (x / q)) * q)"

definition fl32 :: "rat \<Rightarrow> rat" where
  "fl32 = fl 24 (-126)"

definition fl64 :: "rat \<Rightarrow> rat" where
  "fl64 = fl 53 (-1022)"

definition float_to_u32 :: "rat \<Rightarrow> u32 result" where
  "float_to_u32 x =
     (if -1 < x \<and> x < 4294967296 then Inr (of_int (if x < 0 then 0 else \<lfloor>x\<rfloor>))
      else Inl UndefinedConversion)"

subsection \<open>Bit lengths and exponents\<close>

lemma nbits_pos: "0 < n \<Longrightarrow> 0 < nbits n"
  by (subst nbits.simps) simp

lemma nbits_bounds: "0 < n \<Longrightarrow> 2 ^ (nbits n - 1) \<le> n \<and> n + 1 \<le> 2 ^ nbits n"
proof (induction n rule: nbits.induct)
  case (1 n)
  show ?case
  proof (cases "n div 2 = 0")
    case True
    with 1 have "n = 1" by auto
    then show ?thesis by (simp add: nbits.simps [of 1] nbits.simps [of 0])
  next
    case False
    with 1 have pos: "0 < n div 2" by auto
    with 1 have IH: "2 ^ (nbits (n div 2) - 1) \<le> n div 2 \<and> n div 2 + 1 \<le> 2 ^ nbits (n div 2)" by simp
    obtain b where b: "nbits (n div 2) = Suc b" using nbits_pos [OF pos] by (cases "nbits (n div 2)") auto
    have "nbits n = Suc (Suc b)" using 1 b by (subst nbits.simps) simp
    with IH b show ?thesis by auto
  qed
qed

lemma nbits_bounds_rat:
  assumes "0 < n"
  shows "2 ^ (nbits n - 1) \<le> (of_int n :: rat)" "(of_int n :: rat) + 1 \<le> 2 ^ nbits n"
proof -
  have "of_int (2 ^ (nbits n - 1)) \<le> (of_int n :: rat)" "(of_int (n + 1) :: rat) \<le> of_int (2 ^ nbits n)"
    using nbits_bounds [OF assms] by (simp_all only: of_int_le_iff)
  then show "2 ^ (nbits n - 1) \<le> (of_int n :: rat)" "(of_int n :: rat) + 1 \<le> 2 ^ nbits n" by simp_all
qed

lemma ilog2_bounds:
  assumes "0 < x"
  shows "2 powi ilog2 x \<le> x \<and> x < 2 powi (ilog2 x + 1)"
proof (cases "1 \<le> x")
  case True
  let ?n = "\<lfloor>x\<rfloor>"
  have n: "0 < ?n" using True by simp
  have e: "ilog2 x = int (nbits ?n - 1)" "ilog2 x + 1 = int (nbits ?n)"
    using True nbits_pos [OF n] by (simp_all add: ilog2_def of_nat_diff)
  show ?thesis
    unfolding e(2) unfolding e(1) power_int_of_nat
    using nbits_bounds_rat [OF n] floor_correct [of x] by linarith
next
  case False
  let ?n = "\<lceil>1 / x\<rceil> - 1"
  have "1 < 1 / x" using assms False by simp
  then have "1 < \<lceil>1 / x\<rceil>" by (metis ceiling_le_iff linorder_not_le of_int_1)
  then have n: "0 < ?n" by linarith
  have inv: "1 / x \<le> of_int ?n + 1" "of_int ?n < 1 / x"
    using ceiling_correct [of "1 / x"] unfolding of_int_diff of_int_1 by linarith+
  have e: "ilog2 x = - int (nbits ?n)" "ilog2 x + 1 = - int (nbits ?n - 1)"
    using False nbits_pos [OF n] by (simp_all add: ilog2_def of_nat_diff)
  have "1 / x \<le> 2 ^ nbits ?n" "2 ^ (nbits ?n - 1) < 1 / x"
    using inv nbits_bounds_rat [OF n] by linarith+
  then show ?thesis using assms
    unfolding e(2) unfolding e(1) power_int_minus power_int_of_nat
    by (simp add: field_simps)
qed

lemma powi2_less: "a < b \<Longrightarrow> (2::rat) powi a < 2 powi b"
  by (rule power_int_strict_increasing) simp_all

lemma powi2_less_iff: "(2::rat) powi a < 2 powi b \<longleftrightarrow> a < b"
  using powi2_less [of a b] powi2_less [of b a] by (cases a b rule: linorder_cases) auto

lemma powi2_le_iff: "(2::rat) powi a \<le> 2 powi b \<longleftrightarrow> a \<le> b"
  using powi2_less_iff [of b a] by linarith

lemma ilog2_mono: "0 < x \<Longrightarrow> x \<le> y \<Longrightarrow> ilog2 x \<le> ilog2 y"
proof -
  assume "0 < x" "x \<le> y"
  then have "2 powi ilog2 x < (2::rat) powi (ilog2 y + 1)"
    using ilog2_bounds [of x] ilog2_bounds [of y] by linarith
  then show ?thesis by (simp add: powi2_less_iff)
qed

lemma ilog2_unique:
  assumes "2 powi e \<le> x" "x < 2 powi (e + 1)"
  shows "ilog2 x = e"
proof -
  have pos: "0 < x" using assms(1) zero_less_power_int [of "2::rat" e] by linarith
  have "2 powi e < (2::rat) powi (ilog2 x + 1)" "2 powi ilog2 x < (2::rat) powi (e + 1)"
    using ilog2_bounds [OF pos] assms by linarith+
  then show ?thesis by (simp add: powi2_less_iff)
qed

subsection \<open>Laws of rounding\<close>

lemma rne_of_int [simp]: "rne (of_int n) = n"
  by (simp add: rne_def)

lemma rne_floor: "rne x = \<lfloor>x\<rfloor> \<or> rne x = \<lfloor>x\<rfloor> + 1 \<and> of_int \<lfloor>x\<rfloor> + 1 / 2 \<le> x"
  by (auto simp: rne_def Let_def)

lemma rne_mono: "x \<le> y \<Longrightarrow> rne x \<le> rne y"
proof -
  assume xy: "x \<le> y"
  then have "\<lfloor>x\<rfloor> \<le> \<lfloor>y\<rfloor>" by (rule floor_mono)
  then consider "\<lfloor>x\<rfloor> = \<lfloor>y\<rfloor>" | "\<lfloor>x\<rfloor> + 1 \<le> \<lfloor>y\<rfloor>" by linarith
  then show ?thesis
  proof cases
    case 1
    with xy show ?thesis by (auto simp: rne_def Let_def)
  next
    case 2
    with rne_floor [of x] rne_floor [of y] show ?thesis by linarith
  qed
qed

lemma rne_minus: "rne (- x) = - rne x"
proof (cases "x \<in> \<int>")
  case True
  then obtain n where "x = of_int n" by (auto elim: Ints_cases)
  then show ?thesis using rne_of_int [of "- n"] by simp
next
  case False
  then have "x \<noteq> of_int \<lfloor>x\<rfloor>" by (metis Ints_of_int)
  then have "\<lfloor>- x\<rfloor> = - \<lfloor>x\<rfloor> - 1"
    using ceiling_altdef [of x] floor_minus [of x] by (auto split: if_splits)
  then show ?thesis by (auto simp: rne_def Let_def)
qed

definition grid :: "rat \<Rightarrow> rat \<Rightarrow> rat" where
  "grid q x = of_int (rne (x / q)) * q"

lemma grid_mono: "0 < q \<Longrightarrow> x \<le> y \<Longrightarrow> grid q x \<le> grid q y"
  by (simp add: grid_def rne_mono divide_right_mono)

lemma grid_fixed: "0 < q \<Longrightarrow> x = of_int n * q \<Longrightarrow> grid q x = x"
  by (simp add: grid_def)

lemma grid_powi:
  assumes "j \<le> k"
  shows "grid (2 powi j) (2 powi k) = 2 powi k"
proof (rule grid_fixed)
  have "(2::rat) powi k = 2 powi (k - j) * 2 powi j"
    using power_int_add [of "2::rat" "k - j" j] by simp
  also have "(2::rat) powi (k - j) = of_int (2 ^ nat (k - j))"
    using assms by (simp add: power_int_def)
  finally show "(2::rat) powi k = of_int (2 ^ nat (k - j)) * 2 powi j" .
qed simp

definition fl_exp :: "int \<Rightarrow> rat \<Rightarrow> int" where
  "fl_exp emin x = max (ilog2 \<bar>x\<bar>) emin"

lemma fl_grid: "x \<noteq> 0 \<Longrightarrow> fl p emin x = grid (2 powi (fl_exp emin x - p + 1)) x"
  by (simp add: fl_def grid_def fl_exp_def Let_def)

lemma fl_0 [simp]: "fl p emin 0 = 0"
  by (simp add: fl_def)

lemma fl_minus: "fl p emin (- x) = - fl p emin x"
  by (cases "x = 0") (simp_all add: fl_grid grid_def fl_exp_def rne_minus)

lemma fl_upper:
  assumes "0 < x" "0 \<le> p"
  shows "fl p emin x \<le> 2 powi (fl_exp emin x + 1)"
proof -
  let ?E = "fl_exp emin x"
  have "x \<le> 2 powi (ilog2 x + 1)" using ilog2_bounds [OF assms(1)] by simp
  also have "\<dots> \<le> 2 powi (?E + 1)" using assms(1) by (simp add: powi2_le_iff fl_exp_def)
  finally have "grid (2 powi (?E - p + 1)) x \<le> grid (2 powi (?E - p + 1)) (2 powi (?E + 1))"
    by (intro grid_mono) simp_all
  then show ?thesis using assms by (simp add: fl_grid grid_powi)
qed

lemma fl_lower:
  assumes "0 < x" "1 \<le> p" "emin \<le> ilog2 x"
  shows "2 powi fl_exp emin x \<le> fl p emin x"
proof -
  let ?E = "fl_exp emin x"
  have "2 powi ?E \<le> x" using ilog2_bounds [OF assms(1)] assms by (simp add: fl_exp_def)
  then have "grid (2 powi (?E - p + 1)) (2 powi ?E) \<le> grid (2 powi (?E - p + 1)) x"
    by (intro grid_mono) simp_all
  then show ?thesis using assms by (simp add: fl_grid grid_powi)
qed

lemma fl_nonneg: "0 \<le> x \<Longrightarrow> 0 \<le> fl p emin x"
proof (cases "x = 0")
  case False
  assume "0 \<le> x"
  then have "grid (2 powi (fl_exp emin x - p + 1)) 0 \<le> grid (2 powi (fl_exp emin x - p + 1)) x"
    by (intro grid_mono) simp_all
  with False show ?thesis using rne_of_int [of 0] by (simp add: fl_grid) (simp add: grid_def)
qed simp

lemma fl_mono_pos:
  assumes "0 < x" "x \<le> y" "1 \<le> p"
  shows "fl p emin x \<le> fl p emin y"
proof -
  have y: "0 < y" using assms by simp
  have "ilog2 x \<le> ilog2 y" using assms by (intro ilog2_mono)
  then consider "fl_exp emin x = fl_exp emin y" | "fl_exp emin x + 1 \<le> fl_exp emin y" "emin \<le> ilog2 y"
    using assms y by (fastforce simp: fl_exp_def)
  then show ?thesis
  proof cases
    case 1
    with assms y show ?thesis by (simp add: fl_grid grid_mono)
  next
    case 2
    have "fl p emin x \<le> 2 powi (fl_exp emin x + 1)" using assms by (intro fl_upper) simp_all
    also have "\<dots> \<le> 2 powi fl_exp emin y" using 2 by (simp add: powi2_le_iff)
    also have "\<dots> \<le> fl p emin y" using 2 assms y by (intro fl_lower)
    finally show ?thesis .
  qed
qed

lemma fl_mono: "x \<le> y \<Longrightarrow> 1 \<le> p \<Longrightarrow> fl p emin x \<le> fl p emin y"
proof -
  assume xy: "x \<le> y" and p: "1 \<le> p"
  consider "0 < x" | "y < 0" | "x \<le> 0" "0 \<le> y" by linarith
  then show ?thesis
  proof cases
    case 1
    then show ?thesis using xy p by (rule fl_mono_pos)
  next
    case 2
    then show ?thesis using fl_mono_pos [of "- y" "- x" p emin] xy p by (simp add: fl_minus)
  next
    case 3
    have "fl p emin x \<le> 0" using fl_nonneg [of "- x" p emin] 3 by (simp add: fl_minus)
    also have "0 \<le> fl p emin y" using 3 by (intro fl_nonneg)
    finally show ?thesis .
  qed
qed

text \<open>A number with a short enough significand and a large enough exponent is not changed.\<close>

lemma fl_representable:
  assumes "x = of_int n * 2 powi k" "\<bar>n\<bar> < 2 ^ nat p" "emin - p + 1 \<le> k" "1 \<le> p"
  shows "fl p emin x = x"
proof (cases "x = 0")
  case False
  let ?E = "fl_exp emin x"
  have n: "n \<noteq> 0" using False assms(1) by auto
  have ax: "\<bar>x\<bar> = of_int \<bar>n\<bar> * 2 powi k" using assms(1) by (simp add: abs_mult)
  have "of_int \<bar>n\<bar> < (of_int (2 ^ nat p) :: rat)" using assms(2) by (simp only: of_int_less_iff)
  also have "(of_int (2 ^ nat p) :: rat) = 2 powi p" using assms(4) by (simp add: power_int_def)
  finally have "\<bar>x\<bar> < 2 powi p * 2 powi k" unfolding ax by (intro mult_strict_right_mono) simp_all
  then have "\<bar>x\<bar> < 2 powi (p + k)" by (simp add: power_int_add)
  moreover have "2 powi ilog2 \<bar>x\<bar> \<le> \<bar>x\<bar>" using False by (simp add: ilog2_bounds)
  ultimately have "ilog2 \<bar>x\<bar> < p + k" using powi2_less_iff [of "ilog2 \<bar>x\<bar>" "p + k"] by linarith
  then have le: "?E - p + 1 \<le> k" using assms(3) by (simp add: fl_exp_def)
  have mult: "x = of_int (n * 2 ^ nat (k - (?E - p + 1))) * 2 powi (?E - p + 1)"
  proof -
    have "(2::rat) powi k = 2 powi (k - (?E - p + 1)) * 2 powi (?E - p + 1)"
      using power_int_add [of "2::rat" "k - (?E - p + 1)" "?E - p + 1"] by simp
    moreover have "(2::rat) powi (k - (?E - p + 1)) = of_int (2 ^ nat (k - (?E - p + 1)))"
      using le by (simp add: power_int_def)
    ultimately show ?thesis using assms(1) by simp
  qed
  have "grid (2 powi (?E - p + 1)) x = x" by (rule grid_fixed [OF _ mult]) simp
  then show ?thesis using False by (simp add: fl_grid)
qed simp

lemma fl32_mono: "x \<le> y \<Longrightarrow> fl32 x \<le> fl32 y"
  by (simp add: fl32_def fl_mono)

lemma fl32_0 [simp]: "fl32 0 = 0"
  by (simp add: fl32_def)

lemma fl32_minus [simp]: "fl32 (- x) = - fl32 x"
  by (simp add: fl32_def fl_minus)

lemma fl32_of_int: "\<bar>n\<bar> < 2 ^ 24 \<Longrightarrow> fl32 (of_int n) = of_int n"
  unfolding fl32_def by (rule fl_representable [where n = n and k = 0]) simp_all

lemma fl32_numeral [simp]: "numeral n < (16777216::int) \<Longrightarrow> fl32 (numeral n) = numeral n"
  using fl32_of_int [of "numeral n"] by simp

lemma fl32_1 [simp]: "fl32 1 = 1"
  using fl32_of_int [of 1] by simp

end
