(* ===== verification/Duty_Cycle.thy ===== *)
theory Duty_Cycle
  imports Float_Arith
begin

text \<open>
  Storm::Utils::DutyCycle (src/src/Storm/Utils/DutyCycle.cpp) and the float comparison it uses
  (src/src/Cpl/Math/real.h): the mapping from the load (the process variable) to the on and off
  times of an equipment cycle. The cycles-per-hour option is stored as an \<open>int\<close> in the stage
  configuration and converted unchecked, so it is an integer here: 0..4 are the options e2CPH to
  e6CPH, 5 is eNUM_OPTIONS, anything else reads outside of the tables.
\<close>

definition FLT_EPSILON :: rat where
  "FLT_EPSILON = 1 / 8388608"

definition almostEquals :: "rat \<Rightarrow> rat \<Rightarrow> rat \<Rightarrow> bool" where
  "almostEquals a b epsilon =
     (if a = b then True
      else let diff = \<bar>fl32 (a - b)\<bar>
           in if (a = 0 \<or> b = 0) \<and> diff < epsilon then diff < fl32 (epsilon * epsilon)
              else fl32 (diff / fl32 (\<bar>a\<bar> + \<bar>b\<bar>)) < epsilon)"

definition areFloatsEqual :: "rat \<Rightarrow> rat \<Rightarrow> bool" where
  "areFloatsEqual a b = almostEquals a b FLT_EPSILON"

definition k_table :: "int \<Rightarrow> rat result" where
  "k_table cph =
     (if cph = 0 then Inr 450 else if cph = 1 then Inr 300 else if cph = 2 then Inr 225
      else if cph = 3 then Inr 180 else if cph = 4 then Inr 150 else Inl OutOfBounds)"

definition maxMinimumTimeLimits :: "int \<Rightarrow> u32 result" where
  "maxMinimumTimeLimits cph =
     (if cph = 0 then Inr 900 else if cph = 1 then Inr 600 else if cph = 2 then Inr 450
      else if cph = 3 then Inr 360 else if cph = 4 then Inr 300 else Inl OutOfBounds)"

definition normalizePv :: "rat \<Rightarrow> rat \<Rightarrow> rat \<Rightarrow> rat result" where
  "normalizePv pvVar pvLowerBound pvUpperBound =
     (let range = fl32 (pvUpperBound - pvLowerBound)
      in if pvVar < pvLowerBound then Inr 0
         else if range = 0 then Inl NonFinite
         else let pv = fl32 (fl32 (pvVar - pvLowerBound) / range)
              in Inr (if 1 < pv then 1 else pv))"

definition getMaximumMinOnTime :: "int \<Rightarrow> u32 result" where
  "getMaximumMinOnTime cph = (if cph = 5 then Inl FatalError else maxMinimumTimeLimits cph)"

definition getMaximumMinOffTime :: "int \<Rightarrow> u32 result" where
  "getMaximumMinOffTime cph = (if cph = 5 then Inl FatalError else maxMinimumTimeLimits cph)"

definition calculateOffTime :: "rat \<Rightarrow> u32 \<Rightarrow> int \<Rightarrow> rat \<Rightarrow> rat \<Rightarrow> u32 result" where
  "calculateOffTime pvVar minOffTime cph pvLowerBound pvUpperBound =
     (if cph = 5 then Inl FatalError
      else bindR (normalizePv pvVar pvLowerBound pvUpperBound) (\<lambda>pv.
           bindR (if areFloatsEqual pv 0 then Inr 0xFFFFFFFF
                  else bindR (k_table cph) (\<lambda>k. float_to_u32 (fl32 (k / pv)))) (\<lambda>cycleTime.
           bindR (getMaximumMinOffTime cph) (\<lambda>timeLimit.
           let minOffTime = (if timeLimit < minOffTime then timeLimit else minOffTime)
           in Inr (if cycleTime < minOffTime then minOffTime else cycleTime)))))"

definition calculateOnTime :: "rat \<Rightarrow> u32 \<Rightarrow> int \<Rightarrow> rat \<Rightarrow> rat \<Rightarrow> u32 result" where
  "calculateOnTime pvVar minOnTime cph pvLowerBound pvUpperBound =
     (if cph = 5 then Inl FatalError
      else bindR (normalizePv pvVar pvLowerBound pvUpperBound) (\<lambda>pv.
           let divisor = fl32 (1 - pv) in
           bindR (if areFloatsEqual divisor 0 then Inr 0xFFFFFFFF
                  else bindR (k_table cph) (\<lambda>k. float_to_u32 (fl32 (k / fl32 (1 - pv))))) (\<lambda>cycleTime.
           bindR (getMaximumMinOnTime cph) (\<lambda>timeLimit.
           let minOnTime = (if timeLimit < minOnTime then timeLimit else minOnTime)
           in Inr (if cycleTime < minOnTime then minOnTime else cycleTime)))))"

subsection \<open>The two times as one function of the share of the cycle\<close>

text \<open>
  Both times are \<open>k / s\<close> for a share \<open>s\<close> of the cycle: the load for the off time and one minus
  the load for the on time.
\<close>

definition cycle_time :: "rat \<Rightarrow> u32 \<Rightarrow> int \<Rightarrow> u32 result" where
  "cycle_time s minTime cph =
     bindR (if areFloatsEqual s 0 then Inr 0xFFFFFFFF
            else bindR (k_table cph) (\<lambda>k. float_to_u32 (fl32 (k / s)))) (\<lambda>t.
     bindR (maxMinimumTimeLimits cph) (\<lambda>limit. Inr (max t (min limit minTime))))"

lemma calculateOffTime_eq:
  "cph \<noteq> 5 \<Longrightarrow> calculateOffTime pv m cph lo hi = bindR (normalizePv pv lo hi) (\<lambda>n. cycle_time n m cph)"
  by (simp add: calculateOffTime_def cycle_time_def getMaximumMinOffTime_def max_def min_def Let_def not_less
      cong: bindR_cong) (auto intro!: bindR_cong simp: max_def min_def)

lemma calculateOnTime_eq:
  "cph \<noteq> 5 \<Longrightarrow>
   calculateOnTime pv m cph lo hi = bindR (normalizePv pv lo hi) (\<lambda>n. cycle_time (fl32 (1 - n)) m cph)"
  by (simp add: calculateOnTime_def cycle_time_def getMaximumMinOnTime_def max_def min_def Let_def not_less
      cong: bindR_cong) (auto intro!: bindR_cong simp: max_def min_def)

lemma fl32_nonneg: "0 \<le> x \<Longrightarrow> 0 \<le> fl32 x"
  using fl32_mono [of 0 x] by simp

lemma fl32_eps2: "fl32 (FLT_EPSILON * FLT_EPSILON) = FLT_EPSILON * FLT_EPSILON"
  unfolding fl32_def
  by (rule fl_representable [where n = 1 and k = "-46"])
    (simp_all add: FLT_EPSILON_def power_int_def power_divide)

lemma areFloatsEqual_0_iff:
  assumes "0 \<le> s"
  shows "areFloatsEqual s 0 \<longleftrightarrow> s = 0 \<or> fl32 s < FLT_EPSILON * FLT_EPSILON"
proof (cases "s = 0 \<or> fl32 s < FLT_EPSILON")
  case True
  then show ?thesis
    using fl32_nonneg [OF assms] by (auto simp: areFloatsEqual_def almostEquals_def Let_def fl32_eps2)
next
  case False
  then have "fl32 s \<noteq> 0" by (auto simp: FLT_EPSILON_def)
  moreover have "FLT_EPSILON * FLT_EPSILON < FLT_EPSILON" by (simp add: FLT_EPSILON_def)
  ultimately show ?thesis
    using False assms fl32_nonneg [OF assms]
    by (auto simp: areFloatsEqual_def almostEquals_def Let_def FLT_EPSILON_def)
qed

lemma areFloatsEqual_0_mono:
  assumes "0 \<le> s" "s \<le> s'" "areFloatsEqual s' 0"
  shows "areFloatsEqual s 0"
  using assms fl32_mono [of s s'] by (auto simp: areFloatsEqual_0_iff)

lemma float_to_u32_mono:
  assumes "float_to_u32 x = Inr u" "float_to_u32 y = Inr v" "x \<le> y"
  shows "u \<le> v"
proof -
  let ?fx = "if x < 0 then 0 else \<lfloor>x\<rfloor>" and ?fy = "if y < 0 then 0 else \<lfloor>y\<rfloor>"
  have uv: "u = of_int ?fx" "v = of_int ?fy" and lim: "x < 4294967296" "y < 4294967296"
    using assms by (auto simp: float_to_u32_def split: if_splits)
  have "0 \<le> ?fx" "?fx < 4294967296" "0 \<le> ?fy" "?fy < 4294967296"
    using lim by (auto simp: floor_less_iff)
  then have "uint u = ?fx" "uint v = ?fy"
    unfolding uv by (simp_all add: uint_word_of_int_eq take_bit_int_eq_self)
  moreover have "?fx \<le> ?fy" using assms(3) by (auto simp: floor_mono)
  ultimately show ?thesis by (simp add: word_le_def)
qed

lemma k_table_pos: "k_table cph = Inr k \<Longrightarrow> 150 \<le> k \<and> k \<le> 450"
  by (auto simp: k_table_def split: if_splits)

lemma cycle_time_antimono:
  assumes "cycle_time s m cph = Inr t" "cycle_time s' m cph = Inr t'" "0 \<le> s" "s \<le> s'"
  shows "t' \<le> t"
proof -
  let ?raw = "\<lambda>x. if areFloatsEqual x 0 then Inr 0xFFFFFFFF
            else bindR (k_table cph) (\<lambda>k. float_to_u32 (fl32 (k / x)))"
  from assms(1,2) obtain r r' l where r: "?raw s = Inr r" "?raw s' = Inr r'"
    and t: "t = max r (min l m)" "t' = max r' (min l m)"
    by (auto simp: cycle_time_def)
  have "r' \<le> r"
  proof (cases "areFloatsEqual s 0")
    case True
    then have "r = - 1" using r by simp
    then show ?thesis by simp
  next
    case False
    then have nz: "\<not> areFloatsEqual s' 0" using areFloatsEqual_0_mono assms by blast
    from False r nz obtain k where k: "k_table cph = Inr k"
      "float_to_u32 (fl32 (k / s)) = Inr r" "float_to_u32 (fl32 (k / s')) = Inr r'"
      by auto
    have "0 < s" using False assms(3) areFloatsEqual_0_iff [of s] by (cases "s = 0") auto
    then have "k / s' \<le> k / s"
      using k_table_pos [OF k(1)] assms by (intro divide_left_mono) auto
    then show ?thesis using k by (blast intro: float_to_u32_mono fl32_mono)
  qed
  then show ?thesis unfolding t by (rule max.mono) simp
qed

lemma normalizePv_mono:
  assumes "normalizePv pv lo hi = Inr n" "normalizePv pv' lo hi = Inr n'" "pv \<le> pv'" "lo \<le> hi"
  shows "0 \<le> n \<and> n \<le> n' \<and> n' \<le> 1"
proof -
  let ?r = "fl32 (hi - lo)"
  have r: "0 \<le> ?r" using assms by (intro fl32_nonneg) simp
  have bound: "0 \<le> fl32 (fl32 (x - lo) / ?r)" if "lo \<le> x" for x
    using that r by (intro fl32_nonneg divide_nonneg_nonneg r) simp
  have "fl32 (fl32 (pv - lo) / ?r) \<le> fl32 (fl32 (pv' - lo) / ?r)"
    using assms r by (intro fl32_mono divide_right_mono) simp_all
  with assms bound [of pv] bound [of pv'] show ?thesis
    by (auto simp: normalizePv_def Let_def split: if_splits)
qed

lemma cycle_time_lower:
  assumes "cycle_time s m cph = Inr t" "0 \<le> s" "s \<le> 1"
  shows "150 \<le> t" "\<exists>l. maxMinimumTimeLimits cph = Inr l \<and> min l m \<le> t"
proof -
  from assms(1) obtain r l where r: "(if areFloatsEqual s 0 then Inr 0xFFFFFFFF
            else bindR (k_table cph) (\<lambda>k. float_to_u32 (fl32 (k / s)))) = Inr r"
    and l: "maxMinimumTimeLimits cph = Inr l" and t: "t = max r (min l m)"
    by (auto simp: cycle_time_def)
  have "150 \<le> r"
  proof (cases "areFloatsEqual s 0")
    case True
    with r have "r = - 1" by simp
    then show ?thesis by simp
  next
    case False
    with r obtain k where k: "k_table cph = Inr k" and f: "float_to_u32 (fl32 (k / s)) = Inr r" by auto
    have s: "0 < s" using False assms(2) areFloatsEqual_0_iff [of s] by (cases "s = 0") auto
    then have "150 \<le> k / s"
      using k_table_pos [OF k] assms(3) by (simp add: le_divide_eq)
    then have "150 \<le> fl32 (k / s)" using fl32_mono [of 150 "k / s"] by simp
    moreover have "float_to_u32 150 = Inr 150" by (simp add: float_to_u32_def)
    ultimately show ?thesis using float_to_u32_mono [OF _ f] by blast
  qed
  then show "150 \<le> t" unfolding t by (rule order.trans) simp
  show "\<exists>l. maxMinimumTimeLimits cph = Inr l \<and> min l m \<le> t"
    using l t by auto
qed

lemma share_bounds: "0 \<le> n \<Longrightarrow> n \<le> 1 \<Longrightarrow> 0 \<le> fl32 (1 - n) \<and> fl32 (1 - n) \<le> 1"
  using fl32_mono [of "1 - n" 1] by (simp add: fl32_nonneg)

lemma off_time_cases:
  assumes "calculateOffTime pv m cph lo hi = Inr t"
  obtains n where "normalizePv pv lo hi = Inr n" "cycle_time n m cph = Inr t"
  using assms by (cases "cph = 5") (auto simp: calculateOffTime_eq, simp add: calculateOffTime_def)

lemma on_time_cases:
  assumes "calculateOnTime pv m cph lo hi = Inr t"
  obtains n where "normalizePv pv lo hi = Inr n" "cycle_time (fl32 (1 - n)) m cph = Inr t"
  using assms by (cases "cph = 5") (auto simp: calculateOnTime_eq, simp add: calculateOnTime_def)

text \<open>Evaluation of the two functions from the normalised load.\<close>

lemmas duty_cycle_eval =
  calculateOffTime_eq calculateOnTime_eq cycle_time_def k_table_def maxMinimumTimeLimits_def
  float_to_u32_def max_def min_def

lemma load_25_75:
  "normalizePv 25 0 100 = Inr (1 / 4)" "normalizePv 50 0 100 = Inr (1 / 2)"
  "normalizePv 75 0 100 = Inr (3 / 4)" "normalizePv 150 100 200 = Inr (1 / 2)"
  by code_simp+

lemma not_zero_share:
  "\<not> areFloatsEqual (1 / 4) 0" "\<not> areFloatsEqual (1 / 2) 0" "\<not> areFloatsEqual (3 / 4) 0"
  by code_simp+

lemma fl32_half: "fl32 (1 / 2) = 1 / 2" and fl32_quarters: "fl32 (1 / 4) = 1 / 4" "fl32 (3 / 4) = 3 / 4"
  by code_simp+

subsection \<open>Properties\<close>

text \<open>
  C27. More load never means a longer off time and never a shorter on time: both mappings are
  monotone in the process variable, rounding, clamping and truncation included.
\<close>

theorem duty_cycle_monotone:
  assumes "pv \<le> pv'" "lo \<le> hi"
    and "calculateOffTime pv m cph lo hi = Inr off" "calculateOffTime pv' m cph lo hi = Inr off'"
    and "calculateOnTime pv m cph lo hi = Inr on" "calculateOnTime pv' m cph lo hi = Inr on'"
  shows "off' \<le> off \<and> on \<le> on'"
proof
  obtain n where n: "normalizePv pv lo hi = Inr n" "cycle_time n m cph = Inr off"
    using assms(3) by (rule off_time_cases)
  obtain n' where n': "normalizePv pv' lo hi = Inr n'" "cycle_time n' m cph = Inr off'"
    using assms(4) by (rule off_time_cases)
  have on: "cycle_time (fl32 (1 - n)) m cph = Inr on" "cycle_time (fl32 (1 - n')) m cph = Inr on'"
    using assms(5,6) n(1) n'(1) by (auto elim!: on_time_cases)
  have b: "0 \<le> n" "n \<le> n'" "n' \<le> 1" using normalizePv_mono [OF n(1) n'(1) assms(1,2)] by simp_all
  show "off' \<le> off" using cycle_time_antimono [OF n(2) n'(2)] b by simp
  have "0 \<le> fl32 (1 - n')" "fl32 (1 - n') \<le> fl32 (1 - n)" using b by (simp_all add: fl32_nonneg fl32_mono)
  then show "on \<le> on'" using cycle_time_antimono [OF on(2,1)] by simp
qed

theorem duty_cycle_monotone_witness:
  "calculateOffTime 25 300 1 0 100 = Inr 1200 \<and> calculateOffTime 75 300 1 0 100 = Inr 400 \<and>
   (400::u32) \<le> 1200 \<and> (400::u32) \<le> 1200"
proof -
  have "calculateOffTime 25 300 1 0 100 = Inr 1200" "calculateOffTime 75 300 1 0 100 = Inr 400"
    "calculateOnTime 25 300 1 0 100 = Inr 400" "calculateOnTime 75 300 1 0 100 = Inr 1200"
    by (simp_all only: duty_cycle_eval load_25_75 not_zero_share fl32_quarters)
      (simp_all add: not_zero_share fl32_quarters)
  then show ?thesis using duty_cycle_monotone [of 25 75 0 100 300 1 1200 400 400 1200] by simp
qed

text \<open>
  Every cycle time that is computed is at least 150 seconds and at least the configured minimum,
  where the minimum is capped by the limit of the cycles-per-hour option.
\<close>

lemma duty_cycle_lower_bounds:
  assumes "calculateOffTime pv m cph lo hi = Inr off" "calculateOnTime pv m' cph lo hi = Inr on" "lo \<le> hi"
  shows "150 \<le> off \<and> 150 \<le> on \<and>
     (\<exists>limit. maxMinimumTimeLimits cph = Inr limit \<and> min limit m \<le> off \<and> min limit m' \<le> on)"
proof -
  obtain n where n: "normalizePv pv lo hi = Inr n" "cycle_time n m cph = Inr off"
    using assms(1) by (rule off_time_cases)
  have on: "cycle_time (fl32 (1 - n)) m' cph = Inr on"
    using assms(2) n(1) by (auto elim!: on_time_cases)
  have b: "0 \<le> n" "n \<le> 1" using normalizePv_mono [OF n(1) n(1) _ assms(3)] by simp_all
  note s = share_bounds [OF b]
  from cycle_time_lower [OF n(2) b] cycle_time_lower [OF on] s
  show ?thesis by auto
qed

lemma duty_cycle_lower_bounds_witness:
  "150 \<le> (600::u32) \<and> (\<exists>limit. maxMinimumTimeLimits 1 = Inr limit \<and> min limit 300 \<le> 600)"
proof -
  have "calculateOffTime 50 300 1 0 100 = Inr 600" "calculateOnTime 50 300 1 0 100 = Inr 600"
    by (simp_all add: duty_cycle_eval load_25_75 not_zero_share fl32_half)
  then show ?thesis using duty_cycle_lower_bounds [of 50 300 1 0 100 600 300 600] by auto
qed

text \<open>
  At half load the on time and the off time of every cycles-per-hour option are both its nominal
  half cycle (15, 10, 7.5, 6 and 5 minutes, in seconds), whatever the configured minimum.
\<close>

lemma duty_cycle_half_load:
  assumes "normalizePv pv lo hi = Inr (1 / 2)" "0 \<le> cph" "cph < 5"
  shows "calculateOffTime pv m cph lo hi = maxMinimumTimeLimits cph \<and>
     calculateOnTime pv m cph lo hi = maxMinimumTimeLimits cph"
proof -
  note ne = not_zero_share(2)
  have ct: "cycle_time (1 / 2) m cph = maxMinimumTimeLimits cph"
  proof -
    have "cph = 0 \<or> cph = 1 \<or> cph = 2 \<or> cph = 3 \<or> cph = 4" using assms by arith
    then show ?thesis
      using ne by (auto simp: cycle_time_def k_table_def maxMinimumTimeLimits_def float_to_u32_def max_def min_def)
  qed
  show ?thesis using assms ct by (simp add: calculateOffTime_eq calculateOnTime_eq fl32_half)
qed

text \<open>The two limits of the conversion that single precision has a number for, and the smallest shares.\<close>

lemma fl32_limits:
  "fl32 4294967296 = 4294967296" "fl32 4294967040 = 4294967040" "fl32 3774873600 = 3774873600"
  "fl32 (1 / 16777216) = 1 / 16777216" "fl32 (1 / 8388608) = 1 / 8388608"
  by code_simp+

lemma cycle_time_undefined:
  assumes "k_table cph = Inr k" "FLT_EPSILON * FLT_EPSILON \<le> s" "s \<le> k / 4294967296"
  shows "cycle_time s m cph = Inl UndefinedConversion"
proof -
  have s: "0 < s"
    using assms(2) by (simp add: FLT_EPSILON_def)
  then have "\<not> areFloatsEqual s 0"
    using fl32_mono [OF assms(2)] by (simp add: areFloatsEqual_0_iff fl32_eps2)
  moreover have "4294967296 \<le> fl32 (k / s)"
    using fl32_mono [of 4294967296 "k / s"] assms(3) s by (simp add: fl32_limits field_simps)
  ultimately show ?thesis
    using assms(1) by (simp add: cycle_time_def float_to_u32_def)
qed

lemma cycle_time_defined:
  assumes "k_table cph = Inr k" "0 < s" "k / s \<le> x" "fl32 x = x" "x \<le> 4294967040"
  shows "\<exists>t. cycle_time s m cph = Inr t"
proof -
  have "fl32 (k / s) \<le> 4294967040"
    using fl32_mono [OF assms(3)] assms(4,5) by simp
  moreover have "0 \<le> fl32 (k / s)"
    using k_table_pos [OF assms(1)] assms(2) by (intro fl32_nonneg) simp
  moreover have "\<exists>l. maxMinimumTimeLimits cph = Inr l"
    using assms(1) by (auto simp: k_table_def maxMinimumTimeLimits_def split: if_splits)
  ultimately show ?thesis
    using assms(1) by (auto simp: cycle_time_def float_to_u32_def)
qed

text \<open>
  C40. Where the conversion of the times to \<open>uint32_t\<close> is defined. Let \<open>n\<close> be the load as a fraction of the range of its
  stage and \<open>k\<close> the constant of its cycle rate. For every \<open>n\<close> from the square of the epsilon, below which the code takes
  the load for zero, up to \<open>k / 2 ^ 32\<close> the off time is at least \<open>2 ^ 32\<close> seconds and the conversion undefined; from
  \<open>k / (2 ^ 32 - 256)\<close> on it is defined. At the largest fraction below full load, \<open>1 - 2 ^ -24\<close>, the conversion of the on time is
  undefined for the two slowest cycle rates; up to \<open>1 - 2 ^ -23\<close> it is defined for all of them. The code tests the
  divisors against zero and not the quotients.
\<close>

theorem duty_cycle_conversion_undefined:
  assumes "normalizePv pv lo hi = Inr n" "k_table cph = Inr k"
  shows "(FLT_EPSILON * FLT_EPSILON \<le> n \<and> n \<le> k / 4294967296 \<longrightarrow> calculateOffTime pv m cph lo hi = Inl UndefinedConversion) \<and>
    (k / 4294967040 \<le> n \<longrightarrow> (\<exists>t. calculateOffTime pv m cph lo hi = Inr t)) \<and>
    (n = 1 - 1 / 16777216 \<and> cph \<in> {0, 1} \<longrightarrow> calculateOnTime pv m cph lo hi = Inl UndefinedConversion) \<and>
    (n \<le> 1 - 1 / 8388608 \<longrightarrow> (\<exists>t. calculateOnTime pv m cph lo hi = Inr t))"
proof (intro conjI impI; (elim conjE)?)
  have cph: "cph \<noteq> 5" and k: "150 \<le> k" "k \<le> 450"
    using assms(2) k_table_pos [OF assms(2)] by (auto simp: k_table_def)
  note off = calculateOffTime_eq [OF cph, of pv m lo hi] and on = calculateOnTime_eq [OF cph, of pv m lo hi]
  show "calculateOffTime pv m cph lo hi = Inl UndefinedConversion" if "FLT_EPSILON * FLT_EPSILON \<le> n" "n \<le> k / 4294967296"
    using cycle_time_undefined [OF assms(2) that] assms(1) by (simp add: off)
  show "\<exists>t. calculateOffTime pv m cph lo hi = Inr t" if "k / 4294967040 \<le> n"
  proof -
    have "0 < k / 4294967040"
      using k by simp
    then have "0 < n" "k / n \<le> 4294967040"
      using that by (linarith, simp add: field_simps)
    then show ?thesis
      using cycle_time_defined [OF assms(2), of n 4294967040] assms(1) by (simp add: off fl32_limits)
  qed
  show "calculateOnTime pv m cph lo hi = Inl UndefinedConversion" if "n = 1 - 1 / 16777216" "cph \<in> {0, 1}"
  proof -
    have "300 \<le> k"
      using that(2) assms(2) by (auto simp: k_table_def)
    then show ?thesis
      using cycle_time_undefined [OF assms(2), of "1 / 16777216"] assms(1) that(1) by (simp add: on fl32_limits FLT_EPSILON_def)
  qed
  show "\<exists>t. calculateOnTime pv m cph lo hi = Inr t" if "n \<le> 1 - 1 / 8388608"
  proof -
    have s: "1 / 8388608 \<le> fl32 (1 - n)"
      using fl32_mono [of "1 / 8388608" "1 - n"] that by (simp add: fl32_limits)
    then have "k / fl32 (1 - n) \<le> 450 / (1 / 8388608)"
      using k by (intro frac_le) simp_all
    then show ?thesis
      using cycle_time_defined [OF assms(2), of "fl32 (1 - n)" 3774873600] s assms(1) by (simp add: on fl32_limits)
  qed
qed

text \<open>Loads of one millionth of a percent, and just below full load, at 3 cycles per hour.\<close>

theorem duty_cycle_conversion_undefined_witness:
  "calculateOffTime (1 / 1048576) 300 1 0 100 = Inl UndefinedConversion \<and>
   calculateOnTime (13107199 / 131072) 300 1 0 100 = Inl UndefinedConversion \<and>
   (\<exists>t. calculateOffTime 50 300 1 0 100 = Inr t)"
proof -
  have n: "normalizePv (1 / 1048576) 0 100 = Inr (5368709 / 562949953421312)"
      "normalizePv (13107199 / 131072) 0 100 = Inr (16777215 / 16777216)"
    by code_simp+
  have k: "k_table 1 = Inr 300"
    by (simp add: k_table_def)
  show ?thesis
    using duty_cycle_conversion_undefined [OF n(1) k, of 300] duty_cycle_conversion_undefined [OF n(2) k, of 300]
      duty_cycle_conversion_undefined [OF load_25_75(2) k, of 300] by (simp add: FLT_EPSILON_def)
qed

end
