(* ===== verification/Storm_Types.thy ===== *)
theory Storm_Types
  imports Elapsed_Time Duty_Cycle
begin

text \<open>
  The data the thermostat components exchange (src/src/Storm/Type/*.h) and the argument block of the
  equipment control logic (src/src/Storm/Component/Control.h). An \<open>enum\<close> that a structure stores as
  \<open>int\<close> is the enum itself where only its members are ever stored; the cycles-per-hour option and
  the types of the two units stay integers, as they are stored unchecked. C arrays are lists; an
  index is checked against the length where the code indexes.
\<close>

datatype CycleStatus = eOFF_STATUS | eON_CYCLE | eOFF_CYCLE | eTRANSITIONING_UP | eTRANSITIONING_DOWN

datatype OperatingMode = eOFF | eCOOLING | eHEATING | eID_HEATING | eUNKNOWN

datatype ThermostatMode = tmOFF | tmCOOLING | tmHEATING | tmAUTO | tmID_HEATING

record CycleInfo_T =
  beginOnTime :: Precision_T
  beginOffTime :: Precision_T
  onTime :: u32
  offTime :: u32
  mode :: CycleStatus

record EquipmentTimes_T =
  outdoorUnitBeginOnTime :: Precision_T
  outdoorUnitBeginOffTime :: Precision_T
  indoorUnitBeginOnTime :: Precision_T
  indoorUnitBeginOffTime :: Precision_T
  systemBeginOnTime :: Precision_T
  systemBeginOffTime :: Precision_T

record Stage_T =
  lowerBound :: rat
  upperBound :: rat
  minIndoorFan :: u16
  maxIndoorFan :: u16
  minOnTime :: u32
  minOffTime :: u32
  cph :: int

record SystemConfig_T =
  stages :: "Stage_T list"
  currentOpMode :: OperatingMode
  outdoorUnitType :: int
  indoorUnitType :: int
  numCompressorStages :: nat
  numIndoorStages :: nat
  totalStages :: nat
  fanContinuousSpeed :: u16
  gain :: rat
  reset_time :: rat
  maxPvOut :: rat

record VirtualOutputs_T =
  indoorFan :: u16
  indoorFanCont :: u16
  indoorStages :: "u16 list"
  outdoorFan :: u16
  outdoorStages :: "u16 list"
  sovInHeating :: bool

record WhiteBox_T =
  defeatEquipMinOffTime :: bool
  abortOnOffCycle :: bool

record Args_T =
  pvOut :: rat
  systemConfig :: SystemConfig_T
  currentTick :: Precision_T
  currentInterval :: Precision_T
  equipmentBeginTimes :: EquipmentTimes_T
  whiteBox :: WhiteBox_T
  vOutputs :: VirtualOutputs_T
  cycleInfo :: CycleInfo_T
  systemOn :: bool

text \<open>Sizes and constants of src/src/Storm/Constants.h, with their default values.\<close>

abbreviation (input) STORM_MAX_INDOOR_STAGES :: nat where "STORM_MAX_INDOOR_STAGES \<equiv> 3"
abbreviation (input) STORM_MAX_OUTDOOR_STAGES :: nat where "STORM_MAX_OUTDOOR_STAGES \<equiv> 1"
abbreviation (input) OPTION_STORM_MAX_TOTAL_STAGES :: nat where "OPTION_STORM_MAX_TOTAL_STAGES \<equiv> 4"
abbreviation (input) eAIR_HANDLER :: int where "eAIR_HANDLER \<equiv> 0"
abbreviation (input) eFURNACE :: int where "eFURNACE \<equiv> 1"
abbreviation (input) eAC :: int where "eAC \<equiv> 0"
abbreviation (input) eHP :: int where "eHP \<equiv> 1"
abbreviation (input) VIRTUAL_OUTPUTS_OFF :: u16 where "VIRTUAL_OUTPUTS_OFF \<equiv> 0"
abbreviation (input) VIRTUAL_OUTPUTS_ON :: u16 where "VIRTUAL_OUTPUTS_ON \<equiv> 1000"

end
