(* ===== verification/Stage_Fsm.thy ===== *)
theory Stage_Fsm
  imports Storm_Types Ring_Buffer
begin

text \<open>
  The equipment stages of the thermostat (src/src/Storm/Component/Equipment/Stage/): the hierarchical
  state machine Fsm_.cpp, its event queue FsmEventQueue_.cpp and the actions and guards of Basic.cpp,
  BasicCooling.cpp and BasicIndoorHeat.cpp.

  Stages are objects that hold pointers to each other and to the argument block of the running
  Control::execute() call, so the model has a store: \<open>w_stages\<close> maps a stage's address to its
  object, \<open>w_args\<close> is the one live argument block and \<open>w_argsId\<close> its address. The argument
  block is a local variable of Control::execute(), so each call has a fresh address and a pointer to
  an earlier block dangles.

  An action may call generateEvent() on its own stage, which then only queues the event, or on
  another stage, which then runs that stage's machine to completion. The actions therefore take the
  event generator as an argument; generateEvent and the loop that drains the queue tie the knot with
  fuel.
\<close>

datatype States =
    OffTime | Active | SupplementingNextStage | OnTime | Off | Cycling | OnCycle | StartingOn
  | TransitioningFromLowerStage | OffCycle | StartingOff | TransitioningBackToLowerStage | NUM_STATES

datatype FSM_EVENT_T =
    Fsm_evBackTransitionCompleted | Fsm_evLessCapacityNeeded | Fsm_evOnRequest
  | Fsm_evOffModeRequest | Fsm_evStartingOnTimeExpired | Fsm_evStartingOffTimeExpired
  | Fsm_evOffTimeExpired | Fsm_evExcessCapacity | Fsm_evOnTimeExpired
  | Fsm_evFromTransitionCompleted | Fsm_evNeedMoreCapacity | FSM_NO_MSG

record stateVarsT =
  stateVar :: States
  stateVarActive :: States
  stateVarCycling :: States
  stateVarOnCycle :: States
  stateVarOffCycle :: States

datatype stage_kind = BasicCooling | BasicIndoorHeat bool

record stage =
  s_kind :: stage_kind
  m_systemIndex :: nat
  m_outIndex :: nat
  m_startTime :: Precision_T
  m_args :: "nat option"
  m_nextStage :: "nat option"
  m_prevStage :: "nat option"
  m_startInOffCycle :: bool
  m_supplemented :: bool
  m_requestSupplementStartInOnCycle :: bool
  m_requestOffStartInOnCycle :: bool
  m_initialized :: bool
  stateVars :: stateVarsT
  m_eventQue :: "FSM_EVENT_T ring"
  m_processingFsmEvent :: bool

record world =
  w_args :: Args_T
  w_argsId :: nat
  w_stages :: "nat \<Rightarrow> stage"

type_synonym action = "world \<Rightarrow> world result"
type_synonym generator = "nat \<Rightarrow> FSM_EVENT_T \<Rightarrow> action"

definition upd_stage :: "nat \<Rightarrow> (stage \<Rightarrow> stage) \<Rightarrow> world \<Rightarrow> world" where
  "upd_stage i f w = w\<lparr>w_stages := (w_stages w)(i := f (w_stages w i))\<rparr>"

definition upd_args :: "(Args_T \<Rightarrow> Args_T) \<Rightarrow> world \<Rightarrow> world" where
  "upd_args f w = w\<lparr>w_args := f (w_args w)\<rparr>"

fun seqA :: "action list \<Rightarrow> action" where
  "seqA [] w = Inr w"
| "seqA (a # as) w = bindR (a w) (seqA as)"

text \<open>CPL_SYSTEM_ASSERT( m_args ) followed by a use of the object it points to.\<close>

definition use_args :: "nat \<Rightarrow> action \<Rightarrow> action" where
  "use_args i f w =
     (case m_args (w_stages w i) of
        None \<Rightarrow> Inl AssertFailed
      | Some a \<Rightarrow> if a = w_argsId w then f w else Inl DanglingPointer)"

subsection \<open>BasicCooling and BasicIndoorHeat: the outputs of a stage\<close>

definition set_output :: "nat \<Rightarrow> u16 \<Rightarrow> u16 list \<Rightarrow> u16 list result" where
  "set_output i v xs = (if i < length xs then Inr (xs[i := v]) else Inl OutOfBounds)"

definition set_fan :: "nat \<Rightarrow> u16 \<Rightarrow> world \<Rightarrow> world" where
  "set_fan i v w =
     (if m_systemIndex (w_stages w i) = 0
      then upd_args (\<lambda>a. a\<lparr>vOutputs := (vOutputs a)\<lparr>indoorFan := v\<rparr>\<rparr>) w else w)"

definition set_outdoor :: "nat \<Rightarrow> u16 \<Rightarrow> action" where
  "set_outdoor i v w =
     bindR (set_output (m_outIndex (w_stages w i)) v (outdoorStages (vOutputs (w_args w)))) (\<lambda>xs.
     Inr (upd_args (\<lambda>a. a\<lparr>vOutputs := (vOutputs a)\<lparr>outdoorStages := xs\<rparr>\<rparr>) w))"

definition set_indoor :: "nat \<Rightarrow> u16 \<Rightarrow> action" where
  "set_indoor i v w =
     bindR (set_output (m_outIndex (w_stages w i)) v (indoorStages (vOutputs (w_args w)))) (\<lambda>xs.
     Inr (upd_args (\<lambda>a. a\<lparr>vOutputs := (vOutputs a)\<lparr>indoorStages := xs\<rparr>\<rparr>) w))"

definition BasicCooling_stageOff :: "nat \<Rightarrow> action" where
  "BasicCooling_stageOff i = use_args i (\<lambda>w.
     bindR (set_outdoor i VIRTUAL_OUTPUTS_OFF w) (\<lambda>w. Inr (set_fan i VIRTUAL_OUTPUTS_OFF w)))"

definition BasicCooling_stageOn :: "nat \<Rightarrow> action" where
  "BasicCooling_stageOn i = use_args i (\<lambda>w.
     bindR (set_outdoor i VIRTUAL_OUTPUTS_ON w) (\<lambda>w. Inr (set_fan i VIRTUAL_OUTPUTS_ON w)))"

definition BasicIndoorHeat_stageOff :: "nat \<Rightarrow> action" where
  "BasicIndoorHeat_stageOff i = use_args i (\<lambda>w.
     bindR (set_indoor i VIRTUAL_OUTPUTS_OFF w) (\<lambda>w. Inr (set_fan i VIRTUAL_OUTPUTS_OFF w)))"

definition BasicIndoorHeat_stageOn :: "bool \<Rightarrow> nat \<Rightarrow> action" where
  "BasicIndoorHeat_stageOn m_controlFan i = use_args i (\<lambda>w.
     bindR (set_indoor i VIRTUAL_OUTPUTS_ON w) (\<lambda>w.
     Inr (set_fan i (if m_controlFan then VIRTUAL_OUTPUTS_ON else VIRTUAL_OUTPUTS_OFF) w)))"

text \<open>The virtual calls stageOff() and stageOn() dispatch on the class of the object.\<close>

definition stageOff :: "nat \<Rightarrow> action" where
  "stageOff i w = (case s_kind (w_stages w i) of
     BasicCooling \<Rightarrow> BasicCooling_stageOff i w
   | BasicIndoorHeat _ \<Rightarrow> BasicIndoorHeat_stageOff i w)"

definition stageOn :: "nat \<Rightarrow> action" where
  "stageOn i w = (case s_kind (w_stages w i) of
     BasicCooling \<Rightarrow> BasicCooling_stageOn i w
   | BasicIndoorHeat m_controlFan \<Rightarrow> BasicIndoorHeat_stageOn m_controlFan i w)"

subsection \<open>Basic: actions and guards\<close>

definition isStartInOffCycle :: "nat \<Rightarrow> world \<Rightarrow> bool" where
  "isStartInOffCycle i w = m_startInOffCycle (w_stages w i)"

definition isBeingSupplemented :: "nat \<Rightarrow> world \<Rightarrow> bool" where
  "isBeingSupplemented i w = m_supplemented (w_stages w i)"

definition initializeStage :: "nat \<Rightarrow> action" where
  "initializeStage i w = Inr (upd_stage i (\<lambda>s. s\<lparr>
     m_startInOffCycle := False, m_supplemented := False, m_nextStage := None, m_prevStage := None,
     m_args := None, m_requestOffStartInOnCycle := True,
     m_requestSupplementStartInOnCycle := True, m_startTime := Precision_T 0 0\<rparr>) w)"

definition Basic_initializeActive :: "nat \<Rightarrow> action" where
  "Basic_initializeActive i w =
     bindR (stageOff i w) (\<lambda>w.
     if m_systemIndex (w_stages w i) = 0
     then use_args i (\<lambda>w. Inr (upd_args (\<lambda>a. a\<lparr>systemOn := True\<rparr>) w)) w
     else Inr w)"

definition BasicCooling_initializeActive :: "nat \<Rightarrow> action" where
  "BasicCooling_initializeActive i = use_args i (\<lambda>w.
     bindR (Basic_initializeActive i w) (\<lambda>w.
     Inr (upd_args (\<lambda>a. a\<lparr>vOutputs := (vOutputs a)\<lparr>sovInHeating := False\<rparr>\<rparr>) w)))"

definition initializeActive :: "nat \<Rightarrow> action" where
  "initializeActive i w = (case s_kind (w_stages w i) of
     BasicCooling \<Rightarrow> BasicCooling_initializeActive i w
   | BasicIndoorHeat _ \<Rightarrow> Basic_initializeActive i w)"

definition startOnTime :: "nat \<Rightarrow> action" where
  "startOnTime i = use_args i (\<lambda>w. Inr (upd_stage i (\<lambda>s. s\<lparr>m_startTime := currentInterval (w_args w)\<rparr>) w))"

definition startOffTime :: "nat \<Rightarrow> action" where
  "startOffTime i = use_args i (\<lambda>w. Inr (upd_stage i (\<lambda>s. s\<lparr>m_startTime := currentInterval (w_args w)\<rparr>) w))"

definition initializeBackTransition :: "generator \<Rightarrow> nat \<Rightarrow> action" where
  "initializeBackTransition gen i = gen i Fsm_evBackTransitionCompleted"

definition initializeFromTransition :: "generator \<Rightarrow> nat \<Rightarrow> action" where
  "initializeFromTransition gen i = gen i Fsm_evFromTransitionCompleted"

definition stage_config :: "nat \<Rightarrow> world \<Rightarrow> Stage_T result" where
  "stage_config i w =
     (let idx = m_systemIndex (w_stages w i); cfg = stages (systemConfig (w_args w))
      in if idx < length cfg then Inr (cfg ! idx) else Inl OutOfBounds)"

definition checkOffTime :: "generator \<Rightarrow> nat \<Rightarrow> action" where
  "checkOffTime gen i = use_args i (\<lambda>w.
     if mode (cycleInfo (w_args w)) = eOFF_CYCLE then
       bindR (stage_config i w) (\<lambda>cfg.
       bindR (calculateOffTime (pvOut (w_args w)) (minOffTime cfg) (cph cfg) (lowerBound cfg) (upperBound cfg)) (\<lambda>t.
       let w = upd_args (\<lambda>a. a\<lparr>cycleInfo := (cycleInfo a)\<lparr>offTime := t\<rparr>\<rparr>) w
       in if expiredPrecision (m_startTime (w_stages w i)) (Precision_T t 0) (currentInterval (w_args w))
             \<or> abortOnOffCycle (whiteBox (w_args w))
          then gen i Fsm_evOffTimeExpired
                 (upd_args (\<lambda>a. a\<lparr>whiteBox := (whiteBox a)\<lparr>abortOnOffCycle := False\<rparr>\<rparr>) w)
          else Inr w))
     else Inr w)"

definition checkOnTime :: "generator \<Rightarrow> nat \<Rightarrow> action" where
  "checkOnTime gen i = use_args i (\<lambda>w.
     if mode (cycleInfo (w_args w)) = eON_CYCLE then
       bindR (stage_config i w) (\<lambda>cfg.
       bindR (calculateOnTime (pvOut (w_args w)) (minOnTime cfg) (cph cfg) (lowerBound cfg) (upperBound cfg)) (\<lambda>t.
       let w = upd_args (\<lambda>a. a\<lparr>cycleInfo := (cycleInfo a)\<lparr>onTime := t\<rparr>\<rparr>) w
       in if expiredPrecision (m_startTime (w_stages w i)) (Precision_T t 0) (currentInterval (w_args w))
             \<or> abortOnOffCycle (whiteBox (w_args w))
          then gen i Fsm_evOnTimeExpired
                 (upd_args (\<lambda>a. a\<lparr>whiteBox := (whiteBox a)\<lparr>abortOnOffCycle := False\<rparr>\<rparr>) w)
          else Inr w))
     else Inr w)"

definition startingStageOff :: "generator \<Rightarrow> nat \<Rightarrow> action" where
  "startingStageOff gen i = use_args i (seqA [
     stageOff i,
     (\<lambda>w. Inr (upd_args (\<lambda>a. a\<lparr>cycleInfo := (cycleInfo a)\<lparr>
            beginOffTime := m_startTime (w_stages w i), mode := eOFF_CYCLE\<rparr>\<rparr>) w)),
     checkOffTime gen i,
     gen i Fsm_evStartingOffTimeExpired])"

definition startingStageOn :: "generator \<Rightarrow> nat \<Rightarrow> action" where
  "startingStageOn gen i = use_args i (seqA [
     stageOn i,
     (\<lambda>w. Inr (upd_args (\<lambda>a. a\<lparr>cycleInfo := (cycleInfo a)\<lparr>
            beginOnTime := m_startTime (w_stages w i), mode := eON_CYCLE\<rparr>\<rparr>) w)),
     checkOnTime gen i,
     gen i Fsm_evStartingOnTimeExpired])"

definition startCyclingInOffCycle :: "nat \<Rightarrow> action" where
  "startCyclingInOffCycle i w = Inr w"

definition startCyclingInOnCycle :: "nat \<Rightarrow> action" where
  "startCyclingInOnCycle i w = Inr w"

definition shutdownStage :: "nat \<Rightarrow> action" where
  "shutdownStage i = use_args i (seqA [
     stageOff i,
     (\<lambda>w. Inr (if m_systemIndex (w_stages w i) = 0
               then upd_args (\<lambda>a. a\<lparr>systemOn := False,
                      cycleInfo := (cycleInfo a)\<lparr>mode := eOFF_STATUS\<rparr>\<rparr>) w
               else w))])"

definition checkBackTransition :: "nat \<Rightarrow> action" where
  "checkBackTransition i w = Inr w"

definition checkFromTransition :: "nat \<Rightarrow> action" where
  "checkFromTransition i w = Inr w"

definition checkStartingOffTime :: "nat \<Rightarrow> action" where
  "checkStartingOffTime i w = Inr w"

definition checkStartingOnTime :: "nat \<Rightarrow> action" where
  "checkStartingOnTime i w = Inr w"

definition exitSupplementing :: "nat \<Rightarrow> action" where
  "exitSupplementing i w = Inr w"

definition notifyAsActiveStage :: "generator \<Rightarrow> nat \<Rightarrow> nat option \<Rightarrow> nat \<Rightarrow> bool \<Rightarrow> action" where
  "notifyAsActiveStage gen j args previousStage startInOnCycle w =
     gen j Fsm_evOnRequest (upd_stage j (\<lambda>s. s\<lparr>
       m_args := args, m_startInOffCycle := \<not> startInOnCycle, m_supplemented := True,
       m_nextStage := None, m_prevStage := Some previousStage\<rparr>) w)"

definition notifyAsExitingSupplmenting :: "generator \<Rightarrow> nat \<Rightarrow> nat option \<Rightarrow> bool \<Rightarrow> action" where
  "notifyAsExitingSupplmenting gen j args startInOnCycle w =
     gen j Fsm_evLessCapacityNeeded (upd_stage j (\<lambda>s. s\<lparr>
       m_args := args, m_startInOffCycle := \<not> startInOnCycle, m_nextStage := None\<rparr>) w)"

definition enterSupplementing :: "generator \<Rightarrow> nat \<Rightarrow> action" where
  "enterSupplementing gen i = use_args i (\<lambda>w.
     case m_nextStage (w_stages w i) of
       None \<Rightarrow> Inl AssertFailed
     | Some j \<Rightarrow>
         bindR (notifyAsActiveStage gen j (m_args (w_stages w i)) i
                  (m_requestSupplementStartInOnCycle (w_stages w i)) w)
           (stageOn i))"

definition notifyLowerStage :: "generator \<Rightarrow> nat \<Rightarrow> action" where
  "notifyLowerStage gen i = use_args i (\<lambda>w.
     case m_prevStage (w_stages w i) of
       None \<Rightarrow> Inl AssertFailed
     | Some j \<Rightarrow>
         bindR (notifyAsExitingSupplmenting gen j (m_args (w_stages w i))
                  (m_requestOffStartInOnCycle (w_stages w i)) w)
           (\<lambda>w. Inr (upd_stage i (\<lambda>s. s\<lparr>m_prevStage := None, m_supplemented := False\<rparr>) w)))"

subsection \<open>Fsm: the state machine\<close>

definition isInOffTime :: "stateVarsT \<Rightarrow> bool" where
  "isInOffTime v = (stateVarOffCycle v = OffTime \<and> stateVarCycling v = OffCycle
     \<and> stateVarActive v = Cycling \<and> stateVar v = Active)"

definition isInActive :: "stateVarsT \<Rightarrow> bool" where
  "isInActive v = (stateVar v = Active)"

definition isInSupplementingNextStage :: "stateVarsT \<Rightarrow> bool" where
  "isInSupplementingNextStage v = (stateVar v = SupplementingNextStage)"

definition isInOnTime :: "stateVarsT \<Rightarrow> bool" where
  "isInOnTime v = (stateVarOnCycle v = OnTime \<and> stateVarCycling v = OnCycle
     \<and> stateVarActive v = Cycling \<and> stateVar v = Active)"

definition isInOff :: "stateVarsT \<Rightarrow> bool" where
  "isInOff v = (stateVar v = Off)"

definition isInCycling :: "stateVarsT \<Rightarrow> bool" where
  "isInCycling v = (stateVarActive v = Cycling \<and> stateVar v = Active)"

definition isInOnCycle :: "stateVarsT \<Rightarrow> bool" where
  "isInOnCycle v = (stateVarCycling v = OnCycle \<and> stateVarActive v = Cycling \<and> stateVar v = Active)"

definition isInStartingOn :: "stateVarsT \<Rightarrow> bool" where
  "isInStartingOn v = (stateVarOnCycle v = StartingOn \<and> stateVarCycling v = OnCycle
     \<and> stateVarActive v = Cycling \<and> stateVar v = Active)"

definition isInTransitioningFromLowerStage :: "stateVarsT \<Rightarrow> bool" where
  "isInTransitioningFromLowerStage v =
     (stateVarActive v = TransitioningFromLowerStage \<and> stateVar v = Active)"

definition isInOffCycle :: "stateVarsT \<Rightarrow> bool" where
  "isInOffCycle v = (stateVarCycling v = OffCycle \<and> stateVarActive v = Cycling \<and> stateVar v = Active)"

definition isInStartingOff :: "stateVarsT \<Rightarrow> bool" where
  "isInStartingOff v = (stateVarOffCycle v = StartingOff \<and> stateVarCycling v = OffCycle
     \<and> stateVarActive v = Cycling \<and> stateVar v = Active)"

definition isInTransitioningBackToLowerStage :: "stateVarsT \<Rightarrow> bool" where
  "isInTransitioningBackToLowerStage v =
     (stateVarActive v = TransitioningBackToLowerStage \<and> stateVar v = Active)"

definition getInnermostActiveState :: "stateVarsT \<Rightarrow> States" where
  "getInnermostActiveState v =
     (if isInStartingOff v then StartingOff
      else if isInStartingOn v then StartingOn
      else if isInOnTime v then OnTime
      else if isInOffTime v then OffTime
      else if isInTransitioningBackToLowerStage v then TransitioningBackToLowerStage
      else if isInTransitioningFromLowerStage v then TransitioningFromLowerStage
      else if isInOff v then Off
      else if isInSupplementingNextStage v then SupplementingNextStage
      else NUM_STATES)"

definition initialize :: "nat \<Rightarrow> world \<Rightarrow> world" where
  "initialize i w =
     (if m_initialized (w_stages w i) then w
      else upd_stage i (\<lambda>s. s\<lparr>m_initialized := True,
             stateVars := \<lparr>stateVar = Off, stateVarActive = Cycling, stateVarCycling = OnCycle,
                           stateVarOnCycle = StartingOn, stateVarOffCycle = StartingOff\<rparr>\<rparr>) w)"

text \<open>
  processEvent() works on a copy of the state variables and writes it back at the end; the cases are
  one definition each. A case returns whether the event was consumed, the copy, and the store.
\<close>

type_synonym fsm_case = "(bool \<times> stateVarsT \<times> world) result"

definition enter_cycling :: "generator \<Rightarrow> nat \<Rightarrow> stateVarsT \<Rightarrow> world \<Rightarrow> (stateVarsT \<times> world) result" where
  "enter_cycling gen i v w =
     (if isStartInOffCycle i w
      then bindR (seqA [startCyclingInOffCycle i, startOffTime i, startingStageOff gen i] w) (\<lambda>w.
           Inr (v\<lparr>stateVarCycling := OffCycle, stateVarOffCycle := StartingOff\<rparr>, w))
      else bindR (seqA [startCyclingInOnCycle i, startOnTime i, startingStageOn gen i] w) (\<lambda>w.
           Inr (v\<lparr>stateVarCycling := OnCycle, stateVarOnCycle := StartingOn\<rparr>, w)))"

definition event_Off :: "generator \<Rightarrow> nat \<Rightarrow> FSM_EVENT_T \<Rightarrow> stateVarsT \<Rightarrow> world \<Rightarrow> fsm_case" where
  "event_Off gen i msg v w =
     (if msg = Fsm_evOnRequest then
        if isBeingSupplemented i w then
          bindR (initializeFromTransition gen i w) (\<lambda>w.
          Inr (True, v\<lparr>stateVar := Active, stateVarActive := TransitioningFromLowerStage\<rparr>, w))
        else
          bindR (initializeActive i w) (\<lambda>w.
          bindR (enter_cycling gen i (v\<lparr>stateVar := Active, stateVarActive := Cycling\<rparr>) w) (\<lambda>(v, w).
          Inr (True, v, w)))
      else Inr (False, v, w))"

definition event_OnCycle :: "generator \<Rightarrow> nat \<Rightarrow> FSM_EVENT_T \<Rightarrow> stateVarsT \<Rightarrow> world \<Rightarrow> fsm_case" where
  "event_OnCycle gen i msg v w =
     bindR (if stateVarOnCycle v = OnTime then
              bindR (checkOnTime gen i w) (\<lambda>w. Inr (False, v, w))
            else if stateVarOnCycle v = StartingOn then
              bindR (checkStartingOnTime i w) (\<lambda>w.
              if msg = Fsm_evStartingOnTimeExpired
              then bindR (stageOn i w) (\<lambda>w. Inr (True, v\<lparr>stateVarOnCycle := OnTime\<rparr>, w))
              else Inr (False, v, w))
            else Inr (False, v, w))
       (\<lambda>(consumed, v, w).
        if \<not> consumed \<and> msg = Fsm_evOnTimeExpired
        then bindR (seqA [startOffTime i, startingStageOff gen i] w) (\<lambda>w.
             Inr (True, v\<lparr>stateVarCycling := OffCycle, stateVarOffCycle := StartingOff\<rparr>, w))
        else Inr (consumed, v, w))"

definition event_OffCycle :: "generator \<Rightarrow> nat \<Rightarrow> FSM_EVENT_T \<Rightarrow> stateVarsT \<Rightarrow> world \<Rightarrow> fsm_case" where
  "event_OffCycle gen i msg v w =
     bindR (if stateVarOffCycle v = StartingOff then
              bindR (checkStartingOffTime i w) (\<lambda>w.
              if msg = Fsm_evStartingOffTimeExpired
              then bindR (stageOff i w) (\<lambda>w. Inr (True, v\<lparr>stateVarOffCycle := OffTime\<rparr>, w))
              else Inr (False, v, w))
            else if stateVarOffCycle v = OffTime then
              bindR (checkOffTime gen i w) (\<lambda>w. Inr (False, v, w))
            else Inr (False, v, w))
       (\<lambda>(consumed, v, w).
        if \<not> consumed \<and> msg = Fsm_evOffTimeExpired
        then bindR (seqA [startOnTime i, startingStageOn gen i] w) (\<lambda>w.
             Inr (True, v\<lparr>stateVarCycling := OnCycle, stateVarOnCycle := StartingOn\<rparr>, w))
        else Inr (consumed, v, w))"

definition event_Cycling :: "generator \<Rightarrow> nat \<Rightarrow> FSM_EVENT_T \<Rightarrow> stateVarsT \<Rightarrow> world \<Rightarrow> fsm_case" where
  "event_Cycling gen i msg v w =
     bindR (if stateVarCycling v = OnCycle then event_OnCycle gen i msg v w
            else if stateVarCycling v = OffCycle then event_OffCycle gen i msg v w
            else Inr (False, v, w))
       (\<lambda>(consumed, v, w).
        if consumed then Inr (consumed, v, w)
        else if msg = Fsm_evExcessCapacity then
          if isBeingSupplemented i w
          then bindR (initializeBackTransition gen i w) (\<lambda>w.
               Inr (True, v\<lparr>stateVarActive := TransitioningBackToLowerStage\<rparr>, w))
          else bindR (shutdownStage i w) (\<lambda>w. Inr (True, v\<lparr>stateVar := Off\<rparr>, w))
        else if msg = Fsm_evNeedMoreCapacity
          then bindR (enterSupplementing gen i w) (\<lambda>w. Inr (True, v\<lparr>stateVar := SupplementingNextStage\<rparr>, w))
        else Inr (False, v, w))"

definition event_Active :: "generator \<Rightarrow> nat \<Rightarrow> FSM_EVENT_T \<Rightarrow> stateVarsT \<Rightarrow> world \<Rightarrow> fsm_case" where
  "event_Active gen i msg v w =
     bindR (if stateVarActive v = Cycling then event_Cycling gen i msg v w
            else if stateVarActive v = TransitioningFromLowerStage then
              bindR (checkFromTransition i w) (\<lambda>w.
              if msg = Fsm_evFromTransitionCompleted
              then bindR (enter_cycling gen i (v\<lparr>stateVarActive := Cycling\<rparr>) w) (\<lambda>(v, w). Inr (True, v, w))
              else Inr (False, v, w))
            else if stateVarActive v = TransitioningBackToLowerStage then
              bindR (checkBackTransition i w) (\<lambda>w.
              if msg = Fsm_evBackTransitionCompleted
              then bindR (seqA [notifyLowerStage gen i, shutdownStage i] w) (\<lambda>w.
                   Inr (True, v\<lparr>stateVar := Off, stateVarActive := Cycling\<rparr>, w))
              else Inr (False, v, w))
            else Inr (False, v, w))
       (\<lambda>(consumed, v, w).
        if \<not> consumed \<and> msg = Fsm_evOffModeRequest
        then bindR (initializeStage i w) (\<lambda>w. Inr (True, v\<lparr>stateVar := Off\<rparr>, w))
        else Inr (consumed, v, w))"

definition event_SupplementingNextStage ::
  "generator \<Rightarrow> nat \<Rightarrow> FSM_EVENT_T \<Rightarrow> stateVarsT \<Rightarrow> world \<Rightarrow> fsm_case" where
  "event_SupplementingNextStage gen i msg v w =
     (if msg = Fsm_evLessCapacityNeeded then
        bindR (exitSupplementing i w) (\<lambda>w.
        bindR (enter_cycling gen i (v\<lparr>stateVarActive := Cycling\<rparr>) w) (\<lambda>(v, w).
        Inr (True, v\<lparr>stateVar := Active\<rparr>, w)))
      else if msg = Fsm_evOffModeRequest
        then bindR (initializeStage i w) (\<lambda>w. Inr (True, v\<lparr>stateVar := Off\<rparr>, w))
      else Inr (False, v, w))"

definition processEvent :: "generator \<Rightarrow> nat \<Rightarrow> FSM_EVENT_T \<Rightarrow> world \<Rightarrow> (bool \<times> world) result" where
  "processEvent gen i msg w =
     (if \<not> m_initialized (w_stages w i) then Inr (False, w)
      else let v = stateVars (w_stages w i) in
        bindR (case stateVar v of
                 Off \<Rightarrow> event_Off gen i msg v w
               | Active \<Rightarrow> event_Active gen i msg v w
               | SupplementingNextStage \<Rightarrow> event_SupplementingNextStage gen i msg v w
               | _ \<Rightarrow> Inr (False, v, w))
          (\<lambda>(consumed, v, w). Inr (consumed, upd_stage i (\<lambda>s. s\<lparr>stateVars := v\<rparr>) w)))"

subsection \<open>FsmEventQueue: queueing and draining events\<close>

fun generateEvent :: "nat \<Rightarrow> generator" and drainEvents :: "nat \<Rightarrow> nat \<Rightarrow> action" where
  "generateEvent 0 i msg w = Inl OutOfFuel"
| "generateEvent (Suc n) i msg w =
     (let (ok, q) = add msg (m_eventQue (w_stages w i));
          w = upd_stage i (\<lambda>s. s\<lparr>m_eventQue := q\<rparr>) w
      in if \<not> ok then Inl FatalError
         else if m_processingFsmEvent (w_stages w i) then Inr w
         else bindR (drainEvents n i (upd_stage i (\<lambda>s. s\<lparr>m_processingFsmEvent := True\<rparr>) w)) (\<lambda>w.
              Inr (upd_stage i (\<lambda>s. s\<lparr>m_processingFsmEvent := False\<rparr>) w)))"
| "drainEvents 0 i w = Inl OutOfFuel"
| "drainEvents (Suc n) i w =
     (case remove (m_eventQue (w_stages w i)) of
        (None, q) \<Rightarrow> Inr w
      | (Some msg, q) \<Rightarrow>
          bindR (processEvent (generateEvent n) i msg (upd_stage i (\<lambda>s. s\<lparr>m_eventQue := q\<rparr>) w))
            (\<lambda>(_, w). drainEvents n i w))"

text \<open>
  An operation of a stage runs with a fixed amount of fuel: one unit per nested call of
  generateEvent() and per event taken from a queue.
\<close>

definition stage_fuel :: nat where
  "stage_fuel = 40"

definition FsmEventQueue :: "FSM_EVENT_T ring" where
  "FsmEventQueue = RingBuffer 8 (replicate 8 FSM_NO_MSG)"

subsection \<open>Basic: the operations of the StageApi interface\<close>

definition Basic :: "stage_kind \<Rightarrow> nat \<Rightarrow> nat \<Rightarrow> stage" where
  "Basic kind systemStageIndex outputStageIndex =
     \<lparr>s_kind = kind, m_systemIndex = systemStageIndex, m_outIndex = outputStageIndex,
      m_startTime = Precision_T 0 0, m_args = None, m_nextStage = None, m_prevStage = None,
      m_startInOffCycle = False, m_supplemented = False, m_requestSupplementStartInOnCycle = True,
      m_requestOffStartInOnCycle = True, m_initialized = False,
      stateVars = \<lparr>stateVar = NUM_STATES, stateVarActive = NUM_STATES, stateVarCycling = NUM_STATES,
                   stateVarOnCycle = NUM_STATES, stateVarOffCycle = NUM_STATES\<rparr>,
      m_eventQue = FsmEventQueue, m_processingFsmEvent = False\<rparr>"

definition reconfigure :: "nat \<Rightarrow> nat \<Rightarrow> nat \<Rightarrow> world \<Rightarrow> world" where
  "reconfigure i systemStageIndex outputStageIndex =
     upd_stage i (\<lambda>s. s\<lparr>m_systemIndex := systemStageIndex, m_outIndex := outputStageIndex\<rparr>)"

definition requestOn :: "nat \<Rightarrow> bool \<Rightarrow> action" where
  "requestOn i startInOnCycle w =
     generateEvent stage_fuel i Fsm_evOnRequest (upd_stage i (\<lambda>s. s\<lparr>
       m_args := Some (w_argsId w), m_startInOffCycle := \<not> startInOnCycle, m_supplemented := False\<rparr>) w)"

definition requestAsSupplement :: "nat \<Rightarrow> nat \<Rightarrow> bool \<Rightarrow> action" where
  "requestAsSupplement i nextStage startNextStageInOnCycle w =
     generateEvent stage_fuel i Fsm_evNeedMoreCapacity (upd_stage i (\<lambda>s. s\<lparr>
       m_args := Some (w_argsId w), m_requestSupplementStartInOnCycle := startNextStageInOnCycle,
       m_nextStage := Some nextStage\<rparr>) w)"

definition requestModeToOff :: "nat \<Rightarrow> action" where
  "requestModeToOff i = generateEvent stage_fuel i Fsm_evOffModeRequest"

definition requestOff :: "nat \<Rightarrow> bool \<Rightarrow> action" where
  "requestOff i startLowerStageInOnCycle w =
     generateEvent stage_fuel i Fsm_evExcessCapacity (upd_stage i (\<lambda>s. s\<lparr>
       m_args := Some (w_argsId w), m_requestOffStartInOnCycle := startLowerStageInOnCycle\<rparr>) w)"

definition execute :: "nat \<Rightarrow> action" where
  "execute i w =
     generateEvent stage_fuel i FSM_NO_MSG (upd_stage i (\<lambda>s. s\<lparr>m_args := Some (w_argsId w)\<rparr>) w)"

definition isActive :: "nat \<Rightarrow> world \<Rightarrow> bool" where
  "isActive i w = isInActive (stateVars (w_stages w i))"

definition isSupplementing :: "nat \<Rightarrow> world \<Rightarrow> bool" where
  "isSupplementing i w = isInSupplementingNextStage (stateVars (w_stages w i))"

definition isOff :: "nat \<Rightarrow> world \<Rightarrow> bool" where
  "isOff i w = isInOff (stateVars (w_stages w i))"

definition isTransitioningFromLowerStage :: "nat \<Rightarrow> world \<Rightarrow> bool" where
  "isTransitioningFromLowerStage i w = isInTransitioningBackToLowerStage (stateVars (w_stages w i))"

definition isTransitioningBackToLowerStage :: "nat \<Rightarrow> world \<Rightarrow> bool" where
  "isTransitioningBackToLowerStage i w = isInTransitioningBackToLowerStage (stateVars (w_stages w i))"

definition isOnCycle :: "nat \<Rightarrow> world \<Rightarrow> bool" where
  "isOnCycle i w = isInOnCycle (stateVars (w_stages w i))"

definition isOffCycle :: "nat \<Rightarrow> world \<Rightarrow> bool" where
  "isOffCycle i w = isInOffCycle (stateVars (w_stages w i))"

end
