(* ===== verification/Stage_Run.thy ===== *)
theory Stage_Run
  imports Stage_Fsm
begin

text \<open>
  Runs of the stage state machine. The operations of a stage are executed symbolically over a normal
  form of the store (\<open>put_args\<close> and \<open>put_st\<close>), with the event queue seen only through its bounded
  queue contract. The result is an abstract description of a stage that has settled: which of the
  four rest states Off, OnTime, OffTime and SupplementingNextStage it is in, when its cycle began,
  and what it wrote to the argument block.
\<close>

subsection \<open>The store\<close>

definition put_st :: "nat \<Rightarrow> stage \<Rightarrow> world \<Rightarrow> world" where
  "put_st i s w = w\<lparr>w_stages := (w_stages w)(i := s)\<rparr>"

definition put_args :: "Args_T \<Rightarrow> world \<Rightarrow> world" where
  "put_args a w = w\<lparr>w_args := a\<rparr>"

lemma store_simps [simp]:
  "w_stages (put_st i s w) = (w_stages w)(i := s)"
  "w_args (put_st i s w) = w_args w"
  "w_argsId (put_st i s w) = w_argsId w"
  "w_stages (put_args a w) = w_stages w"
  "w_args (put_args a w) = a"
  "w_argsId (put_args a w) = w_argsId w"
  "put_args a (put_args b w) = put_args a w"
  "put_st i s (put_args a w) = put_args a (put_st i s w)"
  "put_st i s (put_st i t w) = put_st i s w"
  "upd_stage i f w = put_st i (f (w_stages w i)) w"
  "upd_args g w = put_args (g (w_args w)) w"
  by (simp_all add: put_st_def put_args_def upd_stage_def upd_args_def)

lemma put_args_inject:
  "put_args a (put_st i s w) = put_args b (put_st i t w) \<longleftrightarrow> a = b \<and> s = t"
proof
  assume eq: "put_args a (put_st i s w) = put_args b (put_st i t w)"
  from arg_cong [OF eq, of w_args] arg_cong [OF eq, of "\<lambda>w. w_stages w i"] show "a = b \<and> s = t" by simp
qed simp

lemma put_args_same: "put_args (w_args w) (put_st i s w) = put_st i s w"
  by (simp add: put_args_def put_st_def)

lemma put_st_swap: "i \<noteq> j \<Longrightarrow> put_st i s (put_st j t w) = put_st j t (put_st i s w)"
  by (simp add: put_st_def fun_upd_twist)

definition queue_ok :: "FSM_EVENT_T ring \<Rightarrow> bool" where
  "queue_ok q \<longleftrightarrow> ring_ok q \<and> ring_capacity q = 7"

definition pushq :: "FSM_EVENT_T \<Rightarrow> FSM_EVENT_T ring \<Rightarrow> FSM_EVENT_T ring" where
  "pushq x q = snd (add x q)"

definition popq :: "FSM_EVENT_T ring \<Rightarrow> FSM_EVENT_T ring" where
  "popq q = snd (remove q)"

lemma queue_add: "queue_ok q \<Longrightarrow> length (ring_items q) < 7 \<Longrightarrow> add x q = (True, pushq x q)"
  using ring.enq_room [of q x] by (auto simp: queue_ok_def pushq_def prod_eq_iff)

lemma queue_ok_push [simp]: "queue_ok q \<Longrightarrow> queue_ok (pushq x q)"
  using ring.ok_enq [of q x] ring.cap_enq [of x q] by (auto simp: queue_ok_def pushq_def)

lemma queue_ok_pop [simp]: "queue_ok q \<Longrightarrow> queue_ok (popq q)"
  using ring.ok_deq [of q] ring.cap_deq [of q] by (auto simp: queue_ok_def popq_def)

lemma items_push [simp]: "queue_ok q \<Longrightarrow> ring_items (pushq x q) = take 7 (ring_items q @ [x])"
  using ring.enq_room [of q x] ring.enq_full [of q x] ring_count_le [of q]
  by (cases "length (ring_items q) < 7") (auto simp: queue_ok_def pushq_def)

lemma items_pop [simp]: "queue_ok q \<Longrightarrow> ring_items (popq q) = tl (ring_items q)"
  using ring.deq_item [of q] ring.deq_empty [of q]
  by (cases "ring_items q") (auto simp: queue_ok_def popq_def)

declare length_ring_items [simp del]

lemma queue_remove:
  "queue_ok q \<Longrightarrow> remove q = (case ring_items q of [] \<Rightarrow> (None, q) | x # _ \<Rightarrow> (Some x, popq q))"
  using ring.deq_item [of q] ring.deq_empty [of q]
  by (cases "ring_items q") (auto simp: queue_ok_def popq_def prod_eq_iff)

lemma gen_queued:
  "0 < n \<Longrightarrow> m_processingFsmEvent (w_stages w i) \<Longrightarrow> queue_ok (m_eventQue (w_stages w i)) \<Longrightarrow>
   length (ring_items (m_eventQue (w_stages w i))) < 7 \<Longrightarrow>
   generateEvent n i e w = Inr (put_st i ((w_stages w i)\<lparr>m_eventQue := pushq e (m_eventQue (w_stages w i))\<rparr>) w)"
  by (cases n) (simp_all add: queue_add)

lemma gen_idle:
  "0 < n \<Longrightarrow> \<not> m_processingFsmEvent (w_stages w i) \<Longrightarrow> queue_ok (m_eventQue (w_stages w i)) \<Longrightarrow>
   length (ring_items (m_eventQue (w_stages w i))) < 7 \<Longrightarrow>
   generateEvent n i e w =
     bindR (drainEvents (n - 1) i (put_st i ((w_stages w i)\<lparr>m_eventQue := pushq e (m_eventQue (w_stages w i)),
               m_processingFsmEvent := True\<rparr>) w)) (\<lambda>w.
     Inr (put_st i ((w_stages w i)\<lparr>m_processingFsmEvent := False\<rparr>) w))"
  by (cases n) (simp_all add: queue_add)

lemma drain_eq:
  "0 < n \<Longrightarrow> queue_ok (m_eventQue (w_stages w i)) \<Longrightarrow>
   drainEvents n i w =
     (case ring_items (m_eventQue (w_stages w i)) of
        [] \<Rightarrow> Inr w
      | x # _ \<Rightarrow>
          bindR (processEvent (generateEvent (n - 1)) i x
                  (put_st i ((w_stages w i)\<lparr>m_eventQue := popq (m_eventQue (w_stages w i))\<rparr>) w))
            (\<lambda>(_, w). drainEvents (n - 1) i w))"
  by (cases n) (auto simp: queue_remove split: list.splits)

subsection \<open>Effects of the actions\<close>

definition out_ok :: "stage_kind \<Rightarrow> nat \<Rightarrow> VirtualOutputs_T \<Rightarrow> bool" where
  "out_ok k out vo \<longleftrightarrow> out < (case k of BasicCooling \<Rightarrow> length (outdoorStages vo)
                                      | BasicIndoorHeat _ \<Rightarrow> length (indoorStages vo))"

abbreviation out_of :: "stage \<Rightarrow> Args_T \<Rightarrow> bool" where
  "out_of s a \<equiv> out_ok (s_kind s) (m_outIndex s) (vOutputs a)"

definition stage_out :: "stage_kind \<Rightarrow> nat \<Rightarrow> nat \<Rightarrow> u16 \<Rightarrow> u16 \<Rightarrow> VirtualOutputs_T \<Rightarrow> VirtualOutputs_T" where
  "stage_out k sys out v fan vo =
     (let vo = (case k of BasicCooling \<Rightarrow> vo\<lparr>outdoorStages := (outdoorStages vo)[out := v]\<rparr>
                        | BasicIndoorHeat _ \<Rightarrow> vo\<lparr>indoorStages := (indoorStages vo)[out := v]\<rparr>)
      in if sys = 0 then vo\<lparr>indoorFan := fan\<rparr> else vo)"

abbreviation off_out :: "stage \<Rightarrow> Args_T \<Rightarrow> Args_T" where
  "off_out s a \<equiv> a\<lparr>vOutputs := stage_out (s_kind s) (m_systemIndex s) (m_outIndex s)
     VIRTUAL_OUTPUTS_OFF VIRTUAL_OUTPUTS_OFF (vOutputs a)\<rparr>"

abbreviation on_out :: "stage \<Rightarrow> Args_T \<Rightarrow> Args_T" where
  "on_out s a \<equiv> a\<lparr>vOutputs := stage_out (s_kind s) (m_systemIndex s) (m_outIndex s) VIRTUAL_OUTPUTS_ON
     (if s_kind s = BasicIndoorHeat False then VIRTUAL_OUTPUTS_OFF else VIRTUAL_OUTPUTS_ON) (vOutputs a)\<rparr>"

lemma use_args_live [simp]: "m_args (w_stages w i) = Some (w_argsId w) \<Longrightarrow> use_args i f w = f w"
  by (simp add: use_args_def)

lemma stageOff_eq:
  "m_args (w_stages w i) = Some (w_argsId w) \<Longrightarrow> out_of (w_stages w i) (w_args w) \<Longrightarrow>
   stageOff i w = Inr (put_args (off_out (w_stages w i) (w_args w)) w)"
  by (auto simp: stageOff_def BasicCooling_stageOff_def BasicIndoorHeat_stageOff_def set_outdoor_def
      set_indoor_def set_fan_def set_output_def out_ok_def stage_out_def Let_def
      split: stage_kind.splits)

lemma stageOn_eq:
  "m_args (w_stages w i) = Some (w_argsId w) \<Longrightarrow> out_of (w_stages w i) (w_args w) \<Longrightarrow>
   stageOn i w = Inr (put_args (on_out (w_stages w i) (w_args w)) w)"
  by (auto simp: stageOn_def BasicCooling_stageOn_def BasicIndoorHeat_stageOn_def set_outdoor_def
      set_indoor_def set_fan_def set_output_def out_ok_def stage_out_def Let_def
      split: stage_kind.splits)

lemma stage_out_lengths [simp]:
  "length (outdoorStages (stage_out k sys out v fan vo)) = length (outdoorStages vo)"
  "length (indoorStages (stage_out k sys out v fan vo)) = length (indoorStages vo)"
  by (auto simp: stage_out_def Let_def split: stage_kind.splits)

lemma out_ok_simps [simp]:
  "out_ok k out (stage_out k' sys out' v fan vo) = out_ok k out vo"
  "out_ok k out (vo\<lparr>sovInHeating := b\<rparr>) = out_ok k out vo"
  by (simp_all add: out_ok_def split: stage_kind.split)

lemma stage_out_twice [simp]:
  "stage_out k sys out v fan (stage_out k sys out v' fan' vo) = stage_out k sys out v fan vo"
  by (auto simp: stage_out_def Let_def split: stage_kind.splits)

text \<open>
  The on and off times that the duty cycle calculation gives a stage, and the condition that the
  calculation is defined: the stage has a configuration with an ordered load range, and the
  conversions of the code have a value for the load.
\<close>

definition on_result :: "nat \<Rightarrow> rat \<Rightarrow> SystemConfig_T \<Rightarrow> u32 result" where
  "on_result idx pv cfg = (let c = stages cfg ! idx in
     calculateOnTime pv (minOnTime c) (cph c) (lowerBound c) (upperBound c))"

definition off_result :: "nat \<Rightarrow> rat \<Rightarrow> SystemConfig_T \<Rightarrow> u32 result" where
  "off_result idx pv cfg = (let c = stages cfg ! idx in
     calculateOffTime pv (minOffTime c) (cph c) (lowerBound c) (upperBound c))"

definition duty_ok :: "nat \<Rightarrow> rat \<Rightarrow> SystemConfig_T \<Rightarrow> bool" where
  "duty_ok idx pv cfg \<longleftrightarrow>
     idx < length (stages cfg) \<and> lowerBound (stages cfg ! idx) \<le> upperBound (stages cfg ! idx) \<and>
     \<not> isl (on_result idx pv cfg) \<and> \<not> isl (off_result idx pv cfg)"

definition on_time :: "nat \<Rightarrow> rat \<Rightarrow> SystemConfig_T \<Rightarrow> u32" where
  "on_time idx pv cfg = projr (on_result idx pv cfg)"

definition off_time :: "nat \<Rightarrow> rat \<Rightarrow> SystemConfig_T \<Rightarrow> u32" where
  "off_time idx pv cfg = projr (off_result idx pv cfg)"

lemma duty_ok_results:
  assumes "duty_ok idx pv cfg"
  shows "on_result idx pv cfg = Inr (on_time idx pv cfg)" "off_result idx pv cfg = Inr (off_time idx pv cfg)"
  using assms by (auto simp: duty_ok_def on_time_def off_time_def isl_def)

lemma duty_times_pos:
  assumes "duty_ok idx pv cfg"
  shows "on_time idx pv cfg \<noteq> 0" "off_time idx pv cfg \<noteq> 0"
proof -
  let ?c = "stages cfg ! idx"
  have le: "lowerBound ?c \<le> upperBound ?c" using assms by (simp add: duty_ok_def)
  from duty_ok_results [OF assms]
  have "calculateOnTime pv (minOnTime ?c) (cph ?c) (lowerBound ?c) (upperBound ?c) = Inr (on_time idx pv cfg)"
    "calculateOffTime pv (minOffTime ?c) (cph ?c) (lowerBound ?c) (upperBound ?c) = Inr (off_time idx pv cfg)"
    by (simp_all add: on_result_def off_result_def Let_def)
  then have "150 \<le> on_time idx pv cfg" "150 \<le> off_time idx pv cfg"
    by (auto elim!: on_time_cases off_time_cases dest!: cycle_time_lower(1)
        dest: normalizePv_mono [OF _ _ order_refl le] share_bounds)
  then show "on_time idx pv cfg \<noteq> 0" "off_time idx pv cfg \<noteq> 0" by auto
qed

definition time_up :: "Precision_T \<Rightarrow> u32 \<Rightarrow> Precision_T \<Rightarrow> bool \<Rightarrow> bool" where
  "time_up start t now abort \<longleftrightarrow> expiredPrecision start (Precision_T t 0) now \<or> abort"

lemma expired_now: "expiredPrecision t (Precision_T n 0) t \<longleftrightarrow> n = 0"
  by (auto simp: expiredPrecision_def deltaPrecision_def Let_def word_less_nat_alt)

lemma time_up_now [simp]:
  "time_up t n t abort \<longleftrightarrow> n = 0 \<or> abort"
  "time_up start n t True"
  by (auto simp: time_up_def expired_now)

abbreviation duty_of :: "stage \<Rightarrow> Args_T \<Rightarrow> bool" where
  "duty_of s a \<equiv> duty_ok (m_systemIndex s) (pvOut a) (systemConfig a)"

abbreviation on_of :: "stage \<Rightarrow> Args_T \<Rightarrow> u32" where
  "on_of s a \<equiv> on_time (m_systemIndex s) (pvOut a) (systemConfig a)"

abbreviation off_of :: "stage \<Rightarrow> Args_T \<Rightarrow> u32" where
  "off_of s a \<equiv> off_time (m_systemIndex s) (pvOut a) (systemConfig a)"

abbreviation clear_abort :: "Args_T \<Rightarrow> Args_T" where
  "clear_abort a \<equiv> a\<lparr>whiteBox := (whiteBox a)\<lparr>abortOnOffCycle := False\<rparr>\<rparr>"

abbreviation set_onTime :: "u32 \<Rightarrow> Args_T \<Rightarrow> Args_T" where
  "set_onTime t a \<equiv> a\<lparr>cycleInfo := (cycleInfo a)\<lparr>onTime := t\<rparr>\<rparr>"

abbreviation set_offTime :: "u32 \<Rightarrow> Args_T \<Rightarrow> Args_T" where
  "set_offTime t a \<equiv> a\<lparr>cycleInfo := (cycleInfo a)\<lparr>offTime := t\<rparr>\<rparr>"

lemma checkOnTime_eq:
  "m_args (w_stages w i) = Some (w_argsId w) \<Longrightarrow> duty_of (w_stages w i) (w_args w) \<Longrightarrow>
   checkOnTime gen i w =
     (if mode (cycleInfo (w_args w)) = eON_CYCLE then
        if time_up (m_startTime (w_stages w i)) (on_of (w_stages w i) (w_args w))
             (currentInterval (w_args w)) (abortOnOffCycle (whiteBox (w_args w)))
        then gen i Fsm_evOnTimeExpired
               (put_args (clear_abort (set_onTime (on_of (w_stages w i) (w_args w)) (w_args w))) w)
        else Inr (put_args (set_onTime (on_of (w_stages w i) (w_args w)) (w_args w)) w)
      else Inr w)"
  using duty_ok_results(1) [of "m_systemIndex (w_stages w i)" "pvOut (w_args w)" "systemConfig (w_args w)"]
  by (simp add: checkOnTime_def stage_config_def on_result_def duty_ok_def Let_def time_up_def)

lemma checkOffTime_eq:
  "m_args (w_stages w i) = Some (w_argsId w) \<Longrightarrow> duty_of (w_stages w i) (w_args w) \<Longrightarrow>
   checkOffTime gen i w =
     (if mode (cycleInfo (w_args w)) = eOFF_CYCLE then
        if time_up (m_startTime (w_stages w i)) (off_of (w_stages w i) (w_args w))
             (currentInterval (w_args w)) (abortOnOffCycle (whiteBox (w_args w)))
        then gen i Fsm_evOffTimeExpired
               (put_args (clear_abort (set_offTime (off_of (w_stages w i) (w_args w)) (w_args w))) w)
        else Inr (put_args (set_offTime (off_of (w_stages w i) (w_args w)) (w_args w)) w)
      else Inr w)"
  using duty_ok_results(2) [of "m_systemIndex (w_stages w i)" "pvOut (w_args w)" "systemConfig (w_args w)"]
  by (simp add: checkOffTime_def stage_config_def off_result_def duty_ok_def Let_def time_up_def)


lemmas fsm_defs = processEvent_def event_Active_def event_Cycling_def event_OnCycle_def event_OffCycle_def
  event_Off_def event_SupplementingNextStage_def enter_cycling_def

lemmas act_defs = startOffTime_def startOnTime_def startingStageOff_def startingStageOn_def
  checkStartingOffTime_def checkStartingOnTime_def startCyclingInOffCycle_def startCyclingInOnCycle_def
  isStartInOffCycle_def isBeingSupplemented_def

lemmas run_simps = stageOff_eq stageOn_eq checkOnTime_eq checkOffTime_eq gen_queued gen_idle drain_eq
  duty_times_pos

subsection \<open>Settled stages\<close>

definition idle :: "stage \<Rightarrow> bool" where
  "idle s \<longleftrightarrow> m_initialized s \<and> queue_ok (m_eventQue s) \<and> ring_items (m_eventQue s) = [] \<and>
     \<not> m_processingFsmEvent s"

abbreviation st_of :: "stage \<Rightarrow> States" where
  "st_of s \<equiv> getInnermostActiveState (stateVars s)"

lemmas isIn_defs = isInStartingOff_def isInStartingOn_def isInOnTime_def isInOffTime_def
  isInTransitioningBackToLowerStage_def isInTransitioningFromLowerStage_def isInOff_def
  isInSupplementingNextStage_def isInOnCycle_def isInOffCycle_def isInActive_def isInCycling_def

lemma innermost_iff:
  "getInnermostActiveState v = OnTime \<longleftrightarrow>
     stateVar v = Active \<and> stateVarActive v = Cycling \<and> stateVarCycling v = OnCycle \<and> stateVarOnCycle v = OnTime"
  "getInnermostActiveState v = OffTime \<longleftrightarrow>
     stateVar v = Active \<and> stateVarActive v = Cycling \<and> stateVarCycling v = OffCycle \<and> stateVarOffCycle v = OffTime"
  "getInnermostActiveState v = Off \<longleftrightarrow> stateVar v = Off"
  "getInnermostActiveState v = SupplementingNextStage \<longleftrightarrow> stateVar v = SupplementingNextStage"
  by (auto simp: getInnermostActiveState_def isIn_defs)

definition settles :: "nat \<Rightarrow> stage \<Rightarrow> States \<Rightarrow> Precision_T \<Rightarrow> Args_T \<Rightarrow> world \<Rightarrow> world \<Rightarrow> bool" where
  "settles i s st start a w w' \<longleftrightarrow>
     (\<exists>v q. getInnermostActiveState v = st \<and> queue_ok q \<and> ring_items q = [] \<and>
        w' = put_args a (put_st i (s\<lparr>m_startTime := start, stateVars := v, m_eventQue := q\<rparr>) w))"

definition begin_off :: "stage \<Rightarrow> Args_T \<Rightarrow> Args_T" where
  "begin_off s a = off_out s (a\<lparr>cycleInfo := (cycleInfo a)\<lparr>beginOffTime := currentInterval a,
     mode := eOFF_CYCLE, offTime := off_of s a\<rparr>\<rparr>)"

definition begin_on :: "stage \<Rightarrow> Args_T \<Rightarrow> Args_T" where
  "begin_on s a = on_out s (a\<lparr>cycleInfo := (cycleInfo a)\<lparr>beginOnTime := currentInterval a,
     mode := eON_CYCLE, onTime := on_of s a\<rparr>\<rparr>)"

definition check_on :: "stage \<Rightarrow> Args_T \<Rightarrow> bool \<times> Args_T" where
  "check_on s a =
     (if mode (cycleInfo a) = eON_CYCLE then
        if time_up (m_startTime s) (on_of s a) (currentInterval a) (abortOnOffCycle (whiteBox a))
        then (True, clear_abort (set_onTime (on_of s a) a)) else (False, set_onTime (on_of s a) a)
      else (False, a))"

definition check_off :: "stage \<Rightarrow> Args_T \<Rightarrow> bool \<times> Args_T" where
  "check_off s a =
     (if mode (cycleInfo a) = eOFF_CYCLE then
        if time_up (m_startTime s) (off_of s a) (currentInterval a) (abortOnOffCycle (whiteBox a))
        then (True, clear_abort (set_offTime (off_of s a) a)) else (False, set_offTime (off_of s a) a)
      else (False, a))"

definition live :: "nat \<Rightarrow> world \<Rightarrow> bool" where
  "live i w \<longleftrightarrow> m_args (w_stages w i) = Some (w_argsId w)"

lemma settles_put [simp]:
  "settles i s st start a w (put_args a' (put_st i t w)) \<longleftrightarrow>
     getInnermostActiveState (stateVars t) = st \<and> queue_ok (m_eventQue t) \<and> ring_items (m_eventQue t) = [] \<and>
     t = s\<lparr>m_startTime := start, stateVars := stateVars t, m_eventQue := m_eventQue t\<rparr> \<and> a' = a"
  unfolding settles_def put_args_inject
  by (safe, simp_all) (intro exI [of _ "stateVars t"] exI [of _ "m_eventQue t"], simp)+

lemma settles_put_st [simp]:
  "settles i s st start a w (put_st i t w) \<longleftrightarrow>
     getInnermostActiveState (stateVars t) = st \<and> queue_ok (m_eventQue t) \<and> ring_items (m_eventQue t) = [] \<and>
     t = s\<lparr>m_startTime := start, stateVars := stateVars t, m_eventQue := m_eventQue t\<rparr> \<and> a = w_args w"
  using settles_put [of i s st start a w "w_args w" t] by (auto simp: put_args_same)

lemma check_on_up:
  "check_on s a = (True, b) \<Longrightarrow> mode (cycleInfo a) = eON_CYCLE \<and> b = clear_abort (set_onTime (on_of s a) a) \<and>
     time_up (m_startTime s) (on_of s a) (currentInterval a) (abortOnOffCycle (whiteBox a))"
  by (auto simp: check_on_def split: if_splits)

lemma check_off_up:
  "check_off s a = (True, b) \<Longrightarrow> mode (cycleInfo a) = eOFF_CYCLE \<and> b = clear_abort (set_offTime (off_of s a) a) \<and>
     time_up (m_startTime s) (off_of s a) (currentInterval a) (abortOnOffCycle (whiteBox a))"
  by (auto simp: check_off_def split: if_splits)

lemma check_on_not_up:
  "check_on s a = (False, b) \<Longrightarrow> mode (cycleInfo a) \<noteq> eON_CYCLE \<and> b = a \<or>
     mode (cycleInfo a) = eON_CYCLE \<and> b = set_onTime (on_of s a) a \<and>
     \<not> time_up (m_startTime s) (on_of s a) (currentInterval a) (abortOnOffCycle (whiteBox a))"
  by (auto simp: check_on_def split: if_splits)

lemma check_off_not_up:
  "check_off s a = (False, b) \<Longrightarrow> mode (cycleInfo a) \<noteq> eOFF_CYCLE \<and> b = a \<or>
     mode (cycleInfo a) = eOFF_CYCLE \<and> b = set_offTime (off_of s a) a \<and>
     \<not> time_up (m_startTime s) (off_of s a) (currentInterval a) (abortOnOffCycle (whiteBox a))"
  by (auto simp: check_off_def split: if_splits)

lemmas exec_simps = fsm_defs act_defs run_simps innermost_iff idle_def live_def

definition ready :: "nat \<Rightarrow> world \<Rightarrow> bool" where
  "ready i w \<longleftrightarrow> duty_of (w_stages w i) (w_args w) \<and> out_of (w_stages w i) (w_args w) \<and>
     idle (w_stages w i) \<and> live i w"

lemma event_OnTime_up:
  assumes "12 \<le> n" "ready i w" "st_of (w_stages w i) = OnTime" "check_on (w_stages w i) (w_args w) = (True, a)"
    and m: "msg = FSM_NO_MSG \<or> msg = Fsm_evOnRequest"
  shows "\<exists>w'. generateEvent n i msg w = Inr w' \<and>
    settles i (w_stages w i) OffTime (currentInterval a) (begin_off (w_stages w i) a) w w'"
proof -
  let ?P = "\<lambda>msg. \<exists>w'. generateEvent n i msg w = Inr w' \<and>
    settles i (w_stages w i) OffTime (currentInterval a) (begin_off (w_stages w i) a) w w'"
  have "?P FSM_NO_MSG \<and> ?P Fsm_evOnRequest"
    using assms(1-3) check_on_up [OF assms(4)]
    by (cases "time_up (m_startTime (w_stages w i)) (on_of (w_stages w i) (w_args w))
          (currentInterval (w_args w)) False")
      (simp_all add: ready_def exec_simps begin_off_def del: bindR_eq_Inr split del: if_split cong: bindR_weak_cong)
  with m show ?thesis by auto
qed

lemma event_OffTime_up:
  assumes "12 \<le> n" "ready i w" "st_of (w_stages w i) = OffTime" "check_off (w_stages w i) (w_args w) = (True, a)"
    and m: "msg = FSM_NO_MSG \<or> msg = Fsm_evOnRequest"
  shows "\<exists>w'. generateEvent n i msg w = Inr w' \<and>
    settles i (w_stages w i) OnTime (currentInterval a) (begin_on (w_stages w i) a) w w'"
proof -
  let ?P = "\<lambda>msg. \<exists>w'. generateEvent n i msg w = Inr w' \<and>
    settles i (w_stages w i) OnTime (currentInterval a) (begin_on (w_stages w i) a) w w'"
  have "?P FSM_NO_MSG \<and> ?P Fsm_evOnRequest"
    using assms(1-3) check_off_up [OF assms(4)]
    by (cases "time_up (m_startTime (w_stages w i)) (off_of (w_stages w i) (w_args w))
          (currentInterval (w_args w)) False")
      (simp_all add: ready_def exec_simps begin_on_def del: bindR_eq_Inr split del: if_split cong: bindR_weak_cong)
  with m show ?thesis by auto
qed

lemma event_OnTime_not_up:
  assumes "12 \<le> n" "ready i w" "st_of (w_stages w i) = OnTime" "check_on (w_stages w i) (w_args w) = (False, a)"
    and m: "msg = FSM_NO_MSG \<or> msg = Fsm_evOnRequest"
  shows "\<exists>w'. generateEvent n i msg w = Inr w' \<and> settles i (w_stages w i) OnTime (m_startTime (w_stages w i)) a w w'"
proof -
  let ?P = "\<lambda>msg. \<exists>w'. generateEvent n i msg w = Inr w' \<and>
    settles i (w_stages w i) OnTime (m_startTime (w_stages w i)) a w w'"
  from check_on_not_up [OF assms(4)] have "?P FSM_NO_MSG \<and> ?P Fsm_evOnRequest"
  proof (elim disjE)
  qed (use assms(1-3) in \<open>simp_all add: ready_def exec_simps del: bindR_eq_Inr split del: if_split cong: bindR_weak_cong\<close>)
  with m show ?thesis by auto
qed

lemma event_OffTime_not_up:
  assumes "12 \<le> n" "ready i w" "st_of (w_stages w i) = OffTime" "check_off (w_stages w i) (w_args w) = (False, a)"
    and m: "msg = FSM_NO_MSG \<or> msg = Fsm_evOnRequest"
  shows "\<exists>w'. generateEvent n i msg w = Inr w' \<and> settles i (w_stages w i) OffTime (m_startTime (w_stages w i)) a w w'"
proof -
  let ?P = "\<lambda>msg. \<exists>w'. generateEvent n i msg w = Inr w' \<and>
    settles i (w_stages w i) OffTime (m_startTime (w_stages w i)) a w w'"
  from check_off_not_up [OF assms(4)] have "?P FSM_NO_MSG \<and> ?P Fsm_evOnRequest"
  proof (elim disjE)
  qed (use assms(1-3) in \<open>simp_all add: ready_def exec_simps del: bindR_eq_Inr split del: if_split cong: bindR_weak_cong\<close>)
  with m show ?thesis by auto
qed

lemma event_ignored:
  assumes "12 \<le> n" "idle (w_stages w i)" and st: "st = Off \<or> st = SupplementingNextStage" "st_of (w_stages w i) = st"
    and m: "msg = FSM_NO_MSG \<or> msg = Fsm_evExcessCapacity \<or> msg = Fsm_evNeedMoreCapacity"
  shows "\<exists>w'. generateEvent n i msg w = Inr w' \<and>
    settles i (w_stages w i) st (m_startTime (w_stages w i)) (w_args w) w w'"
proof -
  let ?P = "\<lambda>msg. \<exists>w'. generateEvent n i msg w = Inr w' \<and>
    settles i (w_stages w i) st (m_startTime (w_stages w i)) (w_args w) w w'"
  from st(1) have "?P FSM_NO_MSG \<and> ?P Fsm_evExcessCapacity \<and> ?P Fsm_evNeedMoreCapacity"
  proof (elim disjE)
  qed (use assms(1,2) st(2) in \<open>simp_all add: exec_simps del: bindR_eq_Inr split del: if_split cong: bindR_weak_cong\<close>)
  with m show ?thesis by auto
qed

definition activate :: "stage \<Rightarrow> Args_T \<Rightarrow> Args_T" where
  "activate s a =
     (let a = off_out s a;
          a = (if m_systemIndex s = 0 then a\<lparr>systemOn := True\<rparr> else a)
      in if s_kind s = BasicCooling then a\<lparr>vOutputs := (vOutputs a)\<lparr>sovInHeating := False\<rparr>\<rparr> else a)"

lemma initializeActive_eq:
  "m_args (w_stages w i) = Some (w_argsId w) \<Longrightarrow> out_of (w_stages w i) (w_args w) \<Longrightarrow>
   initializeActive i w = Inr (put_args (activate (w_stages w i) (w_args w)) w)"
  by (cases "s_kind (w_stages w i)") (auto simp: initializeActive_def Basic_initializeActive_def
     BasicCooling_initializeActive_def activate_def stageOff_eq Let_def)

lemma activate_simps [simp]:
  "pvOut (activate s a) = pvOut a" "systemConfig (activate s a) = systemConfig a"
  "currentInterval (activate s a) = currentInterval a" "whiteBox (activate s a) = whiteBox a"
  "cycleInfo (activate s a) = cycleInfo a" "out_ok k out (vOutputs (activate s a)) = out_ok k out (vOutputs a)"
  by (auto simp: activate_def Let_def)

lemma activate_stage [simp]:
  "activate (s\<lparr>m_eventQue := q\<rparr>) = activate s"
  "activate (s\<lparr>m_processingFsmEvent := b\<rparr>) = activate s"
  by (auto simp: activate_def Let_def fun_eq_iff)

definition enter :: "bool \<Rightarrow> stage \<Rightarrow> Args_T \<Rightarrow> States \<times> Args_T" where
  "enter offFirst s a =
     (if offFirst then
        if abortOnOffCycle (whiteBox a) then (OnTime, begin_on s (clear_abort (begin_off s a)))
        else (OffTime, begin_off s a)
      else if abortOnOffCycle (whiteBox a) then (OffTime, begin_off s (clear_abort (begin_on s a)))
      else (OnTime, begin_on s a))"

lemma event_Off_OnRequest:
  assumes "12 \<le> n" "ready i w" "st_of (w_stages w i) = Off" "\<not> m_supplemented (w_stages w i)"
    "enter (m_startInOffCycle (w_stages w i)) (w_stages w i) (activate (w_stages w i) (w_args w)) = (st, a)"
  shows "\<exists>w'. generateEvent n i Fsm_evOnRequest w = Inr w' \<and>
    settles i (w_stages w i) st (currentInterval (w_args w)) a w w'"
  using assms
  by (cases "m_startInOffCycle (w_stages w i)"; cases "abortOnOffCycle (whiteBox (w_args w))")
    (auto simp add: ready_def exec_simps initializeActive_eq enter_def begin_on_def begin_off_def
      simp del: bindR_eq_Inr split del: if_split cong: bindR_weak_cong)

definition shutdown :: "stage \<Rightarrow> Args_T \<Rightarrow> Args_T" where
  "shutdown s a =
     (let a = off_out s a
      in if m_systemIndex s = 0
         then a\<lparr>systemOn := False, cycleInfo := (cycleInfo a)\<lparr>mode := eOFF_STATUS\<rparr>\<rparr> else a)"

lemma shutdownStage_eq:
  "m_args (w_stages w i) = Some (w_argsId w) \<Longrightarrow> out_of (w_stages w i) (w_args w) \<Longrightarrow>
   shutdownStage i w = Inr (put_args (shutdown (w_stages w i) (w_args w)) w)"
  by (simp add: shutdownStage_def stageOff_eq shutdown_def Let_def)

lemma shutdown_simps [simp]:
  "shutdown (s\<lparr>m_eventQue := q\<rparr>) = shutdown s"
  "shutdown (s\<lparr>m_processingFsmEvent := b\<rparr>) = shutdown s"
  "shutdown (s\<lparr>stateVars := v\<rparr>) = shutdown s"
  "shutdown (s\<lparr>m_prevStage := p\<rparr>) = shutdown s"
  "shutdown (s\<lparr>m_supplemented := b\<rparr>) = shutdown s"
  by (auto simp: shutdown_def Let_def fun_eq_iff)

lemma event_OnTime_Excess:
  assumes "12 \<le> n" "ready i w" "st_of (w_stages w i) = OnTime" "\<not> m_supplemented (w_stages w i)"
    "check_on (w_stages w i) (w_args w) = (up, a)"
  shows "\<exists>w'. generateEvent n i Fsm_evExcessCapacity w = Inr w' \<and>
    settles i (w_stages w i) Off (m_startTime (w_stages w i)) (shutdown (w_stages w i) a) w w'"
  using assms
  by (auto simp: ready_def exec_simps shutdownStage_eq check_on_def
      simp del: bindR_eq_Inr split: if_split_asm split del: if_split cong: bindR_weak_cong)

lemma event_OffTime_Excess:
  assumes "12 \<le> n" "ready i w" "st_of (w_stages w i) = OffTime" "\<not> m_supplemented (w_stages w i)"
    "check_off (w_stages w i) (w_args w) = (up, a)"
  shows "\<exists>w'. generateEvent n i Fsm_evExcessCapacity w = Inr w' \<and>
    settles i (w_stages w i) Off (m_startTime (w_stages w i)) (shutdown (w_stages w i) a) w w'"
  using assms
  by (auto simp: ready_def exec_simps shutdownStage_eq check_off_def
      simp del: bindR_eq_Inr split: if_split_asm split del: if_split cong: bindR_weak_cong)


abbreviation reinit :: "stage \<Rightarrow> stage" where
  "reinit s \<equiv> s\<lparr>m_startInOffCycle := False, m_supplemented := False, m_nextStage := None,
     m_prevStage := None, m_args := None, m_requestOffStartInOnCycle := True,
     m_requestSupplementStartInOnCycle := True\<rparr>"

lemma event_OffModeRequest:
  assumes "12 \<le> n" "idle (w_stages w i)" "st_of (w_stages w i) = SupplementingNextStage"
  shows "\<exists>w'. generateEvent n i Fsm_evOffModeRequest w = Inr w' \<and>
    settles i (reinit (w_stages w i)) Off (Precision_T 0 0) (w_args w) w w'"
  using assms by (simp add: exec_simps initializeStage_def del: bindR_eq_Inr split del: if_split cong: bindR_weak_cong)

lemma event_OnTime_OffModeRequest:
  assumes "12 \<le> n" "ready i w" "st_of (w_stages w i) = OnTime" "check_on (w_stages w i) (w_args w) = (up, a)"
  shows "\<exists>w'. generateEvent n i Fsm_evOffModeRequest w = Inr w' \<and>
    settles i (reinit (w_stages w i)) Off (Precision_T 0 0) a w w'"
  using assms
  by (auto simp: ready_def exec_simps initializeStage_def check_on_def simp del: bindR_eq_Inr split: if_split_asm split del: if_split cong: bindR_weak_cong)

lemma event_OffTime_OffModeRequest:
  assumes "12 \<le> n" "ready i w" "st_of (w_stages w i) = OffTime" "check_off (w_stages w i) (w_args w) = (up, a)"
  shows "\<exists>w'. generateEvent n i Fsm_evOffModeRequest w = Inr w' \<and>
    settles i (reinit (w_stages w i)) Off (Precision_T 0 0) a w w'"
  using assms
  by (auto simp: ready_def exec_simps initializeStage_def check_off_def simp del: bindR_eq_Inr split: if_split_asm split del: if_split cong: bindR_weak_cong)

lemma event_Cycling_dangling:
  assumes "12 \<le> n" "idle (w_stages w i)" "st_of (w_stages w i) = OnTime \<or> st_of (w_stages w i) = OffTime"
    "m_args (w_stages w i) = Some p" "p \<noteq> w_argsId w"
  shows "generateEvent n i msg w = Inl DanglingPointer"
  using assms
  by (elim disjE) (simp_all add: exec_simps use_args_def checkOnTime_def checkOffTime_def)

lemma event_Off_supplemented:
  assumes "12 \<le> n" "ready i w" "st_of (w_stages w i) = Off" "m_supplemented (w_stages w i)"
    "enter (m_startInOffCycle (w_stages w i)) (w_stages w i) (w_args w) = (st, a)"
  shows "\<exists>w'. generateEvent n i Fsm_evOnRequest w = Inr w' \<and>
    settles i (w_stages w i) st (currentInterval (w_args w)) a w w'"
  using assms
  by (cases "m_startInOffCycle (w_stages w i)"; cases "abortOnOffCycle (whiteBox (w_args w))")
    (auto simp add: ready_def exec_simps initializeFromTransition_def checkFromTransition_def
      enter_def begin_on_def begin_off_def simp del: bindR_eq_Inr split del: if_split cong: bindR_weak_cong)

lemma event_LessCapacityNeeded:
  assumes "12 \<le> n" "ready i w" "st_of (w_stages w i) = SupplementingNextStage"
    "enter (m_startInOffCycle (w_stages w i)) (w_stages w i) (w_args w) = (st, a)"
  shows "\<exists>w'. generateEvent n i Fsm_evLessCapacityNeeded w = Inr w' \<and>
    settles i (w_stages w i) st (currentInterval (w_args w)) a w w'"
  using assms
  by (cases "m_startInOffCycle (w_stages w i)"; cases "abortOnOffCycle (whiteBox (w_args w))")
    (auto simp add: ready_def exec_simps exitSupplementing_def
      enter_def begin_on_def begin_off_def simp del: bindR_eq_Inr split del: if_split cong: bindR_weak_cong)

text \<open>The stage object after an event, for runs in which one stage calls another.\<close>

definition after :: "nat \<Rightarrow> nat \<Rightarrow> FSM_EVENT_T \<Rightarrow> world \<Rightarrow> stage" where
  "after n i e w = w_stages (projr (generateEvent n i e w)) i"

lemma settles_after:
  assumes "\<exists>w'. generateEvent n i e w = Inr w' \<and> settles i s st start a w w'"
  shows "generateEvent n i e w = Inr (put_args a (put_st i (after n i e w) w))"
    "after n i e w = s\<lparr>m_startTime := start, stateVars := stateVars (after n i e w),
       m_eventQue := m_eventQue (after n i e w)\<rparr>"
    "st_of (after n i e w) = st" "queue_ok (m_eventQue (after n i e w))"
    "ring_items (m_eventQue (after n i e w)) = []"
  using assms by (auto simp: settles_def after_def)

lemma after_fields:
  assumes "\<exists>w'. generateEvent n i e w = Inr w' \<and> settles i s st start a w w'" "idle s"
  shows "st_of (after n i e w) = st" "idle (after n i e w)" "m_startTime (after n i e w) = start"
    "m_supplemented (after n i e w) = m_supplemented s" "m_prevStage (after n i e w) = m_prevStage s"
proof -
  note after = settles_after [OF assms(1)]
  have field: "f (after n i e w) = f (s\<lparr>m_startTime := start, stateVars := stateVars (after n i e w),
       m_eventQue := m_eventQue (after n i e w)\<rparr>)" for f :: "stage \<Rightarrow> 'x"
    by (rule arg_cong [OF after(2)])
  show "st_of (after n i e w) = st" by (rule after)
  show "idle (after n i e w)"
    using after(4,5) assms(2) field [of m_initialized] field [of m_processingFsmEvent] by (simp add: idle_def)
  show "m_startTime (after n i e w) = start" using field [of m_startTime] by simp
  show "m_supplemented (after n i e w) = m_supplemented s" using field [of m_supplemented] by simp
  show "m_prevStage (after n i e w) = m_prevStage s" using field [of m_prevStage] by simp
qed

lemma supplement_call:
  fixes n j w
  defines "r \<equiv> enter (m_startInOffCycle (w_stages w j)) (w_stages w j) (w_args w)"
    and "s \<equiv> after n j Fsm_evOnRequest w"
  assumes "12 \<le> n" "ready j w" "st_of (w_stages w j) = Off" "m_supplemented (w_stages w j)"
  shows "generateEvent n j Fsm_evOnRequest w = Inr (put_args (snd r) (put_st j s w))"
    "st_of s = fst r" "idle s" "m_startTime s = currentInterval (w_args w)"
    "m_supplemented s" "m_prevStage s = m_prevStage (w_stages w j)"
  using settles_after(1) [OF event_Off_supplemented [OF assms(3-) prod.collapse [symmetric]]]
    after_fields [OF event_Off_supplemented [OF assms(3-) prod.collapse [symmetric]]] assms(3-)
  by (auto simp: r_def s_def ready_def)

lemma enter_simps [simp]:
  "pvOut (snd (enter b s a)) = pvOut a" "systemConfig (snd (enter b s a)) = systemConfig a"
  "out_ok k out (vOutputs (snd (enter b s a))) = out_ok k out (vOutputs a)"
  "enter b (s\<lparr>m_args := p\<rparr>) = enter b s" "enter b (s\<lparr>m_startInOffCycle := c\<rparr>) = enter b s" 
  "enter b (s\<lparr>m_supplemented := c\<rparr>) = enter b s" "enter b (s\<lparr>m_nextStage := ns\<rparr>) = enter b s" 
  "enter b (s\<lparr>m_prevStage := ps\<rparr>) = enter b s"
  "currentInterval (snd (enter b s a)) = currentInterval a"
  by (auto simp: enter_def begin_on_def begin_off_def fun_eq_iff)

lemmas call_simps = fsm_defs act_defs stageOff_eq stageOn_eq checkOnTime_eq checkOffTime_eq gen_queued
  duty_times_pos innermost_iff idle_def live_def

lemma event_Supplement:
  fixes i j w a
  defines "si \<equiv> w_stages w i" and "sj \<equiv> w_stages w j"
  defines "r \<equiv> enter (\<not> m_requestSupplementStartInOnCycle si) sj a"
  assumes n: "24 \<le> n" "i \<noteq> j" "ready i w" "m_nextStage si = Some j"
    and st: "st_of si = OnTime \<and> a = snd (check_on si (w_args w)) \<or> st_of si = OffTime \<and> a = snd (check_off si (w_args w))"
    and j: "idle sj" "st_of sj = Off" "duty_of sj (w_args w)" "out_of sj (w_args w)"
  shows "\<exists>w'. generateEvent n i Fsm_evNeedMoreCapacity w = Inr w' \<and>
    w_args w' = on_out si (snd r) \<and> w_argsId w' = w_argsId w \<and>
    idle (w_stages w' i) \<and> st_of (w_stages w' i) = SupplementingNextStage \<and>
    m_supplemented (w_stages w' i) = m_supplemented si \<and> m_prevStage (w_stages w' i) = m_prevStage si \<and>
    idle (w_stages w' j) \<and> st_of (w_stages w' j) = fst r \<and> m_supplemented (w_stages w' j) \<and>
    m_prevStage (w_stages w' j) = Some i \<and> m_startTime (w_stages w' j) = currentInterval a \<and>
    (\<forall>k. k \<noteq> i \<and> k \<noteq> j \<longrightarrow> w_stages w' k = w_stages w k)"
proof -
  note exec = ready_def call_simps gen_idle [of n w i] drain_eq [of _ _ i] check_on_def check_off_def
    si_def sj_def r_def supplement_call [unfolded idle_def] enterSupplementing_def notifyAsActiveStage_def put_st_swap
  from st show ?thesis
  proof (elim disjE conjE)
    assume "st_of si = OnTime" "a = snd (check_on si (w_args w))"
    with n j show ?thesis
      by (cases "mode (cycleInfo (w_args w)) = eON_CYCLE"; cases "time_up (m_startTime si) (on_of si (w_args w))
             (currentInterval (w_args w)) (abortOnOffCycle (whiteBox (w_args w)))")
        (simp_all add: exec del: bindR_eq_Inr split del: if_split cong: bindR_weak_cong)
  next
    assume "st_of si = OffTime" "a = snd (check_off si (w_args w))"
    with n j show ?thesis
      by (cases "mode (cycleInfo (w_args w)) = eOFF_CYCLE"; cases "time_up (m_startTime si) (off_of si (w_args w))
             (currentInterval (w_args w)) (abortOnOffCycle (whiteBox (w_args w)))")
        (simp_all add: exec del: bindR_eq_Inr split del: if_split cong: bindR_weak_cong)
  qed
qed

lemma less_capacity_call:
  fixes n i w
  defines "r \<equiv> enter (m_startInOffCycle (w_stages w i)) (w_stages w i) (w_args w)"
    and "s \<equiv> after n i Fsm_evLessCapacityNeeded w"
  assumes "12 \<le> n" "ready i w" "st_of (w_stages w i) = SupplementingNextStage"
  shows "generateEvent n i Fsm_evLessCapacityNeeded w = Inr (put_args (snd r) (put_st i s w))"
    "st_of s = fst r" "idle s" "m_startTime s = currentInterval (w_args w)"
    "m_supplemented s = m_supplemented (w_stages w i)" "m_prevStage s = m_prevStage (w_stages w i)"
  using settles_after(1) [OF event_LessCapacityNeeded [OF assms(3-) prod.collapse [symmetric]]]
    after_fields [OF event_LessCapacityNeeded [OF assms(3-) prod.collapse [symmetric]]] assms(3-)
  by (auto simp: r_def s_def ready_def)

lemma event_Unsupplement:
  fixes i j w a
  defines "si \<equiv> w_stages w i" and "sj \<equiv> w_stages w j"
  defines "r \<equiv> enter (\<not> m_requestOffStartInOnCycle sj) si a"
  assumes n: "24 \<le> n" "i \<noteq> j" "ready j w" "m_prevStage sj = Some i" "m_supplemented sj"
    and st: "st_of sj = OnTime \<and> a = snd (check_on sj (w_args w)) \<or> st_of sj = OffTime \<and> a = snd (check_off sj (w_args w))"
    and i: "idle si" "st_of si = SupplementingNextStage" "duty_of si (w_args w)" "out_of si (w_args w)"
  shows "\<exists>w'. generateEvent n j Fsm_evExcessCapacity w = Inr w' \<and>
    w_args w' = shutdown sj (snd r) \<and> w_argsId w' = w_argsId w \<and>
    idle (w_stages w' j) \<and> st_of (w_stages w' j) = Off \<and> \<not> m_supplemented (w_stages w' j) \<and>
    idle (w_stages w' i) \<and> st_of (w_stages w' i) = fst r \<and>
    m_supplemented (w_stages w' i) = m_supplemented si \<and> m_prevStage (w_stages w' i) = m_prevStage si \<and>
    m_startTime (w_stages w' i) = currentInterval a \<and>
    (\<forall>k. k \<noteq> i \<and> k \<noteq> j \<longrightarrow> w_stages w' k = w_stages w k)"
proof -
  note exec = ready_def call_simps gen_idle [of n w j] drain_eq [of _ _ j] check_on_def check_off_def
    si_def sj_def r_def less_capacity_call [unfolded idle_def] notifyLowerStage_def
    notifyAsExitingSupplmenting_def initializeBackTransition_def checkBackTransition_def shutdownStage_eq put_st_swap
  from st show ?thesis
  proof (elim disjE conjE)
    assume "st_of sj = OnTime" "a = snd (check_on sj (w_args w))"
    with n i show ?thesis
      by (cases "mode (cycleInfo (w_args w)) = eON_CYCLE"; cases "time_up (m_startTime sj) (on_of sj (w_args w))
             (currentInterval (w_args w)) (abortOnOffCycle (whiteBox (w_args w)))")
        (simp_all add: exec del: bindR_eq_Inr split del: if_split cong: bindR_weak_cong)
  next
    assume "st_of sj = OffTime" "a = snd (check_off sj (w_args w))"
    with n i show ?thesis
      by (cases "mode (cycleInfo (w_args w)) = eOFF_CYCLE"; cases "time_up (m_startTime sj) (off_of sj (w_args w))
             (currentInterval (w_args w)) (abortOnOffCycle (whiteBox (w_args w)))")
        (simp_all add: exec del: bindR_eq_Inr split del: if_split cong: bindR_weak_cong)
  qed
qed

end
