(* ===== verification/Stage_Api.thy ===== *)
theory Stage_Api
  imports Stage_Run
begin

text \<open>
  The operations of the StageApi interface (src/src/Storm/Component/Equipment/StageApi.h) on a stage
  at rest, as the equipment classes call them: the periodic \<open>execute\<close>, switching on and off, and the
  hand-over between two stages. Each is described by what the settled store is; the properties at
  the end state the duty cycle, its minimum times and the staging handshake.
\<close>

lemma event_Off_OffModeRequest:
  assumes "12 \<le> n" "idle (w_stages w i)" "st_of (w_stages w i) = Off"
  shows "\<exists>w'. generateEvent n i Fsm_evOffModeRequest w = Inr w' \<and>
    settles i (w_stages w i) Off (m_startTime (w_stages w i)) (w_args w) w w'"
  using assms by (simp add: exec_simps del: bindR_eq_Inr split del: if_split cong: bindR_weak_cong)

subsection \<open>The operations of a stage\<close>

text \<open>
  The specification of one periodic call: a stage that is in its on or off time checks whether the
  time is up and switches to the other half of the duty cycle when it is; a stage that is off or
  supplementing does nothing.
\<close>

definition cycle_spec :: "stage \<Rightarrow> Args_T \<Rightarrow> States \<times> Precision_T \<times> Args_T" where
  "cycle_spec s a =
     (if st_of s = OnTime then
        let (up, b) = check_on s a
        in if up then (OffTime, currentInterval a, begin_off s b) else (OnTime, m_startTime s, b)
      else if st_of s = OffTime then
        let (up, b) = check_off s a
        in if up then (OnTime, currentInterval a, begin_on s b) else (OffTime, m_startTime s, b)
      else (st_of s, m_startTime s, a))"

definition at_rest :: "nat \<Rightarrow> world \<Rightarrow> bool" where
  "at_rest i w \<longleftrightarrow> idle (w_stages w i) \<and> st_of (w_stages w i) \<in> {Off, OnTime, OffTime, SupplementingNextStage}"

definition usable :: "nat \<Rightarrow> world \<Rightarrow> bool" where
  "usable i w \<longleftrightarrow> duty_of (w_stages w i) (w_args w) \<and> out_of (w_stages w i) (w_args w)"

lemma settles_put_base: "settles i s st start a (put_st i t w) w' \<longleftrightarrow> settles i s st start a w w'"
  by (simp add: settles_def)

lemma settles_facts:
  assumes "settles i s st start a w w'"
  shows "st_of (w_stages w' i) = st" "m_startTime (w_stages w' i) = start" "w_args w' = a"
    "w_argsId w' = w_argsId w" "idle s \<Longrightarrow> idle (w_stages w' i)" "j \<noteq> i \<Longrightarrow> w_stages w' j = w_stages w j"
    "m_supplemented (w_stages w' i) = m_supplemented s" "m_prevStage (w_stages w' i) = m_prevStage s"
    "m_args (w_stages w' i) = m_args s" "m_systemIndex (w_stages w' i) = m_systemIndex s"
    "m_outIndex (w_stages w' i) = m_outIndex s" "s_kind (w_stages w' i) = s_kind s"
  using assms by (auto simp: settles_def idle_def)

lemma duty_times_lower:
  assumes "duty_ok idx pv cfg"
  defines "c \<equiv> stages cfg ! idx"
  shows "150 \<le> on_time idx pv cfg" "150 \<le> off_time idx pv cfg"
    "\<exists>l. maxMinimumTimeLimits (cph c) = Inr l \<and> min l (minOnTime c) \<le> on_time idx pv cfg"
    "\<exists>l. maxMinimumTimeLimits (cph c) = Inr l \<and> min l (minOffTime c) \<le> off_time idx pv cfg"
proof -
  have le: "lowerBound c \<le> upperBound c" using assms by (simp add: duty_ok_def)
  from duty_ok_results [OF assms(1)]
  have on: "calculateOnTime pv (minOnTime c) (cph c) (lowerBound c) (upperBound c) = Inr (on_time idx pv cfg)"
    and off: "calculateOffTime pv (minOffTime c) (cph c) (lowerBound c) (upperBound c) = Inr (off_time idx pv cfg)"
    by (simp_all add: on_result_def off_result_def c_def Let_def)
  from on obtain n where n: "normalizePv pv (lowerBound c) (upperBound c) = Inr n"
      "cycle_time (fl32 (1 - n)) (minOnTime c) (cph c) = Inr (on_time idx pv cfg)"
    by (rule on_time_cases)
  from off n(1) have m: "cycle_time n (minOffTime c) (cph c) = Inr (off_time idx pv cfg)"
    by (auto elim: off_time_cases)
  have b: "0 \<le> n" "n \<le> 1" using normalizePv_mono [OF n(1) n(1) order_refl le] by simp_all
  show "150 \<le> on_time idx pv cfg"
    "\<exists>l. maxMinimumTimeLimits (cph c) = Inr l \<and> min l (minOnTime c) \<le> on_time idx pv cfg"
    using cycle_time_lower [OF n(2)] share_bounds [OF b] by simp_all
  show "150 \<le> off_time idx pv cfg"
    "\<exists>l. maxMinimumTimeLimits (cph c) = Inr l \<and> min l (minOffTime c) \<le> off_time idx pv cfg"
    using cycle_time_lower [OF m b] by simp_all
qed

lemma check_interval [simp]:
  "currentInterval (snd (check_on s a)) = currentInterval a"
  "currentInterval (snd (check_off s a)) = currentInterval a"
  by (simp_all add: check_on_def check_off_def)

lemma check_args [simp]:
  "check_on (s\<lparr>m_args := p\<rparr>) a = check_on s a" "check_off (s\<lparr>m_args := p\<rparr>) a = check_off s a"
  "begin_on (s\<lparr>m_args := p\<rparr>) a = begin_on s a" "begin_off (s\<lparr>m_args := p\<rparr>) a = begin_off s a"
  by (simp_all add: check_on_def check_off_def begin_on_def begin_off_def)

lemma quiet_event_spec:
  assumes "12 \<le> n" "ready i w" "st_of (w_stages w i) \<in> {OnTime, OffTime}"
    "msg = FSM_NO_MSG \<or> msg = Fsm_evOnRequest" "cycle_spec (w_stages w i) (w_args w) = (st, start, a)"
  shows "\<exists>w'. generateEvent n i msg w = Inr w' \<and> settles i (w_stages w i) st start a w w'"
proof -
  let ?s = "w_stages w i"
  obtain up b where on: "check_on ?s (w_args w) = (up, b)" by (cases "check_on ?s (w_args w)")
  obtain up' b' where off: "check_off ?s (w_args w) = (up', b')" by (cases "check_off ?s (w_args w)")
  have b: "currentInterval b = currentInterval (w_args w)" "currentInterval b' = currentInterval (w_args w)"
    using check_interval [of ?s "w_args w"] on off by simp_all
  from assms(3) consider "st_of ?s = OnTime" up | "st_of ?s = OnTime" "\<not> up"
    | "st_of ?s = OffTime" up' | "st_of ?s = OffTime" "\<not> up'" by auto
  then show ?thesis
  proof cases
    case 1 then show ?thesis using event_OnTime_up [OF assms(1,2) 1(1) _ assms(4)] on assms(5) b
      by (simp add: cycle_spec_def)
  next
    case 2 then show ?thesis using event_OnTime_not_up [OF assms(1,2) 2(1) _ assms(4)] on assms(5)
      by (simp add: cycle_spec_def)
  next
    case 3 then show ?thesis using event_OffTime_up [OF assms(1,2) 3(1) _ assms(4)] off assms(5) b
      by (simp add: cycle_spec_def)
  next
    case 4 then show ?thesis using event_OffTime_not_up [OF assms(1,2) 4(1) _ assms(4)] off assms(5)
      by (simp add: cycle_spec_def)
  qed
qed

abbreviation attach :: "world \<Rightarrow> stage \<Rightarrow> stage" where
  "attach w s \<equiv> s\<lparr>m_args := Some (w_argsId w)\<rparr>"

lemma cycle_spec_attach [simp]: "cycle_spec (s\<lparr>m_args := p\<rparr>) a = cycle_spec s a"
  by (simp add: cycle_spec_def split: prod.split)

lemma execute_settles:
  assumes "at_rest i w" "usable i w" "cycle_spec (w_stages w i) (w_args w) = (st, start, a)"
  shows "\<exists>w'. execute i w = Inr w' \<and> settles i (attach w (w_stages w i)) st start a w w'"
proof (cases "st_of (w_stages w i) \<in> {OnTime, OffTime}")
  case True
  let ?w = "put_st i (attach w (w_stages w i)) w"
  have "ready i ?w"
    using assms by (simp add: ready_def usable_def at_rest_def idle_def live_def)
  from quiet_event_spec [OF _ this, of 40 FSM_NO_MSG] True assms(3) show ?thesis
    by (simp add: execute_def stage_fuel_def settles_put_base)
next
  case False
  let ?w = "put_st i (attach w (w_stages w i)) w"
  from False assms(1,3) event_ignored [of 40 ?w i st FSM_NO_MSG] show ?thesis
    by (auto simp: execute_def stage_fuel_def settles_put_base at_rest_def idle_def cycle_spec_def)
qed

lemma left_rest_state:
  assumes "at_rest i w" "usable i w" "execute i w = Inr w'"
    and "st_of (w_stages w i) \<in> {OnTime, OffTime}" "st_of (w_stages w' i) \<noteq> st_of (w_stages w i)"
  shows "time_up (m_startTime (w_stages w i))
      (if st_of (w_stages w i) = OnTime then on_of (w_stages w i) (w_args w) else off_of (w_stages w i) (w_args w))
      (currentInterval (w_args w)) (abortOnOffCycle (whiteBox (w_args w)))"
proof -
  obtain st start a where spec: "cycle_spec (w_stages w i) (w_args w) = (st, start, a)"
    by (cases "cycle_spec (w_stages w i) (w_args w)")
  from execute_settles [OF assms(1,2) spec] assms(3) have "st_of (w_stages w' i) = st"
    by (auto dest: settles_facts(1))
  with spec assms(4,5) show ?thesis
    by (auto simp: cycle_spec_def check_on_def check_off_def split: if_splits)
qed

lemma requestOn_settles:
  assumes "at_rest i w" "usable i w" "st_of (w_stages w i) = Off"
    "enter (\<not> startInOnCycle) (w_stages w i) (activate (w_stages w i) (w_args w)) = (st, a)"
  shows "\<exists>w'. requestOn i startInOnCycle w = Inr w' \<and>
    settles i ((attach w (w_stages w i))\<lparr>m_startInOffCycle := \<not> startInOnCycle, m_supplemented := False\<rparr>)
      st (currentInterval (w_args w)) a w w'"
proof -
  let ?s = "(attach w (w_stages w i))\<lparr>m_startInOffCycle := \<not> startInOnCycle, m_supplemented := False\<rparr>"
  let ?w = "put_st i ?s w"
  have "ready i ?w"
    using assms by (simp add: ready_def usable_def at_rest_def idle_def live_def)
  moreover have "activate ?s = activate (w_stages w i)" by (simp add: activate_def fun_eq_iff)
  ultimately show ?thesis
    using event_Off_OnRequest [of 40 i ?w st a] assms
    by (simp add: requestOn_def stage_fuel_def settles_put_base)
qed

lemma requestOff_settles:
  assumes "at_rest i w" "usable i w" "\<not> m_supplemented (w_stages w i)"
    "st_of (w_stages w i) = OnTime \<and> check_on (w_stages w i) (w_args w) = (up, a) \<or>
     st_of (w_stages w i) = OffTime \<and> check_off (w_stages w i) (w_args w) = (up, a)"
  shows "\<exists>w'. requestOff i b w = Inr w' \<and>
    settles i ((attach w (w_stages w i))\<lparr>m_requestOffStartInOnCycle := b\<rparr>) Off
      (m_startTime (w_stages w i)) (shutdown (w_stages w i) a) w w'"
proof -
  let ?s = "(attach w (w_stages w i))\<lparr>m_requestOffStartInOnCycle := b\<rparr>"
  let ?w = "put_st i ?s w"
  have r: "ready i ?w"
    using assms by (simp add: ready_def usable_def at_rest_def idle_def live_def)
  have s: "shutdown ?s = shutdown (w_stages w i)" "check_on ?s = check_on (w_stages w i)"
      "check_off ?s = check_off (w_stages w i)"
    by (simp_all add: shutdown_def check_on_def check_off_def fun_eq_iff)
  from assms(4) show ?thesis
    using event_OnTime_Excess [of 40 i ?w up a] event_OffTime_Excess [of 40 i ?w up a] r assms(3) s
    by (auto simp: requestOff_def stage_fuel_def settles_put_base)
qed


lemma requestAsSupplement_settles:
  fixes i j w b
  defines "si \<equiv> w_stages w i" and "sj \<equiv> w_stages w j"
  defines "a \<equiv> snd ((if st_of si = OnTime then check_on else check_off) si (w_args w))"
  defines "r \<equiv> enter (\<not> b) sj a"
  assumes "i \<noteq> j" "at_rest i w" "usable i w" "st_of si \<in> {OnTime, OffTime}"
    and "at_rest j w" "usable j w" "st_of sj = Off"
  shows "\<exists>w'. requestAsSupplement i j b w = Inr w' \<and>
    w_args w' = on_out si (snd r) \<and> w_argsId w' = w_argsId w \<and>
    idle (w_stages w' i) \<and> st_of (w_stages w' i) = SupplementingNextStage \<and>
    m_supplemented (w_stages w' i) = m_supplemented si \<and> m_prevStage (w_stages w' i) = m_prevStage si \<and>
    idle (w_stages w' j) \<and> st_of (w_stages w' j) = fst r \<and> m_supplemented (w_stages w' j) \<and>
    m_prevStage (w_stages w' j) = Some i \<and> m_startTime (w_stages w' j) = currentInterval (w_args w) \<and>
    (\<forall>k. k \<noteq> i \<and> k \<noteq> j \<longrightarrow> w_stages w' k = w_stages w k)"
proof -
  let ?s = "si\<lparr>m_args := Some (w_argsId w), m_requestSupplementStartInOnCycle := b, m_nextStage := Some j\<rparr>"
  let ?w = "put_st i ?s w"
  have r: "ready i ?w" "idle sj" "duty_of sj (w_args w)" "out_of sj (w_args w)"
    using assms by (simp_all add: ready_def usable_def at_rest_def idle_def live_def si_def)
  have c: "check_on ?s = check_on si" "check_off ?s = check_off si"
    by (simp_all add: check_on_def check_off_def fun_eq_iff)
  have "currentInterval a = currentInterval (w_args w)" by (simp add: a_def)
  then show ?thesis
    using event_Supplement [of 40 i j ?w a] r c assms(5-)
    by (auto simp: requestAsSupplement_def stage_fuel_def r_def a_def si_def sj_def)
qed

lemma requestOff_supplemented:
  fixes i j w b
  defines "si \<equiv> w_stages w i" and "sj \<equiv> w_stages w j"
  defines "a \<equiv> snd ((if st_of sj = OnTime then check_on else check_off) sj (w_args w))"
  defines "r \<equiv> enter (\<not> b) si a"
  assumes "i \<noteq> j" "at_rest j w" "usable j w" "st_of sj \<in> {OnTime, OffTime}" "m_supplemented sj"
    "m_prevStage sj = Some i"
    and "at_rest i w" "usable i w" "st_of si = SupplementingNextStage"
  shows "\<exists>w'. requestOff j b w = Inr w' \<and>
    w_args w' = shutdown sj (snd r) \<and> w_argsId w' = w_argsId w \<and>
    idle (w_stages w' j) \<and> st_of (w_stages w' j) = Off \<and> \<not> m_supplemented (w_stages w' j) \<and>
    idle (w_stages w' i) \<and> st_of (w_stages w' i) = fst r \<and>
    m_supplemented (w_stages w' i) = m_supplemented si \<and> m_prevStage (w_stages w' i) = m_prevStage si \<and>
    m_startTime (w_stages w' i) = currentInterval (w_args w) \<and>
    (\<forall>k. k \<noteq> i \<and> k \<noteq> j \<longrightarrow> w_stages w' k = w_stages w k)"
proof -
  let ?s = "sj\<lparr>m_args := Some (w_argsId w), m_requestOffStartInOnCycle := b\<rparr>"
  let ?w = "put_st j ?s w"
  have r: "ready j ?w" "idle si" "duty_of si (w_args w)" "out_of si (w_args w)"
    using assms by (simp_all add: ready_def usable_def at_rest_def idle_def live_def sj_def)
  have c: "check_on ?s = check_on sj" "check_off ?s = check_off sj" "shutdown ?s = shutdown sj"
    by (simp_all add: check_on_def check_off_def shutdown_def fun_eq_iff)
  have "currentInterval a = currentInterval (w_args w)" by (simp add: a_def)
  then show ?thesis
    using event_Unsupplement [of 40 i j ?w a] r c assms(5-)
    by (auto simp: requestOff_def stage_fuel_def r_def a_def si_def sj_def)
qed

subsection \<open>A stage for the witnesses\<close>

text \<open>A single stage system at half load, ten minutes into an on cycle of ten minutes.\<close>

definition sample_config :: SystemConfig_T where
  "sample_config =
     \<lparr>stages = replicate 4 \<lparr>lowerBound = 0, upperBound = 100, minIndoorFan = 0, maxIndoorFan = 1000,
        minOnTime = 300, minOffTime = 300, cph = 1\<rparr>,
      currentOpMode = eCOOLING, outdoorUnitType = eAC, indoorUnitType = eFURNACE, numCompressorStages = 1,
      numIndoorStages = 3, totalStages = 4, fanContinuousSpeed = 0, gain = 15, reset_time = 300000,
      maxPvOut = 100\<rparr>"

definition sample_args :: "CycleStatus \<Rightarrow> Args_T" where
  "sample_args m =
     \<lparr>pvOut = 50, systemConfig = sample_config, currentTick = Precision_T 1600 0,
      currentInterval = Precision_T 1600 0,
      equipmentBeginTimes = \<lparr>outdoorUnitBeginOnTime = Precision_T 0 0, outdoorUnitBeginOffTime = Precision_T 0 0,
        indoorUnitBeginOnTime = Precision_T 0 0, indoorUnitBeginOffTime = Precision_T 0 0,
        systemBeginOnTime = Precision_T 0 0, systemBeginOffTime = Precision_T 0 0\<rparr>,
      whiteBox = \<lparr>defeatEquipMinOffTime = False, abortOnOffCycle = False\<rparr>,
      vOutputs = \<lparr>indoorFan = 1000, indoorFanCont = 0, indoorStages = [0, 0, 0], outdoorFan = 0,
        outdoorStages = [1000], sovInHeating = False\<rparr>,
      cycleInfo = \<lparr>beginOnTime = Precision_T 1000 0, beginOffTime = Precision_T 0 0, onTime = 600,
        offTime = 600, mode = m\<rparr>,
      systemOn = (m \<noteq> eOFF_STATUS)\<rparr>"

definition sample_stage :: "stage_kind \<Rightarrow> nat \<Rightarrow> States \<Rightarrow> States \<Rightarrow> stage" where
  "sample_stage k idx st0 cyc = (Basic k idx idx)\<lparr>m_startTime := Precision_T 1000 0, m_initialized := True,
     stateVars := \<lparr>stateVar = st0, stateVarActive = Cycling, stateVarCycling = cyc,
                   stateVarOnCycle = OnTime, stateVarOffCycle = OffTime\<rparr>\<rparr>"

definition sample_world :: "CycleStatus \<Rightarrow> (nat \<Rightarrow> stage) \<Rightarrow> world" where
  "sample_world m f = \<lparr>w_args = sample_args m, w_argsId = 7, w_stages = f\<rparr>"

lemma sample_duty:
  "idx < 4 \<Longrightarrow> duty_ok idx 50 sample_config" "idx < 4 \<Longrightarrow> on_time idx 50 sample_config = 600"
  "idx < 4 \<Longrightarrow> off_time idx 50 sample_config = 600"
proof -
  have "calculateOffTime 50 300 1 0 100 = Inr 600" "calculateOnTime 50 300 1 0 100 = Inr 600"
    by (simp_all add: duty_cycle_eval load_25_75 not_zero_share fl32_half)
  then show "idx < 4 \<Longrightarrow> duty_ok idx 50 sample_config" "idx < 4 \<Longrightarrow> on_time idx 50 sample_config = 600"
    "idx < 4 \<Longrightarrow> off_time idx 50 sample_config = 600"
    by (simp_all add: duty_ok_def on_time_def off_time_def on_result_def off_result_def sample_config_def
        Let_def)
qed

lemma sample_queue: "queue_ok FsmEventQueue" "ring_items FsmEventQueue = []"
  by (simp_all add: queue_ok_def FsmEventQueue_def RingBuffer_def ring_ok_def ring_capacity_def ring_items_def
      ring_count_def)

lemmas sample_defs = sample_world_def sample_stage_def sample_args_def Basic_def

lemma sample_idle: "idle (sample_stage k idx st0 cyc)"
  by (simp add: idle_def sample_defs sample_queue)


subsection \<open>Properties\<close>

text \<open>
  C6. One periodic call of \<open>execute\<close> on a stage at rest, with its duty cycle defined, always returns:
  no assertion fails, the event queue does not overflow and every event is processed within the
  fuel. The run refines the duty cycle specification: the stage ends in the state, with the start
  time and with the outputs and cycle information that \<open>cycle_spec\<close> gives, its queue is empty again
  and no other stage changes.
\<close>

theorem stage_execute_refines_cycle:
  assumes "at_rest i w" "usable i w"
  shows "\<exists>w'. execute i w = Inr w' \<and>
    (case cycle_spec (w_stages w i) (w_args w) of (st, start, a) \<Rightarrow>
       settles i ((w_stages w i)\<lparr>m_args := Some (w_argsId w)\<rparr>) st start a w w')"
  using execute_settles [OF assms] by (cases "cycle_spec (w_stages w i) (w_args w)") auto

theorem stage_execute_refines_cycle_witness:
  "\<exists>w'. execute 0 (sample_world eON_CYCLE (\<lambda>_. sample_stage BasicCooling 0 Active OnCycle)) = Inr w' \<and>
     st_of (w_stages w' 0) = OffTime \<and> outdoorStages (vOutputs (w_args w')) = [0]"
proof -
  let ?w = "sample_world eON_CYCLE (\<lambda>_. sample_stage BasicCooling 0 Active OnCycle)"
  have rest: "at_rest 0 ?w" "usable 0 ?w"
    using sample_idle [of BasicCooling 0 Active OnCycle]
    by (simp_all add: at_rest_def usable_def sample_world_def)
      (simp_all add: sample_defs innermost_iff sample_duty out_ok_def)
  have spec: "cycle_spec (w_stages ?w 0) (w_args ?w) =
      (OffTime, Precision_T 1600 0, begin_off (w_stages ?w 0) (clear_abort (set_onTime 600 (w_args ?w))))"
    by (simp add: cycle_spec_def check_on_def sample_defs innermost_iff sample_duty time_up_def
        expiredPrecision_def deltaPrecision_def)
  have out: "outdoorStages (vOutputs (begin_off (w_stages ?w 0) (clear_abort (set_onTime 600 (w_args ?w))))) = [0]"
    by (simp add: begin_off_def stage_out_def Let_def sample_defs)
  from stage_execute_refines_cycle [OF rest] spec obtain w' where "execute 0 ?w = Inr w'"
    and "settles 0 ((w_stages ?w 0)\<lparr>m_args := Some (w_argsId ?w)\<rparr>) OffTime (Precision_T 1600 0)
      (begin_off (w_stages ?w 0) (clear_abort (set_onTime 600 (w_args ?w)))) ?w w'"
    by auto
  then show ?thesis using settles_facts(1,3) out by metis
qed

text \<open>
  C5. Short cycle protection of the periodic call. A call of \<open>execute\<close> on a stage at rest, with a load for which the
  conversions of the duty cycle are defined, does not take the stage out of its on or off time early: when it does take it
  out, and the test flag that aborts a cycle was not set, the time since its start is at least the configured minimum,
  capped by the limit for the cycle rate, and at least 150 seconds. The requests that switch a stage off or hand
  it over to another stage are not calls of \<open>execute\<close> and do not wait.
\<close>

theorem stage_minimum_cycle_times:
  assumes "at_rest i w" "usable i w" "execute i w = Inr w'"
    and "st_of (w_stages w i) \<in> {OnTime, OffTime}" "st_of (w_stages w' i) \<noteq> st_of (w_stages w i)"
    and "\<not> abortOnOffCycle (whiteBox (w_args w))"
    and "well_formed (m_startTime (w_stages w i))" "well_formed (currentInterval (w_args w))"
  defines "elapsed \<equiv> (prec_ms (currentInterval (w_args w)) - prec_ms (m_startTime (w_stages w i))) mod 4294967296000"
    and "cfg \<equiv> stages (systemConfig (w_args w)) ! m_systemIndex (w_stages w i)"
  shows "150000 \<le> elapsed \<and>
    (\<exists>limit. maxMinimumTimeLimits (cph cfg) = Inr limit \<and>
       1000 * uint (min limit (if st_of (w_stages w i) = OnTime then minOnTime cfg else minOffTime cfg)) \<le> elapsed)"
proof -
  let ?s = "w_stages w i" and ?a = "w_args w"
  let ?t = "if st_of ?s = OnTime then on_of ?s ?a else off_of ?s ?a"
  have duty: "duty_of ?s ?a" using assms(2) by (simp add: usable_def)
  have "time_up (m_startTime ?s) ?t (currentInterval ?a) False"
    using left_rest_state [OF assms(1-5)] assms(6) by simp
  then have "1000 * uint ?t \<le> elapsed"
    using assms(7,8) expiredPrecision_ms [of "m_startTime ?s" "Precision_T ?t 0" "currentInterval ?a"]
    by (simp add: time_up_def elapsed_def prec_ms_def well_formed_def mult.commute)
  moreover have "150 \<le> ?t" "\<exists>l. maxMinimumTimeLimits (cph cfg) = Inr l \<and>
      min l (if st_of ?s = OnTime then minOnTime cfg else minOffTime cfg) \<le> ?t"
    using duty_times_lower [OF duty] by (auto simp: cfg_def)
  ultimately show ?thesis by (auto simp: word_le_def)
qed


text \<open>A stage of 3 cycles per hour that leaves its on time after 600 seconds.\<close>

theorem stage_minimum_cycle_times_witness:
  "\<exists>w' limit. execute 0 (sample_world eON_CYCLE (\<lambda>_. sample_stage BasicCooling 0 Active OnCycle)) = Inr w' \<and>
     st_of (w_stages w' 0) = OffTime \<and> 150000 \<le> (600000 :: int) \<and>
     maxMinimumTimeLimits 1 = Inr limit \<and> 1000 * uint (min limit 300) \<le> 600000"
proof -
  let ?w = "sample_world eON_CYCLE (\<lambda>_. sample_stage BasicCooling 0 Active OnCycle)"
  have rest: "at_rest 0 ?w" "usable 0 ?w" and st: "st_of (w_stages ?w 0) = OnTime"
    using sample_idle [of BasicCooling 0 Active OnCycle]
    by (simp_all add: at_rest_def usable_def sample_world_def)
      (simp_all add: sample_defs innermost_iff sample_duty out_ok_def)
  have spec: "cycle_spec (w_stages ?w 0) (w_args ?w) =
      (OffTime, Precision_T 1600 0, begin_off (w_stages ?w 0) (clear_abort (set_onTime 600 (w_args ?w))))"
    by (simp add: cycle_spec_def check_on_def sample_defs innermost_iff sample_duty time_up_def
        expiredPrecision_def deltaPrecision_def)
  from execute_settles [OF rest spec] obtain w' where w': "execute 0 ?w = Inr w'" "st_of (w_stages w' 0) = OffTime"
    using settles_facts(1) by metis
  have "150000 \<le> (600000 :: int) \<and> (\<exists>limit. maxMinimumTimeLimits 1 = Inr limit \<and> 1000 * uint (min limit 300) \<le> 600000)"
    using stage_minimum_cycle_times [OF rest w'(1)] st w'(2)
    by (simp add: sample_defs sample_config_def well_formed_def prec_ms_def)
  then show ?thesis
    using w' by blast
qed

text \<open>
  Switching a stage on: \<open>requestOn\<close> of a stage that is off activates the system and enters the
  requested half of the duty cycle at the current interval; with the test abort flag set it passes
  through that half at once. The call always returns and leaves the stage at rest.
\<close>

lemma stage_requestOn_enters_cycle:
  assumes "at_rest i w" "usable i w" "st_of (w_stages w i) = Off"
  shows "\<exists>w'. requestOn i startInOnCycle w = Inr w' \<and> at_rest i w' \<and>
    (st_of (w_stages w' i), w_args w') =
       enter (\<not> startInOnCycle) (w_stages w i) (activate (w_stages w i) (w_args w)) \<and>
    m_startTime (w_stages w' i) = currentInterval (w_args w) \<and> (\<forall>j. j \<noteq> i \<longrightarrow> w_stages w' j = w_stages w j)"
proof -
  obtain st a where e: "enter (\<not> startInOnCycle) (w_stages w i) (activate (w_stages w i) (w_args w)) = (st, a)"
    by (cases "enter (\<not> startInOnCycle) (w_stages w i) (activate (w_stages w i) (w_args w))")
  have "st \<in> {OnTime, OffTime}" using e by (auto simp: enter_def split: if_splits)
  moreover obtain w' where w': "requestOn i startInOnCycle w = Inr w'" and s: "settles i
      ((attach w (w_stages w i))\<lparr>m_startInOffCycle := \<not> startInOnCycle, m_supplemented := False\<rparr>)
      st (currentInterval (w_args w)) a w w'"
    using requestOn_settles [OF assms e] by blast
  moreover have "idle ((attach w (w_stages w i))\<lparr>m_startInOffCycle := \<not> startInOnCycle, m_supplemented := False\<rparr>)"
    using assms(1) by (simp add: at_rest_def idle_def)
  ultimately show ?thesis using settles_facts [OF s] e by (auto simp: at_rest_def)
qed

lemma stage_requestOn_enters_cycle_witness:
  "\<exists>w'. requestOn 0 True (sample_world eOFF_STATUS (\<lambda>_. sample_stage BasicCooling 0 Off OnCycle)) = Inr w' \<and>
     st_of (w_stages w' 0) = OnTime \<and> systemOn (w_args w')"
proof -
  let ?w = "sample_world eOFF_STATUS (\<lambda>_. sample_stage BasicCooling 0 Off OnCycle)"
  have rest: "at_rest 0 ?w" "usable 0 ?w" "st_of (w_stages ?w 0) = Off"
    using sample_idle [of BasicCooling 0 Off OnCycle]
    by (simp_all add: at_rest_def usable_def sample_world_def)
      (simp_all add: sample_defs innermost_iff sample_duty out_ok_def)
  have e: "fst (enter False (w_stages ?w 0) (activate (w_stages ?w 0) (w_args ?w))) = OnTime"
    "systemOn (snd (enter False (w_stages ?w 0) (activate (w_stages ?w 0) (w_args ?w))))"
    by (simp_all add: enter_def activate_def begin_on_def Let_def sample_defs)
  from stage_requestOn_enters_cycle [OF rest, of True] obtain w' where "requestOn 0 True ?w = Inr w'"
    "(st_of (w_stages w' 0), w_args w') = enter False (w_stages ?w 0) (activate (w_stages ?w 0) (w_args ?w))"
    by auto
  with e show ?thesis by (metis fst_conv snd_conv)
qed

text \<open>
  C14. Staging up: when a cycling stage is asked to supplement the next stage, it ends with its
  output on and stays on for as long as it supplements, the next stage enters its duty cycle at the
  current interval with a link back to the lower stage, and no other stage changes.
\<close>

theorem stage_supplement_handshake:
  assumes "i \<noteq> j" "at_rest i w" "usable i w" "st_of (w_stages w i) \<in> {OnTime, OffTime}"
    and "at_rest j w" "usable j w" "st_of (w_stages w j) = Off"
  shows "\<exists>w'. requestAsSupplement i j startNextStageInOnCycle w = Inr w' \<and>
    at_rest i w' \<and> st_of (w_stages w' i) = SupplementingNextStage \<and>
    at_rest j w' \<and> st_of (w_stages w' j) \<in> {OnTime, OffTime} \<and> m_supplemented (w_stages w' j) \<and>
    m_prevStage (w_stages w' j) = Some i \<and> m_startTime (w_stages w' j) = currentInterval (w_args w) \<and>
    (case s_kind (w_stages w i) of
       BasicCooling \<Rightarrow> outdoorStages (vOutputs (w_args w')) ! m_outIndex (w_stages w i) = VIRTUAL_OUTPUTS_ON
     | BasicIndoorHeat _ \<Rightarrow> indoorStages (vOutputs (w_args w')) ! m_outIndex (w_stages w i) = VIRTUAL_OUTPUTS_ON) \<and>
    (\<forall>k. k \<noteq> i \<and> k \<noteq> j \<longrightarrow> w_stages w' k = w_stages w k)"
proof -
  let ?si = "w_stages w i" and ?sj = "w_stages w j"
  let ?a = "snd ((if st_of ?si = OnTime then check_on else check_off) ?si (w_args w))"
  let ?r = "enter (\<not> startNextStageInOnCycle) ?sj ?a"
  have cyc: "fst ?r \<in> {OnTime, OffTime}" by (auto simp: enter_def)
  have vo: "vOutputs ?a = vOutputs (w_args w)" by (simp add: check_on_def check_off_def)
  have "out_of ?si (snd ?r)" using assms(3) vo by (simp add: usable_def)
  then have on: "case s_kind ?si of
       BasicCooling \<Rightarrow> outdoorStages (vOutputs (on_out ?si (snd ?r))) ! m_outIndex ?si = VIRTUAL_OUTPUTS_ON
     | BasicIndoorHeat _ \<Rightarrow> indoorStages (vOutputs (on_out ?si (snd ?r))) ! m_outIndex ?si = VIRTUAL_OUTPUTS_ON"
    by (auto simp: out_ok_def stage_out_def Let_def split: stage_kind.split)
  from requestAsSupplement_settles [OF assms(1-4,5,6,7), of startNextStageInOnCycle] cyc on show ?thesis
    by (auto simp: at_rest_def split: stage_kind.split)
qed


text \<open>Two indoor heating stages: the first as given, the second as given.\<close>

definition sample_pair :: "States \<Rightarrow> States \<Rightarrow> nat \<Rightarrow> stage" where
  "sample_pair st0 st1 k =
     (if k = 0 then sample_stage (BasicIndoorHeat True) 0 st0 OnCycle
      else (sample_stage (BasicIndoorHeat True) 1 st1 OnCycle)\<lparr>m_supplemented := (st1 \<noteq> Off),
             m_prevStage := (if st1 = Off then None else Some 0)\<rparr>)"

lemma sample_pair_usable:
  "usable 0 (sample_world m (sample_pair st0 st1))" "usable 1 (sample_world m (sample_pair st0 st1))"
  by (simp_all add: usable_def sample_pair_def sample_defs sample_duty out_ok_def)

lemma sample_pair_rest:
  "st0 \<in> {Off, SupplementingNextStage, Active} \<Longrightarrow> at_rest 0 (sample_world m (sample_pair st0 st1))"
  "st1 \<in> {Off, SupplementingNextStage, Active} \<Longrightarrow> at_rest 1 (sample_world m (sample_pair st0 st1))"
  by (auto simp: at_rest_def idle_def sample_pair_def sample_defs sample_queue innermost_iff)

lemma sample_pair_state:
  "st_of (w_stages (sample_world m (sample_pair Active st1)) 0) = OnTime"
  "st_of (w_stages (sample_world m (sample_pair st0 Active)) 1) = OnTime"
  "st_of (w_stages (sample_world m (sample_pair st0 Off)) 1) = Off"
  "st_of (w_stages (sample_world m (sample_pair SupplementingNextStage st1)) 0) = SupplementingNextStage"
  by (simp_all add: sample_pair_def sample_defs innermost_iff)

theorem stage_supplement_handshake_witness:
  "\<exists>w'. requestAsSupplement 0 1 True (sample_world eON_CYCLE (sample_pair Active Off)) = Inr w' \<and>
     st_of (w_stages w' 0) = SupplementingNextStage \<and> indoorStages (vOutputs (w_args w')) ! 0 = VIRTUAL_OUTPUTS_ON"
proof -
  let ?w = "sample_world eON_CYCLE (sample_pair Active Off)"
  have "at_rest 0 ?w" "at_rest 1 ?w" "usable 0 ?w" "usable 1 ?w" "st_of (w_stages ?w 0) \<in> {OnTime, OffTime}"
      "st_of (w_stages ?w 1) = Off"
    by (rule sample_pair_rest sample_pair_usable | simp add: sample_pair_state [unfolded One_nat_def])+
  from stage_supplement_handshake [of 0 1 ?w True, OF _ this(1,3,5,2,4,6)] show ?thesis
    by (auto simp: sample_pair_def sample_defs)
qed

text \<open>
  Staging down: when the active stage of a pair is asked to switch off, it ends off, its link to
  the lower stage is cleared, and the lower stage stops supplementing and enters its own duty cycle
  at the current interval. The hand-over never leaves both stages cycling.
\<close>

lemma stage_release_handshake:
  assumes "i \<noteq> j" "at_rest j w" "usable j w" "st_of (w_stages w j) \<in> {OnTime, OffTime}"
    and "m_supplemented (w_stages w j)" "m_prevStage (w_stages w j) = Some i"
    and "at_rest i w" "usable i w" "st_of (w_stages w i) = SupplementingNextStage"
  shows "\<exists>w'. requestOff j startLowerStageInOnCycle w = Inr w' \<and>
    at_rest j w' \<and> st_of (w_stages w' j) = Off \<and> \<not> m_supplemented (w_stages w' j) \<and>
    at_rest i w' \<and> st_of (w_stages w' i) \<in> {OnTime, OffTime} \<and>
    m_startTime (w_stages w' i) = currentInterval (w_args w) \<and>
    (case s_kind (w_stages w j) of
       BasicCooling \<Rightarrow> outdoorStages (vOutputs (w_args w')) ! m_outIndex (w_stages w j) = VIRTUAL_OUTPUTS_OFF
     | BasicIndoorHeat _ \<Rightarrow> indoorStages (vOutputs (w_args w')) ! m_outIndex (w_stages w j) = VIRTUAL_OUTPUTS_OFF) \<and>
    (\<forall>k. k \<noteq> i \<and> k \<noteq> j \<longrightarrow> w_stages w' k = w_stages w k)"
proof -
  let ?si = "w_stages w i" and ?sj = "w_stages w j"
  let ?a = "snd ((if st_of ?sj = OnTime then check_on else check_off) ?sj (w_args w))"
  let ?r = "enter (\<not> startLowerStageInOnCycle) ?si ?a"
  have cyc: "fst ?r \<in> {OnTime, OffTime}" by (auto simp: enter_def)
  have vo: "vOutputs ?a = vOutputs (w_args w)" by (simp add: check_on_def check_off_def)
  have "out_of ?sj (snd ?r)" using assms(3) vo by (simp add: usable_def)
  then have off: "case s_kind ?sj of
       BasicCooling \<Rightarrow> outdoorStages (vOutputs (shutdown ?sj (snd ?r))) ! m_outIndex ?sj = VIRTUAL_OUTPUTS_OFF
     | BasicIndoorHeat _ \<Rightarrow> indoorStages (vOutputs (shutdown ?sj (snd ?r))) ! m_outIndex ?sj = VIRTUAL_OUTPUTS_OFF"
    by (auto simp: out_ok_def shutdown_def stage_out_def Let_def split: stage_kind.split)
  from requestOff_supplemented [OF assms(1-4,5,6,7-9), of startLowerStageInOnCycle] cyc off show ?thesis
    by (auto simp: at_rest_def split: stage_kind.split)
qed

lemma stage_release_handshake_witness:
  "\<exists>w'. requestOff 1 True (sample_world eON_CYCLE (sample_pair SupplementingNextStage Active)) = Inr w' \<and>
     st_of (w_stages w' 1) = Off \<and> st_of (w_stages w' 0) \<in> {OnTime, OffTime} \<and>
     indoorStages (vOutputs (w_args w')) ! 1 = VIRTUAL_OUTPUTS_OFF"
proof -
  let ?w = "sample_world eON_CYCLE (sample_pair SupplementingNextStage Active)"
  have "at_rest 0 ?w" "at_rest 1 ?w" "usable 0 ?w" "usable 1 ?w" "st_of (w_stages ?w 1) \<in> {OnTime, OffTime}"
      "st_of (w_stages ?w 0) = SupplementingNextStage"
    by (rule sample_pair_rest sample_pair_usable | simp add: sample_pair_state [unfolded One_nat_def])+
  moreover have "m_supplemented (w_stages ?w 1)" "m_prevStage (w_stages ?w 1) = Some 0"
    by (simp_all add: sample_pair_def sample_world_def)
  ultimately show ?thesis using stage_release_handshake [of 0 1 ?w True] by (auto simp: sample_pair_def sample_defs)
qed

text \<open>
  \<open>requestModeToOff\<close> does not refresh the argument pointer of a stage, while the state machine runs the
  time check of a cycling stage on every event.
\<close>

lemma requestModeToOff_stale:
  assumes "idle (w_stages w i)" "st_of (w_stages w i) \<in> {OnTime, OffTime}"
    and "m_args (w_stages w i) = Some p" "p \<noteq> w_argsId w"
  shows "requestModeToOff i w = Inl DanglingPointer"
  using event_Cycling_dangling [of 40 w i p Fsm_evOffModeRequest] assms
  by (auto simp: requestModeToOff_def stage_fuel_def)

end
