(* ===== verification/Stage_Frame.thy ===== *)
theory Stage_Frame
  imports Stage_Fsm
begin

text \<open>
  What no event of a stage can change (src/src/Storm/Component/Equipment/Stage/): the class and the
  indices of every stage, the address of the argument block, and the part of the argument block that
  Control.h marks as input. The lemmas hold for every event, with any fuel and in any state of the
  machine, whenever the run returns.
\<close>

text \<open>
  The part of an argument block that the stages only read, with the sizes of the output arrays. The
  test abort flag is not in it: a stage clears it.
\<close>

definition inputs_of :: "Args_T \<Rightarrow> rat \<times> SystemConfig_T \<times> Precision_T \<times> Precision_T \<times> EquipmentTimes_T
    \<times> bool \<times> nat \<times> nat" where
  "inputs_of a = (pvOut a, systemConfig a, currentTick a, currentInterval a, equipmentBeginTimes a,
     defeatEquipMinOffTime (whiteBox a), length (indoorStages (vOutputs a)), length (outdoorStages (vOutputs a)))"

definition identity_of :: "stage \<Rightarrow> stage_kind \<times> nat \<times> nat" where
  "identity_of s = (s_kind s, m_systemIndex s, m_outIndex s)"

definition frame :: "world \<Rightarrow> world \<Rightarrow> bool" where
  "frame w w' \<longleftrightarrow> inputs_of (w_args w') = inputs_of (w_args w) \<and> w_argsId w' = w_argsId w \<and>
     (\<forall>i. identity_of (w_stages w' i) = identity_of (w_stages w i))"

lemma frame_refl [simp]: "frame w w"
  by (simp add: frame_def)

lemma frame_trans: "frame w w' \<Longrightarrow> frame w' w'' \<Longrightarrow> frame w w''"
  by (simp add: frame_def)

lemma frame_upd_stage [simp]:
  "(\<And>s. identity_of (f s) = identity_of s) \<Longrightarrow> frame w (upd_stage i f w') \<longleftrightarrow> frame w w'"
  by (auto simp: frame_def upd_stage_def)

lemma frame_upd_stage_left [simp]:
  "(\<And>s. identity_of (f s) = identity_of s) \<Longrightarrow> frame (upd_stage i f w) w' \<longleftrightarrow> frame w w'"
  by (auto simp: frame_def upd_stage_def split: if_splits)

lemma frame_upd_args [simp]:
  "(\<And>a. inputs_of (f a) = inputs_of a) \<Longrightarrow> frame w (upd_args f w') \<longleftrightarrow> frame w w'"
  by (simp add: frame_def upd_args_def)

lemma identity_upd [simp]:
  "identity_of (s\<lparr>m_startTime := a\<rparr>) = identity_of s" "identity_of (s\<lparr>m_args := b\<rparr>) = identity_of s"
  "identity_of (s\<lparr>m_nextStage := b\<rparr>) = identity_of s" "identity_of (s\<lparr>m_prevStage := b\<rparr>) = identity_of s"
  "identity_of (s\<lparr>m_startInOffCycle := c\<rparr>) = identity_of s" "identity_of (s\<lparr>m_supplemented := c\<rparr>) = identity_of s"
  "identity_of (s\<lparr>m_requestSupplementStartInOnCycle := c\<rparr>) = identity_of s"
  "identity_of (s\<lparr>m_requestOffStartInOnCycle := c\<rparr>) = identity_of s"
  "identity_of (s\<lparr>stateVars := d\<rparr>) = identity_of s" "identity_of (s\<lparr>m_eventQue := e\<rparr>) = identity_of s"
  "identity_of (s\<lparr>m_processingFsmEvent := c\<rparr>) = identity_of s" "identity_of (s\<lparr>m_initialized := c\<rparr>) = identity_of s"
  by (simp_all add: identity_of_def)

text \<open>An action keeps the frame when every run of it that returns does.\<close>

definition keeps :: "action \<Rightarrow> bool" where
  "keeps f \<longleftrightarrow> (\<forall>w w'. f w = Inr w' \<longrightarrow> frame w w')"

lemma keepsD: "keeps f \<Longrightarrow> f w = Inr w' \<Longrightarrow> frame w w'"
  by (simp add: keeps_def)

lemma keeps_simps [simp]:
  "keeps (\<lambda>w. Inr w)" "keeps (\<lambda>w. Inl e)"
  by (simp_all add: keeps_def)

lemma keeps_bind: "keeps f \<Longrightarrow> keeps g \<Longrightarrow> keeps (\<lambda>w. bindR (f w) g)"
  by (fastforce simp: keeps_def intro: frame_trans)

lemma keeps_seqA: "\<forall>f \<in> set fs. keeps f \<Longrightarrow> keeps (seqA fs)"
proof (induction fs)
  case (Cons f fs)
  have "seqA (f # fs) = (\<lambda>w. bindR (f w) (seqA fs))"
    by (simp add: fun_eq_iff)
  then show ?case
    using Cons by (simp add: keeps_bind)
qed (simp add: keeps_def)

lemma keeps_use_args: "keeps f \<Longrightarrow> keeps (use_args i f)"
  by (auto simp: keeps_def use_args_def split: option.splits if_splits)

lemma inputs_upd [simp]:
  "inputs_of (a\<lparr>systemOn := b\<rparr>) = inputs_of a" "inputs_of (a\<lparr>cycleInfo := c\<rparr>) = inputs_of a"
  "inputs_of (a\<lparr>vOutputs := (vOutputs a)\<lparr>indoorFan := v\<rparr>\<rparr>) = inputs_of a"
  "inputs_of (a\<lparr>vOutputs := (vOutputs a)\<lparr>sovInHeating := b\<rparr>\<rparr>) = inputs_of a"
  "inputs_of (a\<lparr>whiteBox := (whiteBox a)\<lparr>abortOnOffCycle := b\<rparr>\<rparr>) = inputs_of a"
  by (simp_all add: inputs_of_def)

lemma set_output_length: "set_output i v xs = Inr ys \<Longrightarrow> length ys = length xs"
  by (auto simp: set_output_def split: if_splits)

lemma keeps_outputs:
  "keeps (set_outdoor i v)" "keeps (set_indoor i v)"
  by (auto simp: keeps_def set_outdoor_def set_indoor_def frame_def upd_args_def inputs_of_def
      dest: set_output_length)

lemma keeps_set_fan: "keeps (\<lambda>w. Inr (set_fan i v w))"
  by (simp add: keeps_def set_fan_def)

lemma keeps_if: "keeps f \<Longrightarrow> keeps g \<Longrightarrow> keeps (\<lambda>w. if P w then f w else g w)"
  by (simp add: keeps_def)

lemma keeps_stageOff: "keeps (stageOff i)"
proof -
  have "keeps (BasicCooling_stageOff i)" "keeps (BasicIndoorHeat_stageOff i)"
    unfolding BasicCooling_stageOff_def BasicIndoorHeat_stageOff_def
    by (intro keeps_use_args keeps_bind keeps_outputs keeps_set_fan)+
  then show ?thesis
    by (simp add: keeps_def stageOff_def split: stage_kind.split)
qed

lemma keeps_stageOn: "keeps (stageOn i)"
proof -
  have "keeps (BasicCooling_stageOn i)" "keeps (BasicIndoorHeat_stageOn b i)" for b
    unfolding BasicCooling_stageOn_def BasicIndoorHeat_stageOn_def
    by (intro keeps_use_args keeps_bind keeps_outputs keeps_set_fan)+
  then show ?thesis
    by (simp add: keeps_def stageOn_def split: stage_kind.split)
qed

lemma keeps_upd:
  "(\<And>w s. identity_of (f w s) = identity_of s) \<Longrightarrow> keeps (\<lambda>w. Inr (upd_stage i (f w) w))"
  "(\<And>w a. inputs_of (g w a) = inputs_of a) \<Longrightarrow> keeps (\<lambda>w. Inr (upd_args (g w) w))"
  by (simp_all add: keeps_def)

lemma keeps_initializeActive: "keeps (initializeActive i)"
proof -
  have "keeps (Basic_initializeActive i)"
    unfolding Basic_initializeActive_def
    by (intro keeps_bind keeps_stageOff keeps_if keeps_use_args keeps_upd keeps_simps) simp
  moreover from this have "keeps (BasicCooling_initializeActive i)"
    unfolding BasicCooling_initializeActive_def
    by (intro keeps_use_args keeps_bind keeps_upd) simp_all
  ultimately show ?thesis
    by (simp add: keeps_def initializeActive_def split: stage_kind.split)
qed

lemma keeps_time:
  "keeps (startOnTime i)" "keeps (startOffTime i)" "keeps (initializeStage i)"
  unfolding startOnTime_def startOffTime_def initializeStage_def
  by (intro keeps_use_args keeps_upd; simp)+

lemma keeps_shutdownStage: "keeps (shutdownStage i)"
proof -
  have "keeps (\<lambda>w. Inr (if m_systemIndex (w_stages w i) = 0
               then upd_args (\<lambda>a. a\<lparr>systemOn := False,
                      cycleInfo := (cycleInfo a)\<lparr>mode := eOFF_STATUS\<rparr>\<rparr>) w
               else w))"
    by (simp add: keeps_def)
  then show ?thesis
    by (simp add: shutdownStage_def keeps_use_args keeps_seqA keeps_stageOff)
qed

text \<open>The actions that generate events keep the frame when the generator does.\<close>

definition keeps_gen :: "generator \<Rightarrow> bool" where
  "keeps_gen gen \<longleftrightarrow> (\<forall>i msg. keeps (gen i msg))"

lemma frame_gen: "keeps_gen gen \<Longrightarrow> gen i msg w = Inr w' \<Longrightarrow> frame w w'"
  by (auto simp: keeps_gen_def keeps_def)

lemma frame_gen_args:
  "keeps_gen gen \<Longrightarrow> gen i msg (upd_args f w) = Inr w' \<Longrightarrow> (\<And>a. inputs_of (f a) = inputs_of a) \<Longrightarrow> frame w w'"
  using frame_gen [of gen i msg "upd_args f w" w'] by (auto elim: frame_trans [rotated])

lemma frame_gen_stage:
  "keeps_gen gen \<Longrightarrow> gen i msg (upd_stage j f w) = Inr w' \<Longrightarrow> (\<And>s. identity_of (f s) = identity_of s) \<Longrightarrow> frame w w'"
  using frame_gen [of gen i msg "upd_stage j f w" w'] by (auto elim: frame_trans [rotated])

lemma upd_args_twice: "upd_args f (upd_args g w) = upd_args (\<lambda>a. f (g a)) w"
  by (simp add: upd_args_def)

lemma keeps_check:
  assumes "keeps_gen gen"
  shows "keeps (checkOnTime gen i)" "keeps (checkOffTime gen i)"
  unfolding checkOnTime_def checkOffTime_def
  by (intro keeps_use_args; auto simp: keeps_def Let_def upd_args_twice inputs_of_def dest!: frame_gen_args [OF assms])+

lemma keeps_starting:
  assumes "keeps_gen gen"
  shows "keeps (startingStageOn gen i)" "keeps (startingStageOff gen i)"
proof -
  have "keeps (gen i msg)" for msg
    using assms by (simp add: keeps_gen_def)
  moreover have "keeps (\<lambda>w. Inr (upd_args (\<lambda>a. a\<lparr>cycleInfo := f w a\<rparr>) w))" for f
    by (intro keeps_upd) simp
  ultimately show "keeps (startingStageOn gen i)" "keeps (startingStageOff gen i)"
    unfolding startingStageOn_def startingStageOff_def
    by (intro keeps_use_args keeps_seqA; simp add: keeps_stageOn keeps_stageOff keeps_check [OF assms])+
qed

lemma keeps_notify:
  assumes "keeps_gen gen"
  shows "keeps (notifyAsActiveStage gen j p k b)" "keeps (notifyAsExitingSupplmenting gen j p b)"
  by (auto simp: keeps_def notifyAsActiveStage_def notifyAsExitingSupplmenting_def dest!: frame_gen_stage [OF assms])

lemma keeps_supplement:
  assumes "keeps_gen gen"
  shows "keeps (enterSupplementing gen i)" "keeps (notifyLowerStage gen i)"
  unfolding enterSupplementing_def notifyLowerStage_def
  by (intro keeps_use_args;
      fastforce simp: keeps_def split: option.splits
        dest: keepsD [OF keeps_notify(1) [OF assms]] keepsD [OF keeps_notify(2) [OF assms]]
          keepsD [OF keeps_stageOn] intro: frame_trans)+

text \<open>The cases of the state machine return the store last.\<close>

definition keeps_case :: "(world \<Rightarrow> fsm_case) \<Rightarrow> bool" where
  "keeps_case f \<longleftrightarrow> (\<forall>w c v w'. f w = Inr (c, v, w') \<longrightarrow> frame w w')"

definition keeps_vars :: "(world \<Rightarrow> (stateVarsT \<times> world) result) \<Rightarrow> bool" where
  "keeps_vars f \<longleftrightarrow> (\<forall>w v w'. f w = Inr (v, w') \<longrightarrow> frame w w')"

lemma keeps_return: "keeps_case (\<lambda>w. Inr (c, v, w))" "keeps_vars (\<lambda>w. Inr (v, w))"
  by (simp_all add: keeps_case_def keeps_vars_def)

lemma keeps_case_bind:
  "keeps f \<Longrightarrow> keeps_case g \<Longrightarrow> keeps_case (\<lambda>w. bindR (f w) g)"
  "keeps f \<Longrightarrow> keeps_vars h \<Longrightarrow> keeps_vars (\<lambda>w. bindR (f w) h)"
  by (fastforce simp: keeps_case_def keeps_vars_def keeps_def intro: frame_trans)+

lemma keeps_case_vars:
  "keeps_vars f \<Longrightarrow> (\<And>v. keeps_case (g v)) \<Longrightarrow> keeps_case (\<lambda>w. bindR (f w) (\<lambda>(v, w). g v w))"
  by (fastforce simp: keeps_case_def keeps_vars_def intro: frame_trans)

lemma keeps_case_then:
  "keeps_case f \<Longrightarrow> (\<And>c v. keeps_case (g c v)) \<Longrightarrow> keeps_case (\<lambda>w. bindR (f w) (\<lambda>(c, v, w). g c v w))"
  by (fastforce simp: keeps_case_def intro: frame_trans)

lemma keeps_case_if:
  "keeps_case f \<Longrightarrow> keeps_case g \<Longrightarrow> keeps_case (\<lambda>w. if P w then f w else g w)"
  "keeps_vars h \<Longrightarrow> keeps_vars k \<Longrightarrow> keeps_vars (\<lambda>w. if P w then h w else k w)"
  by (simp_all add: keeps_case_def keeps_vars_def)

lemma frame_enter_cycling:
  assumes "keeps_gen gen"
  shows "keeps_vars (enter_cycling gen i v)"
  unfolding enter_cycling_def
  by (intro keeps_case_if keeps_case_bind keeps_return keeps_seqA;
      simp add: keeps_time keeps_starting [OF assms] startCyclingInOffCycle_def startCyclingInOnCycle_def
        keeps_def [of "startCyclingInOffCycle i"] keeps_def [of "startCyclingInOnCycle i"])

lemma keeps_trivial:
  "keeps (checkStartingOnTime i)" "keeps (checkStartingOffTime i)" "keeps (checkFromTransition i)"
  "keeps (checkBackTransition i)" "keeps (exitSupplementing i)"
  by (simp_all add: keeps_def checkStartingOnTime_def checkStartingOffTime_def checkFromTransition_def
      checkBackTransition_def exitSupplementing_def)

lemmas keeps_case_rules = keeps_case_if keeps_case_bind keeps_case_vars keeps_case_then keeps_return

lemma keeps_event:
  assumes "keeps_gen gen"
  shows "keeps_case (event_Off gen i msg v)" "keeps_case (event_OnCycle gen i msg v)"
    "keeps_case (event_OffCycle gen i msg v)"
  unfolding event_Off_def event_OnCycle_def event_OffCycle_def
    initializeFromTransition_def
  by (intro keeps_case_rules frame_enter_cycling assms keeps_initializeActive keeps_trivial keeps_stageOn
      keeps_stageOff keeps_check keeps_seqA; (use assms in \<open>simp add: keeps_time keeps_starting keeps_gen_def\<close>)?)+

lemma keeps_event_Cycling:
  assumes "keeps_gen gen"
  shows "keeps_case (event_Cycling gen i msg v)"
  unfolding event_Cycling_def initializeBackTransition_def
  by (intro keeps_case_rules keeps_event assms keeps_shutdownStage keeps_supplement)
    (use assms in \<open>simp add: keeps_gen_def\<close>)

lemma keeps_event_Active:
  assumes "keeps_gen gen"
  shows "keeps_case (event_Active gen i msg v)" "keeps_case (event_SupplementingNextStage gen i msg v)"
  unfolding event_Active_def event_SupplementingNextStage_def
  by (intro keeps_case_rules keeps_event_Cycling frame_enter_cycling assms keeps_trivial keeps_seqA keeps_time;
      simp add: keeps_shutdownStage keeps_supplement assms)+

lemma frame_processEvent:
  assumes "keeps_gen gen" "processEvent gen i msg w = Inr (c, w')"
  shows "frame w w'"
proof (cases "m_initialized (w_stages w i)")
  case True
  let ?v = "stateVars (w_stages w i)"
  let ?f = "\<lambda>w. case stateVar ?v of
                 Off \<Rightarrow> event_Off gen i msg ?v w
               | Active \<Rightarrow> event_Active gen i msg ?v w
               | SupplementingNextStage \<Rightarrow> event_SupplementingNextStage gen i msg ?v w
               | _ \<Rightarrow> Inr (False, ?v, w)"
  have "keeps_case ?f"
    by (cases "stateVar ?v") (simp_all add: keeps_event keeps_event_Active assms(1) keeps_return)
  then show ?thesis
    using True assms(2) by (auto simp: processEvent_def Let_def keeps_case_def)
qed (use assms(2) in \<open>simp add: processEvent_def\<close>)

lemma generateEvent_frame:
  "generateEvent n i msg w = Inr w' \<Longrightarrow> frame w w'" "drainEvents n i w = Inr w' \<Longrightarrow> frame w w'"
proof (induction n arbitrary: i msg w w')
  case (Suc n)
  { case 1
    then show ?case
      by (auto simp: Let_def split: prod.splits if_splits dest!: Suc.IH(2) elim: frame_trans [rotated])
  next
    case 2
    have "keeps_gen (generateEvent n)"
      using Suc.IH(1) by (auto simp: keeps_gen_def keeps_def)
    then show ?case
      using 2 by (auto split: prod.splits option.splits dest!: frame_processEvent Suc.IH(2)
          elim: frame_trans [rotated]) }
qed simp_all

text \<open>The operations of the StageApi interface keep the frame.\<close>

lemma api_frame:
  "requestOn i b w = Inr w' \<Longrightarrow> frame w w'" "requestOff i b w = Inr w' \<Longrightarrow> frame w w'"
  "requestAsSupplement i j b w = Inr w' \<Longrightarrow> frame w w'" "execute i w = Inr w' \<Longrightarrow> frame w w'"
  "requestModeToOff i w = Inr w' \<Longrightarrow> frame w w'"
  by (auto simp: requestOn_def requestOff_def requestAsSupplement_def execute_def requestModeToOff_def
      dest!: generateEvent_frame(1) elim: frame_trans [rotated])

end
