(* ===== verification/Virtual_Outputs.thy ===== *)
theory Virtual_Outputs
  imports Model_Point Storm_Types
begin

text \<open>
  The model point that holds the outputs of the system (src/src/Storm/Dm/MpVirtualOutputs.cpp): the
  read-modify-write setters, the clamping of every output to 1000 (100%) that each write applies, and
  the static helpers that the control component uses on its own copy of the outputs. The two arrays
  have the fixed sizes of Constants.h.

  The conversion from and to JSON is not modelled: it goes through the ArduinoJson library.
\<close>

abbreviation (input) MAX_OUTPUT :: u16 where "MAX_OUTPUT \<equiv> 1000"

definition vo_zero :: VirtualOutputs_T where
  "vo_zero = \<lparr>indoorFan = 0, indoorFanCont = 0, indoorStages = replicate STORM_MAX_INDOOR_STAGES 0,
     outdoorFan = 0, outdoorStages = replicate STORM_MAX_OUTDOOR_STAGES 0, sovInHeating = False\<rparr>"

definition clamp :: "u16 \<Rightarrow> u16" where
  "clamp x = (if x > MAX_OUTPUT then MAX_OUTPUT else x)"

definition vo_validate :: "VirtualOutputs_T \<Rightarrow> VirtualOutputs_T" where
  "vo_validate v = v\<lparr>indoorFan := clamp (indoorFan v), indoorFanCont := clamp (indoorFanCont v),
     outdoorFan := clamp (outdoorFan v), indoorStages := map clamp (indoorStages v),
     outdoorStages := map clamp (outdoorStages v)\<rparr>"

definition areStagesOn :: "VirtualOutputs_T \<Rightarrow> bool" where
  "areStagesOn v = (list_ex (\<lambda>x. x > 0) (indoorStages v) \<or> list_ex (\<lambda>x. x > 0) (outdoorStages v))"

definition setSafeAllOff :: "VirtualOutputs_T \<Rightarrow> VirtualOutputs_T" where
  "setSafeAllOff outputs = vo_zero\<lparr>sovInHeating := sovInHeating outputs\<rparr>"

definition setCapacityOff :: "VirtualOutputs_T \<Rightarrow> VirtualOutputs_T" where
  "setCapacityOff outputs =
     vo_zero\<lparr>sovInHeating := sovInHeating outputs, indoorFanCont := indoorFanCont outputs\<rparr>"

subsection \<open>The model point\<close>

type_synonym vo_point = "VirtualOutputs_T point"

definition MpVirtualOutputs :: vo_point where
  "MpVirtualOutputs = hookSetInvalid (ModelPointCommon vo_zero vo_zero True)"

definition vo_write :: "VirtualOutputs_T \<Rightarrow> LockRequest_T \<Rightarrow> vo_point \<Rightarrow> vo_point" where
  "vo_write srcData lockRequest p = writeData (vo_validate srcData) lockRequest p"

definition setIndoorFanOutput :: "u16 \<Rightarrow> LockRequest_T \<Rightarrow> vo_point \<Rightarrow> vo_point" where
  "setIndoorFanOutput fanSpeed lockRequest p =
     vo_write ((m_data p)\<lparr>indoorFan := fanSpeed\<rparr>) lockRequest p"

definition setIndoorFanContinousOutput :: "u16 \<Rightarrow> LockRequest_T \<Rightarrow> vo_point \<Rightarrow> vo_point" where
  "setIndoorFanContinousOutput fanContSpeed lockRequest p =
     vo_write ((m_data p)\<lparr>indoorFanCont := fanContSpeed\<rparr>) lockRequest p"

definition setIndoorStageOutput :: "nat \<Rightarrow> u16 \<Rightarrow> LockRequest_T \<Rightarrow> vo_point \<Rightarrow> vo_point" where
  "setIndoorStageOutput stageIndex stageOutput lockRequest p =
     (if stageIndex \<ge> STORM_MAX_INDOOR_STAGES then p
      else vo_write ((m_data p)\<lparr>indoorStages := (indoorStages (m_data p))[stageIndex := stageOutput]\<rparr>)
             eNO_REQUEST p)"

definition setOutdoorFanOutput :: "u16 \<Rightarrow> LockRequest_T \<Rightarrow> vo_point \<Rightarrow> vo_point" where
  "setOutdoorFanOutput fanSpeed lockRequest p =
     vo_write ((m_data p)\<lparr>outdoorFan := fanSpeed\<rparr>) lockRequest p"

definition setOutdoorStageOutput :: "nat \<Rightarrow> u16 \<Rightarrow> LockRequest_T \<Rightarrow> vo_point \<Rightarrow> vo_point" where
  "setOutdoorStageOutput stageIndex stageOutput lockRequest p =
     (if stageIndex \<ge> STORM_MAX_OUTDOOR_STAGES then p
      else vo_write ((m_data p)\<lparr>outdoorStages := (outdoorStages (m_data p))[stageIndex := stageOutput]\<rparr>)
             eNO_REQUEST p)"

definition setSovToCooling :: "LockRequest_T \<Rightarrow> vo_point \<Rightarrow> vo_point" where
  "setSovToCooling lockRequest p = vo_write ((m_data p)\<lparr>sovInHeating := False\<rparr>) lockRequest p"

definition setSovToHeating :: "LockRequest_T \<Rightarrow> vo_point \<Rightarrow> vo_point" where
  "setSovToHeating lockRequest p = vo_write ((m_data p)\<lparr>sovInHeating := True\<rparr>) lockRequest p"

definition setOutdoorOff :: "LockRequest_T \<Rightarrow> vo_point \<Rightarrow> vo_point" where
  "setOutdoorOff lockRequest p =
     vo_write ((m_data p)\<lparr>outdoorStages := map (\<lambda>_. VIRTUAL_OUTPUTS_OFF) (outdoorStages (m_data p)),
       outdoorFan := VIRTUAL_OUTPUTS_OFF\<rparr>) lockRequest p"

definition setIndoorOff :: "LockRequest_T \<Rightarrow> vo_point \<Rightarrow> vo_point" where
  "setIndoorOff lockRequest p =
     vo_write ((m_data p)\<lparr>indoorStages := map (\<lambda>_. VIRTUAL_OUTPUTS_OFF) (indoorStages (m_data p)),
       indoorFan := VIRTUAL_OUTPUTS_OFF, indoorFanCont := VIRTUAL_OUTPUTS_OFF\<rparr>) lockRequest p"

text \<open>
  The local variable of \<open>mp_setSafeAllOff\<close> is not initialised before the helper reads its SOV flag;
  its content is an argument here.
\<close>

definition mp_setSafeAllOff :: "VirtualOutputs_T \<Rightarrow> LockRequest_T \<Rightarrow> vo_point \<Rightarrow> vo_point" where
  "mp_setSafeAllOff newData lockRequest p =
     vo_write ((setSafeAllOff newData)\<lparr>sovInHeating := sovInHeating (m_data p)\<rparr>) lockRequest p"

definition mp_setCapacityOff :: "LockRequest_T \<Rightarrow> vo_point \<Rightarrow> vo_point" where
  "mp_setCapacityOff lockRequest p =
     vo_write ((setCapacityOff vo_zero)\<lparr>sovInHeating := sovInHeating (m_data p)\<rparr>) lockRequest p"

text \<open>
  The operations that the point inherits store data without the clamping: \<open>copyFrom\<close> takes the data of another point, and
  \<open>importData\<close> overwrites data, valid flag and, on request, lock with what the bytes of the stream hold.
\<close>

definition copyFrom :: "vo_point \<Rightarrow> LockRequest_T \<Rightarrow> vo_point \<Rightarrow> vo_point" where
  "copyFrom src lockRequest p = copyDataAndStateFrom src lockRequest p"

definition vo_import :: "VirtualOutputs_T \<Rightarrow> bool \<Rightarrow> bool option \<Rightarrow> vo_point \<Rightarrow> vo_point" where
  "vo_import v valid lock p =
     advanceSequenceNumber (p\<lparr>m_data := v, m_valid := valid, m_locked := (case lock of None \<Rightarrow> m_locked p | Some l \<Rightarrow> l)\<rparr>)"

text \<open>Every sequence of calls on the model point. A conversion from JSON is a write of what it has read.\<close>

datatype vo_op =
    VoWrite VirtualOutputs_T LockRequest_T | VoIndoorFan u16 LockRequest_T | VoIndoorFanCont u16 LockRequest_T
  | VoIndoorStage nat u16 LockRequest_T | VoOutdoorFan u16 LockRequest_T | VoOutdoorStage nat u16 LockRequest_T
  | VoSovCooling LockRequest_T | VoSovHeating LockRequest_T | VoOutdoorOff LockRequest_T
  | VoIndoorOff LockRequest_T | VoSafeAllOff VirtualOutputs_T LockRequest_T | VoCapacityOff LockRequest_T
  | VoSetInvalid LockRequest_T | VoTouch | VoLockState LockRequest_T
  | VoCopyFrom vo_point LockRequest_T | VoImport VirtualOutputs_T bool "bool option"

fun vo_step :: "vo_op \<Rightarrow> vo_point \<Rightarrow> vo_point" where
  "vo_step (VoWrite v r) p = vo_write v r p"
| "vo_step (VoIndoorFan x r) p = setIndoorFanOutput x r p"
| "vo_step (VoIndoorFanCont x r) p = setIndoorFanContinousOutput x r p"
| "vo_step (VoIndoorStage k x r) p = setIndoorStageOutput k x r p"
| "vo_step (VoOutdoorFan x r) p = setOutdoorFanOutput x r p"
| "vo_step (VoOutdoorStage k x r) p = setOutdoorStageOutput k x r p"
| "vo_step (VoSovCooling r) p = setSovToCooling r p"
| "vo_step (VoSovHeating r) p = setSovToHeating r p"
| "vo_step (VoOutdoorOff r) p = setOutdoorOff r p"
| "vo_step (VoIndoorOff r) p = setIndoorOff r p"
| "vo_step (VoSafeAllOff junk r) p = mp_setSafeAllOff junk r p"
| "vo_step (VoCapacityOff r) p = mp_setCapacityOff r p"
| "vo_step (VoSetInvalid r) p = setInvalid r p"
| "vo_step VoTouch p = touch p"
| "vo_step (VoLockState r) p = setLockState r p"
| "vo_step (VoCopyFrom src r) p = copyFrom src r p"
| "vo_step (VoImport v valid lock) p = vo_import v valid lock p"

subsection \<open>Lemmas\<close>

definition vo_ok :: "VirtualOutputs_T \<Rightarrow> bool" where
  "vo_ok v \<longleftrightarrow> length (indoorStages v) = STORM_MAX_INDOOR_STAGES \<and>
     length (outdoorStages v) = STORM_MAX_OUTDOOR_STAGES \<and>
     indoorFan v \<le> MAX_OUTPUT \<and> indoorFanCont v \<le> MAX_OUTPUT \<and> outdoorFan v \<le> MAX_OUTPUT \<and>
     (\<forall>x \<in> set (indoorStages v) \<union> set (outdoorStages v). x \<le> MAX_OUTPUT)"

definition vo_shape :: "VirtualOutputs_T \<Rightarrow> bool" where
  "vo_shape v \<longleftrightarrow> length (indoorStages v) = STORM_MAX_INDOOR_STAGES \<and>
     length (outdoorStages v) = STORM_MAX_OUTDOOR_STAGES"

lemma clamp_le: "clamp x \<le> MAX_OUTPUT"
  by (simp add: clamp_def not_less)

lemma clamp_id: "x \<le> MAX_OUTPUT \<Longrightarrow> clamp x = x"
  by (simp add: clamp_def not_less [symmetric])

lemma vo_validate_ok: "vo_shape v \<Longrightarrow> vo_ok (vo_validate v)"
  by (auto simp: vo_ok_def vo_shape_def vo_validate_def clamp_le)

lemma vo_validate_id: "vo_ok v \<Longrightarrow> vo_validate v = v"
  by (auto simp: vo_ok_def vo_validate_def clamp_id intro!: VirtualOutputs_T.equality map_idI)

lemma vo_zero_ok [simp]: "vo_ok vo_zero"
  by (simp add: vo_ok_def vo_zero_def)

lemma write_data_cases: "m_data (writeData x r p) = x \<or> m_data (writeData x r p) = m_data p"
  by (auto simp: writeData_def write_core_def commit_def testAndUpdateLock_def advanceSequenceNumber_def Let_def)

lemma vo_write_ok: "vo_ok (m_data p) \<Longrightarrow> vo_shape v \<Longrightarrow> vo_ok (m_data (vo_write v r p))"
  using write_data_cases [of "vo_validate v" r p] vo_validate_ok [of v] by (auto simp: vo_write_def)

lemma vo_ok_shape: "vo_ok v \<Longrightarrow> vo_shape v"
  by (simp add: vo_ok_def vo_shape_def)

text \<open>All outputs are at most 100 percent.\<close>

definition vo_bounded :: "VirtualOutputs_T \<Rightarrow> bool" where
  "vo_bounded v \<longleftrightarrow> indoorFan v \<le> MAX_OUTPUT \<and> indoorFanCont v \<le> MAX_OUTPUT \<and> outdoorFan v \<le> MAX_OUTPUT \<and>
     list_all (\<lambda>x. x \<le> MAX_OUTPUT) (indoorStages v) \<and> list_all (\<lambda>x. x \<le> MAX_OUTPUT) (outdoorStages v)"

lemma vo_validate_bounded: "vo_bounded (vo_validate v)"
  by (simp add: vo_bounded_def vo_validate_def clamp_le list_all_iff)

lemma vo_zero_bounded: "vo_bounded vo_zero"
  by (simp add: vo_bounded_def vo_zero_def list_all_iff)

lemma vo_write_bounded: "vo_bounded (m_data (vo_write v r p)) \<or> m_data (vo_write v r p) = m_data p"
  using write_data_cases [of "vo_validate v" r p] vo_validate_bounded [of v] by (auto simp: vo_write_def)

text \<open>The data that an operation stores unchecked.\<close>

fun unclamped :: "vo_op \<Rightarrow> VirtualOutputs_T option" where
  "unclamped (VoCopyFrom src r) = Some (m_data src)"
| "unclamped (VoImport v valid lock) = Some v"
| "unclamped _ = None"

lemma writeData_zero: "m_zero (writeData x r p) = m_zero p"
  by (simp add: writeData_def write_core_def commit_def testAndUpdateLock_def advanceSequenceNumber_def Let_def)

lemma setInvalid_zero: "m_zero (setInvalid r p) = m_zero p" "m_data (setInvalid r p) = m_zero p \<or> m_data (setInvalid r p) = m_data p"
  by (auto simp: setInvalid_def invalid_core_def commit_def testAndUpdateLock_def hookSetInvalid_def advanceSequenceNumber_def Let_def)

lemmas vo_setters = setIndoorFanOutput_def setIndoorFanContinousOutput_def setIndoorStageOutput_def setOutdoorFanOutput_def
  setOutdoorStageOutput_def setSovToCooling_def setSovToHeating_def setOutdoorOff_def setIndoorOff_def mp_setSafeAllOff_def
  mp_setCapacityOff_def

lemma vo_step_zero: "m_zero (vo_step x p) = m_zero p"
  by (cases x) (simp_all add: vo_setters vo_write_def writeData_zero setInvalid_zero touch_def setLockState_def copyFrom_def
      copyDataAndStateFrom_def vo_import_def advanceSequenceNumber_def Let_def)

lemma vo_step_data:
  assumes "m_zero p = vo_zero"
  shows "vo_bounded (m_data (vo_step x p)) \<or> m_data (vo_step x p) = m_data p \<or> unclamped x = Some (m_data (vo_step x p))"
proof (cases x)
  case (VoSetInvalid r)
  then show ?thesis
    using setInvalid_zero(2) [of r p] vo_zero_bounded assms by auto
next
  case (VoCopyFrom src r)
  then show ?thesis
    using setInvalid_zero(2) [of eNO_REQUEST p] vo_zero_bounded assms write_data_cases [of "m_data src" r p]
    by (auto simp: copyFrom_def copyDataAndStateFrom_def)
qed (use vo_write_bounded in \<open>auto simp: vo_setters touch_def setLockState_def vo_import_def advanceSequenceNumber_def Let_def\<close>)

lemma locked_write: "m_locked p \<Longrightarrow> writeData x eNO_REQUEST p = p"
  by (simp add: writeData_def write_core_def testAndUpdateLock_def commit_def)

text \<open>A write that is accepted is read back.\<close>

lemma accepted_write: "\<not> m_locked p \<or> r \<noteq> eNO_REQUEST \<Longrightarrow> readData (writeData x r p) = Some x"
  by (cases r) (auto simp: writeData_def write_core_def testAndUpdateLock_def commit_def readData_def
      advanceSequenceNumber_def Let_def)

subsection \<open>Properties\<close>

text \<open>
  C28. The outputs of the system are in range. After any sequence of operations on a new virtual outputs point, with
  whatever lock requests and invalidations, every output is at most 100 percent, or the point holds exactly the data that
  a copy from another point or an import has stored in it: all writers and setters clamp, only these two do not check.
\<close>

theorem vo_outputs_bounded:
  "vo_bounded (m_data (fold vo_step ops MpVirtualOutputs)) \<or>
   (\<exists>x. x \<in> set ops \<and> unclamped x = Some (m_data (fold vo_step ops MpVirtualOutputs)))"
proof -
  have "m_zero (fold vo_step ops MpVirtualOutputs) = vo_zero"
    by (induction ops rule: rev_induct) (simp_all add: vo_step_zero MpVirtualOutputs_def hookSetInvalid_def ModelPointCommon_def)
  moreover have new: "vo_bounded (m_data MpVirtualOutputs)"
    by (simp add: MpVirtualOutputs_def hookSetInvalid_def ModelPointCommon_def vo_zero_bounded)
  ultimately show ?thesis
  proof (induction ops rule: rev_induct)
    case (snoc x ops)
    then show ?case
      using vo_step_data [of "fold vo_step ops MpVirtualOutputs" x] by (auto simp: vo_step_zero)
  qed simp
qed

text \<open>
  The setters of a single stage drop their lock request. On a locked point the other setters
  obey a request to unlock and update the point, but the stage setters leave it unchanged and locked
  whatever the request is.
\<close>

lemma vo_stage_setters_drop_lock:
  assumes "m_locked p"
  shows "setIndoorStageOutput k v r p = p \<and> setOutdoorStageOutput k v r p = p \<and>
    \<not> m_locked (setIndoorFanOutput v eUNLOCK p) \<and>
    readData (setIndoorFanOutput v eUNLOCK p) = Some (vo_validate ((m_data p)\<lparr>indoorFan := v\<rparr>))"
proof -
  have "\<not> m_locked (writeData x eUNLOCK p)" for x
    by (simp add: writeData_def write_core_def testAndUpdateLock_def commit_def advanceSequenceNumber_def Let_def)
  then show ?thesis
    using assms by (simp add: setIndoorStageOutput_def setOutdoorStageOutput_def setIndoorFanOutput_def
        vo_write_def locked_write accepted_write)
qed

text \<open>
  Turning the capacity off through the model point clears the continuous fan as well, which the helper
  of the same name preserves.
\<close>

lemma capacity_off_clears_fan_continuous:
  assumes "\<not> m_locked p \<or> r \<noteq> eNO_REQUEST"
  shows "\<exists>v. readData (mp_setCapacityOff r p) = Some v \<and> indoorFanCont v = 0"
    and "indoorFanCont (setCapacityOff outputs) = indoorFanCont outputs"
  using accepted_write [OF assms]
  by (simp_all add: mp_setCapacityOff_def vo_write_def setCapacityOff_def vo_validate_def vo_zero_def clamp_def)

end
