(* ===== verification/Equipment.thy ===== *)
theory Equipment
  imports Stage_Api Stage_Frame Virtual_Outputs
begin

text \<open>
  The equipment classes that the control component drives (src/src/Storm/Component/Equipment/):
  Cooling.cpp, IndoorHeating.cpp and Off.cpp. Each decides from the load which stages run, requests
  the changes from the stages (theory Stage_Fsm) and then runs the stages.

  An equipment object holds the addresses of its stages. Its operations work on the store of the
  stages, whose argument block is the \<open>args\<close> parameter, and return the result of the C++ method. The
  thresholds are the default values of the option macros in Cooling.h, IndoorHeating.h and
  Constants.h.
\<close>

datatype equipment = Cooling nat | IndoorHeating nat nat nat | OffEquipment

type_synonym eq_action = "world \<Rightarrow> (bool \<times> world) result"

definition answer :: "bool \<Rightarrow> action \<Rightarrow> eq_action" where
  "answer b f w = bindR (f w) (\<lambda>w. Inr (b, w))"

abbreviation (input) COOLING_TURN_ON_THRESHOLD :: rat where "COOLING_TURN_ON_THRESHOLD \<equiv> 5"
abbreviation (input) COOLING_TURN_OFF_THRESHOLD :: rat where "COOLING_TURN_OFF_THRESHOLD \<equiv> 0"
abbreviation (input) TURN_ON_THRESHOLD :: rat where "TURN_ON_THRESHOLD \<equiv> 5"
abbreviation (input) TURN_OFF_THRESHOLD :: rat where "TURN_OFF_THRESHOLD \<equiv> 0"
abbreviation (input) TURN_ON_2ND_STAGE_THRESHOLD :: rat where "TURN_ON_2ND_STAGE_THRESHOLD \<equiv> 115"
abbreviation (input) TURN_OFF_2ND_STAGE_THRESHOLD :: rat where "TURN_OFF_2ND_STAGE_THRESHOLD \<equiv> 100"
abbreviation (input) TURN_ON_3RD_STAGE_THRESHOLD :: rat where "TURN_ON_3RD_STAGE_THRESHOLD \<equiv> 215"
abbreviation (input) TURN_OFF_3RD_STAGE_THRESHOLD :: rat where "TURN_OFF_3RD_STAGE_THRESHOLD \<equiv> 200"
abbreviation (input) MIN_COMPRESSOR_OFF_TIME_SEC :: u32 where "MIN_COMPRESSOR_OFF_TIME_SEC \<equiv> 300"
abbreviation (input) MIN_INDOOR_HEATER_OFF_TIME_SEC :: u32 where "MIN_INDOOR_HEATER_OFF_TIME_SEC \<equiv> 180"

text \<open>Has the minimum off time of the compressor, or of the indoor heater, been met?\<close>

definition compressor_off_met :: "Args_T \<Rightarrow> bool" where
  "compressor_off_met args =
     (expiredPrecision (outdoorUnitBeginOffTime (equipmentBeginTimes args))
        (Precision_T MIN_COMPRESSOR_OFF_TIME_SEC 0) (currentInterval args)
      \<or> defeatEquipMinOffTime (whiteBox args))"

definition heater_off_met :: "Args_T \<Rightarrow> bool" where
  "heater_off_met args =
     (expiredPrecision (indoorUnitBeginOffTime (equipmentBeginTimes args))
        (Precision_T MIN_INDOOR_HEATER_OFF_TIME_SEC 0) (currentInterval args)
      \<or> defeatEquipMinOffTime (whiteBox args))"

text \<open>The request to switch a stage off once it is in its off cycle or has met its minimum on time.\<close>

definition off_when_met :: "nat \<Rightarrow> nat \<Rightarrow> action" where
  "off_when_met idx s w =
     (let args = w_args w; cfg = stages (systemConfig args)
      in if idx < length cfg then
           if isOffCycle s w
              \<or> expiredPrecision (beginOnTime (cycleInfo args)) (Precision_T (minOnTime (cfg ! idx)) 0) (currentInterval args)
           then requestOff s True w else Inr w
         else Inl OutOfBounds)"

subsection \<open>Cooling\<close>

definition Cooling_singleStage :: "nat \<Rightarrow> eq_action" where
  "Cooling_singleStage m_1StageCooling w =
     (let args = w_args w
      in if \<not> systemOn args \<and> pvOut args > COOLING_TURN_ON_THRESHOLD
         then if compressor_off_met args then answer True (requestOn m_1StageCooling True) w else Inr (True, w)
         else if isActive m_1StageCooling w \<and> pvOut args \<le> COOLING_TURN_OFF_THRESHOLD
         then answer True (off_when_met 0 m_1StageCooling) w
         else Inr (False, w))"

definition Cooling_executeActive :: "nat \<Rightarrow> eq_action" where
  "Cooling_executeActive m_1StageCooling w =
     (if numCompressorStages (systemConfig (w_args w)) = 1
      then bindR (Cooling_singleStage m_1StageCooling w) (\<lambda>(_, w). answer True (execute m_1StageCooling) w)
      else Inr (False, w))"

definition Cooling_executeOff :: "nat \<Rightarrow> eq_action" where
  "Cooling_executeOff m_1StageCooling = answer True (requestModeToOff m_1StageCooling)"

definition Cooling_reset :: "nat \<Rightarrow> action" where
  "Cooling_reset m_1StageCooling w = requestModeToOff m_1StageCooling (reconfigure m_1StageCooling 0 0 w)"

definition Cooling_start :: "nat \<Rightarrow> eq_action" where
  "Cooling_start m_1StageCooling = answer True (Cooling_reset m_1StageCooling)"

subsection \<open>Indoor heating\<close>

definition IndoorHeating_singleStage :: "nat \<Rightarrow> eq_action" where
  "IndoorHeating_singleStage m_1Stage w =
     (let args = w_args w
      in if \<not> systemOn args \<and> pvOut args > TURN_ON_THRESHOLD
         then if heater_off_met args then answer True (requestOn m_1Stage True) w else Inr (True, w)
         else if isActive m_1Stage w \<and> pvOut args \<le> TURN_OFF_THRESHOLD
         then answer True (off_when_met 0 m_1Stage) w
         else Inr (False, w))"

text \<open>The request to add a stage once the active one is on, or off for long enough.\<close>

definition supplement_when_met :: "nat \<Rightarrow> nat \<Rightarrow> action" where
  "supplement_when_met s next w =
     (if isOnCycle s w \<or> (isOffCycle s w \<and> heater_off_met (w_args w))
      then requestAsSupplement s next True w else Inr w)"

definition IndoorHeating_secondStage :: "nat \<Rightarrow> nat \<Rightarrow> eq_action" where
  "IndoorHeating_secondStage m_1Stage m_2Stage w =
     (let args = w_args w
      in if \<not> systemOn args \<and> pvOut args > TURN_ON_2ND_STAGE_THRESHOLD
         then if heater_off_met args
              then answer True (seqA [requestOn m_1Stage True, requestAsSupplement m_1Stage m_2Stage True]) w
              else Inr (True, w)
         else if isActive m_1Stage w \<and> pvOut args > TURN_ON_2ND_STAGE_THRESHOLD
         then answer True (supplement_when_met m_1Stage m_2Stage) w
         else if isActive m_2Stage w \<and> pvOut args \<le> TURN_OFF_2ND_STAGE_THRESHOLD
         then answer True (off_when_met 1 m_2Stage) w
         else Inr (False, w))"

definition IndoorHeating_thirdStage :: "nat \<Rightarrow> nat \<Rightarrow> nat \<Rightarrow> eq_action" where
  "IndoorHeating_thirdStage m_1Stage m_2Stage m_3Stage w =
     (let args = w_args w
      in if \<not> systemOn args \<and> pvOut args > TURN_ON_3RD_STAGE_THRESHOLD
         then if heater_off_met args
              then answer True (seqA [requestOn m_1Stage True, requestAsSupplement m_1Stage m_2Stage True]) w
              else Inr (True, w)
         else if isActive m_1Stage w \<and> pvOut args > TURN_ON_3RD_STAGE_THRESHOLD
         then answer True (supplement_when_met m_1Stage m_2Stage) w
         else if isActive m_2Stage w \<and> pvOut args > TURN_ON_3RD_STAGE_THRESHOLD
         then answer True (supplement_when_met m_2Stage m_3Stage) w
         else if isActive m_3Stage w \<and> pvOut args \<le> TURN_OFF_3RD_STAGE_THRESHOLD
         then answer True (off_when_met 2 m_3Stage) w
         else Inr (False, w))"

definition orElse :: "eq_action \<Rightarrow> eq_action \<Rightarrow> eq_action" where
  "orElse f g w = bindR (f w) (\<lambda>(b, w). if b then Inr (True, w) else g w)"

definition IndoorHeating_executeActive :: "nat \<Rightarrow> nat \<Rightarrow> nat \<Rightarrow> eq_action" where
  "IndoorHeating_executeActive m_1Stage m_2Stage m_3Stage w =
     (let n = numIndoorStages (systemConfig (w_args w))
      in if n = 1 then
           bindR (IndoorHeating_singleStage m_1Stage w) (\<lambda>(_, w). answer True (seqA [execute m_1Stage]) w)
         else if n = 2 then
           bindR (orElse (IndoorHeating_secondStage m_1Stage m_2Stage) (IndoorHeating_singleStage m_1Stage) w)
             (\<lambda>(_, w). answer True (seqA [execute m_1Stage, execute m_2Stage]) w)
         else if n = 3 then
           bindR (orElse (IndoorHeating_thirdStage m_1Stage m_2Stage m_3Stage)
                    (orElse (IndoorHeating_secondStage m_1Stage m_2Stage) (IndoorHeating_singleStage m_1Stage)) w)
             (\<lambda>(_, w). answer True (seqA [execute m_1Stage, execute m_2Stage, execute m_3Stage]) w)
         else Inr (False, w))"

definition IndoorHeating_executeOff :: "nat \<Rightarrow> nat \<Rightarrow> nat \<Rightarrow> eq_action" where
  "IndoorHeating_executeOff m_1Stage m_2Stage m_3Stage =
     answer True (seqA [requestModeToOff m_1Stage, requestModeToOff m_2Stage, requestModeToOff m_3Stage])"

definition IndoorHeating_reset :: "nat \<Rightarrow> nat \<Rightarrow> nat \<Rightarrow> action" where
  "IndoorHeating_reset m_1Stage m_2Stage m_3Stage w =
     seqA [requestModeToOff m_1Stage, requestModeToOff m_2Stage, requestModeToOff m_3Stage]
       (reconfigure m_3Stage 2 2 (reconfigure m_2Stage 1 1 (reconfigure m_1Stage 0 0 w)))"

definition IndoorHeating_start :: "nat \<Rightarrow> nat \<Rightarrow> nat \<Rightarrow> eq_action" where
  "IndoorHeating_start m_1Stage m_2Stage m_3Stage = answer True (IndoorHeating_reset m_1Stage m_2Stage m_3Stage)"

subsection \<open>Off\<close>

definition Off_executeActive :: eq_action where
  "Off_executeActive w =
     (let args = w_args w;
          args = args\<lparr>vOutputs := setCapacityOff (vOutputs args)\<rparr>;
          args = (if systemOn args
                  then args\<lparr>cycleInfo := (cycleInfo args)\<lparr>beginOffTime := currentInterval args\<rparr>\<rparr> else args)
      in Inr (True, upd_args (\<lambda>_. args\<lparr>cycleInfo := (cycleInfo args)\<lparr>mode := eOFF_STATUS\<rparr>, systemOn := False\<rparr>) w))"

definition Off_executeOff :: eq_action where
  "Off_executeOff w = Inr (True, w)"

definition Off_start :: eq_action where
  "Off_start w = Inr (True, w)"

definition Off_reset :: action where
  "Off_reset w = Inr w"

subsection \<open>The virtual calls of Control::Equipment\<close>

fun executeActive :: "equipment \<Rightarrow> eq_action" where
  "executeActive (Cooling c) = Cooling_executeActive c"
| "executeActive (IndoorHeating s1 s2 s3) = IndoorHeating_executeActive s1 s2 s3"
| "executeActive OffEquipment = Off_executeActive"

fun executeOff :: "equipment \<Rightarrow> eq_action" where
  "executeOff (Cooling c) = Cooling_executeOff c"
| "executeOff (IndoorHeating s1 s2 s3) = IndoorHeating_executeOff s1 s2 s3"
| "executeOff OffEquipment = Off_executeOff"

fun eq_start :: "equipment \<Rightarrow> eq_action" where
  "eq_start (Cooling c) = Cooling_start c"
| "eq_start (IndoorHeating s1 s2 s3) = IndoorHeating_start s1 s2 s3"
| "eq_start OffEquipment = Off_start"

fun eq_reset :: "equipment \<Rightarrow> action" where
  "eq_reset (Cooling c) = Cooling_reset c"
| "eq_reset (IndoorHeating s1 s2 s3) = IndoorHeating_reset s1 s2 s3"
| "eq_reset OffEquipment = Off_reset"

fun getOperatingMode :: "equipment \<Rightarrow> OperatingMode" where
  "getOperatingMode (Cooling c) = eCOOLING"
| "getOperatingMode (IndoorHeating s1 s2 s3) = eID_HEATING"
| "getOperatingMode OffEquipment = eOFF"

subsection \<open>Levels\<close>

text \<open>
  A staged system: \<open>ids\<close> are the addresses of the stages from the first to the last. At level \<open>l\<close> the
  stages below the \<open>l\<close>th supplement it, the \<open>l\<close>th runs its duty cycle and the stages above are off;
  each supplemented stage points back to the one below. \<open>placed\<close> is the part of this that concerns the
  \<open>k\<close>th stage (counting from 0).
\<close>

definition level_state :: "nat \<Rightarrow> nat \<Rightarrow> States \<Rightarrow> bool" where
  "level_state l k st \<longleftrightarrow>
     (if Suc k < l then st = SupplementingNextStage
      else if Suc k = l then st \<in> {OnTime, OffTime} else st = Off)"

definition placed :: "nat list \<Rightarrow> nat \<Rightarrow> nat \<Rightarrow> stage \<Rightarrow> bool" where
  "placed ids l k s \<longleftrightarrow> idle s \<and> level_state l k (st_of s) \<and>
     (0 < k \<and> k < l \<longrightarrow> m_supplemented s \<and> m_prevStage s = Some (ids ! (k - 1))) \<and>
     (k = 0 \<and> 0 < l \<longrightarrow> \<not> m_supplemented s)"

definition staged :: "nat list \<Rightarrow> nat \<Rightarrow> world \<Rightarrow> bool" where
  "staged ids l w \<longleftrightarrow> distinct ids \<and> l \<le> length ids \<and> (systemOn (w_args w) \<longleftrightarrow> 0 < l) \<and>
     (\<forall>k < length ids. placed ids l k (w_stages w (ids ! k)) \<and> usable (ids ! k) w \<and>
        m_systemIndex (w_stages w (ids ! k)) = k)"

lemma usable_frame: "frame w w' \<Longrightarrow> usable i w' = usable i w"
  by (auto simp: frame_def identity_of_def inputs_of_def usable_def out_ok_def split: stage_kind.split)

lemma frame_index: "frame w w' \<Longrightarrow> m_systemIndex (w_stages w' i) = m_systemIndex (w_stages w i)"
  by (simp add: frame_def identity_of_def)

lemma stagedD:
  assumes "staged ids l w" "k < length ids"
  shows "at_rest (ids ! k) w" "usable (ids ! k) w" "m_systemIndex (w_stages w (ids ! k)) = k"
    "placed ids l k (w_stages w (ids ! k))" "level_state l k (st_of (w_stages w (ids ! k)))"
  using assms by (auto simp: staged_def at_rest_def placed_def level_state_def split: if_splits)

lemma stagedI:
  assumes "staged ids l w" "frame w w'" "l' \<le> length ids" "systemOn (w_args w') \<longleftrightarrow> 0 < l'"
    and "\<And>k. k < length ids \<Longrightarrow> placed ids l' k (w_stages w' (ids ! k))"
  shows "staged ids l' w'"
  using assms by (simp add: staged_def usable_frame [OF assms(2)] frame_index [OF assms(2)])

lemma placed_level:
  "placed ids l k s \<Longrightarrow> (Suc k < l \<longleftrightarrow> Suc k < l') \<Longrightarrow> (Suc k = l \<longleftrightarrow> Suc k = l') \<Longrightarrow> placed ids l' k s"
  by (auto simp: placed_def level_state_def)

lemma placed_move:
  assumes "placed ids l k s" "idle s'" "level_state l' k (st_of s')" "k < l' \<Longrightarrow> k < l"
    "m_supplemented s' = m_supplemented s" "m_prevStage s' = m_prevStage s"
  shows "placed ids l' k s'"
  using assms by (auto simp: placed_def)

lemma staged_nth_eq:
  "staged ids l w \<Longrightarrow> j < length ids \<Longrightarrow> k < length ids \<Longrightarrow> ids ! j = ids ! k \<longleftrightarrow> j = k"
  by (simp add: staged_def nth_eq_iff_index_eq)

lemma systemOn_simps [simp]:
  "systemOn (begin_on s a) = systemOn a" "systemOn (begin_off s a) = systemOn a"
  "systemOn (snd (enter b s a)) = systemOn a" "systemOn (snd (check_on s a)) = systemOn a"
  "systemOn (snd (check_off s a)) = systemOn a"
  by (simp_all add: begin_on_def begin_off_def enter_def check_on_def check_off_def)

lemma check_systemOn:
  "check_on s a = (up, b) \<Longrightarrow> systemOn b = systemOn a" "check_off s a = (up, b) \<Longrightarrow> systemOn b = systemOn a"
  by (auto simp: check_on_def check_off_def split: if_splits)

lemma enter_cycles: "fst (enter b s a) \<in> {OnTime, OffTime}"
  by (simp add: enter_def)

lemma staged_requestOn:
  assumes "staged ids 0 w" "0 < length ids"
  shows "\<exists>w'. requestOn (ids ! 0) True w = Inr w' \<and> staged ids 1 w' \<and> frame w w'"
proof -
  let ?s = "w_stages w (ids ! 0)"
  let ?t = "(attach w ?s)\<lparr>m_startInOffCycle := False, m_supplemented := False\<rparr>"
  let ?e = "enter False ?s (activate ?s (w_args w))"
  note d = stagedD [OF assms]
  have "st_of ?s = Off"
    using d(5) by (simp add: level_state_def)
  from requestOn_settles [OF d(1,2) this, of True "fst ?e" "snd ?e"] obtain w' where
    w': "requestOn (ids ! 0) True w = Inr w'" and
    s: "settles (ids ! 0) ?t (fst ?e) (currentInterval (w_args w)) (snd ?e) w w'"
    by auto
  have fr: "frame w w'"
    by (rule api_frame(1) [OF w'])
  have "idle ?t"
    using d(4) by (simp add: placed_def idle_def)
  then have 0: "placed ids 1 0 (w_stages w' (ids ! 0))"
    using settles_facts(1,5,7) [OF s] enter_cycles by (simp add: placed_def level_state_def)
  have "staged ids 1 w'"
  proof (rule stagedI [OF assms(1) fr])
    show "systemOn (w_args w') \<longleftrightarrow> 0 < (1 :: nat)"
      using settles_facts(3) [OF s] d(3) by (simp add: activate_def Let_def)
    fix k
    assume k: "k < length ids"
    show "placed ids 1 k (w_stages w' (ids ! k))"
      using 0 settles_facts(6) [OF s, of "ids ! k"] staged_nth_eq [OF assms(1) k assms(2)]
        placed_level [OF stagedD(4) [OF assms(1) k], of 1] by (cases "k = 0") auto
  qed (use assms(2) in \<open>simp add: Suc_le_eq\<close>)
  then show ?thesis
    using w' fr by blast
qed

lemma staged_execute:
  assumes "staged ids l w" "k < length ids"
  shows "\<exists>w'. execute (ids ! k) w = Inr w' \<and> staged ids l w' \<and> frame w w'"
proof -
  let ?s = "w_stages w (ids ! k)"
  note d = stagedD [OF assms]
  obtain st start a where spec: "cycle_spec ?s (w_args w) = (st, start, a)"
    by (cases "cycle_spec ?s (w_args w)")
  from execute_settles [OF d(1,2) spec] obtain w' where w': "execute (ids ! k) w = Inr w'"
    and s: "settles (ids ! k) (attach w ?s) st start a w w'"
    by blast
  have fr: "frame w w'"
    by (rule api_frame(4) [OF w'])
  have st: "st = st_of ?s \<or> {st, st_of ?s} \<subseteq> {OnTime, OffTime}" "systemOn a = systemOn (w_args w)"
    using spec by (auto simp: cycle_spec_def split: if_splits prod.splits dest: check_systemOn)
  have "idle (attach w ?s)"
    using d(4) by (simp add: placed_def idle_def)
  moreover have "level_state l k st"
    using st(1) d(5) by (auto simp: level_state_def split: if_splits)
  ultimately have 0: "placed ids l k (w_stages w' (ids ! k))"
    using settles_facts(1,5,7,8) [OF s] by (intro placed_move [OF d(4)]) simp_all
  have "staged ids l w'"
  proof (rule stagedI [OF assms(1) fr])
    fix j
    assume j: "j < length ids"
    show "placed ids l j (w_stages w' (ids ! j))"
      using 0 settles_facts(6) [OF s, of "ids ! j"] staged_nth_eq [OF assms(1) j assms(2)]
        stagedD(4) [OF assms(1) j] by (cases "j = k") auto
  qed (use assms(1) st settles_facts(3) [OF s] in \<open>simp_all add: staged_def\<close>)
  then show ?thesis
    using w' fr by blast
qed


lemma staged_supplement:
  assumes "staged ids (Suc k) w" "Suc k < length ids"
  shows "\<exists>w'. requestAsSupplement (ids ! k) (ids ! Suc k) True w = Inr w' \<and> staged ids (Suc (Suc k)) w' \<and> frame w w'"
proof -
  let ?si = "w_stages w (ids ! k)" and ?sj = "w_stages w (ids ! Suc k)"
  have k: "k < length ids"
    using assms(2) by simp
  note di = stagedD [OF assms(1) k] and dj = stagedD [OF assms]
  have ne: "ids ! k \<noteq> ids ! Suc k"
    using staged_nth_eq [OF assms(1) k assms(2)] by simp
  have st: "st_of ?si \<in> {OnTime, OffTime}" "st_of ?sj = Off"
    using di(5) dj(5) by (simp_all add: level_state_def)
  define a where "a = snd ((if st_of ?si = OnTime then check_on else check_off) ?si (w_args w))"
  define r where "r = enter (\<not> True) ?sj a"
  have r: "systemOn (snd r) = systemOn (w_args w)" "fst r \<in> {OnTime, OffTime}"
    using enter_cycles by (simp_all add: r_def a_def)
  obtain w' where w1: "requestAsSupplement (ids ! k) (ids ! Suc k) True w = Inr w'"
    and w': "w_args w' = on_out ?si (snd r)"
    "idle (w_stages w' (ids ! k))" "st_of (w_stages w' (ids ! k)) = SupplementingNextStage"
    "m_supplemented (w_stages w' (ids ! k)) = m_supplemented ?si"
    "m_prevStage (w_stages w' (ids ! k)) = m_prevStage ?si"
    "idle (w_stages w' (ids ! Suc k))" "st_of (w_stages w' (ids ! Suc k)) = fst r"
    "m_supplemented (w_stages w' (ids ! Suc k))" "m_prevStage (w_stages w' (ids ! Suc k)) = Some (ids ! k)"
    "\<And>j. j \<noteq> ids ! k \<Longrightarrow> j \<noteq> ids ! Suc k \<Longrightarrow> w_stages w' j = w_stages w j"
    using requestAsSupplement_settles [OF ne di(1,2) st(1) dj(1,2) st(2), of True]
    unfolding a_def [symmetric] r_def [symmetric] by blast
  have fr: "frame w w'"
    by (rule api_frame(3) [OF w1])
  have lower: "placed ids (Suc (Suc k)) k (w_stages w' (ids ! k))"
    by (rule placed_move [OF di(4) w'(2)]) (simp_all add: w'(3-5) level_state_def)
  have upper: "placed ids (Suc (Suc k)) (Suc k) (w_stages w' (ids ! Suc k))"
    using w'(6-9) r(2) by (simp add: placed_def level_state_def)
  have "staged ids (Suc (Suc k)) w'"
  proof (rule stagedI [OF assms(1) fr])
    show "systemOn (w_args w') \<longleftrightarrow> 0 < Suc (Suc k)"
      using r(1) assms(1) by (simp add: w'(1) staged_def)
    fix j
    assume j: "j < length ids"
    have "placed ids (Suc (Suc k)) j (w_stages w' (ids ! j))" if "j \<noteq> k" "j \<noteq> Suc k"
      using w'(10) [of "ids ! j"] staged_nth_eq [OF assms(1) j k] staged_nth_eq [OF assms(1) j assms(2)] that
        placed_level [OF stagedD(4) [OF assms(1) j], of "Suc (Suc k)"] by (auto simp: less_Suc_eq)
    with lower upper show "placed ids (Suc (Suc k)) j (w_stages w' (ids ! j))"
      by blast
  qed (use assms(2) in simp)
  then show ?thesis
    using w1 fr by blast
qed

lemma staged_requestOff_first:
  assumes "staged ids 1 w"
  shows "\<exists>w'. requestOff (ids ! 0) True w = Inr w' \<and> staged ids 0 w' \<and> frame w w'"
proof -
  let ?s = "w_stages w (ids ! 0)"
  have 0: "0 < length ids"
    using assms by (auto simp: staged_def)
  note d = stagedD [OF assms 0]
  have ns: "\<not> m_supplemented ?s"
    using d(4) by (simp add: placed_def)
  let ?c = "if st_of ?s = OnTime then check_on ?s (w_args w) else check_off ?s (w_args w)"
  have "st_of ?s = OnTime \<and> check_on ?s (w_args w) = (fst ?c, snd ?c) \<or>
      st_of ?s = OffTime \<and> check_off ?s (w_args w) = (fst ?c, snd ?c)"
    using d(5) by (auto simp: level_state_def)
  from requestOff_settles [OF d(1,2) ns this, of True] obtain w' where
    w': "requestOff (ids ! 0) True w = Inr w'" and s: "settles (ids ! 0)
      ((attach w ?s)\<lparr>m_requestOffStartInOnCycle := True\<rparr>) Off (m_startTime ?s) (shutdown ?s (snd ?c)) w w'"
    by blast
  have fr: "frame w w'"
    by (rule api_frame(2) [OF w'])
  have "idle ((attach w ?s)\<lparr>m_requestOffStartInOnCycle := True\<rparr>)"
    using d(4) by (simp add: placed_def idle_def)
  then have p: "placed ids 0 0 (w_stages w' (ids ! 0))"
    using settles_facts(1,5) [OF s] by (simp add: placed_def level_state_def)
  have "staged ids 0 w'"
  proof (rule stagedI [OF assms(1) fr])
    show "systemOn (w_args w') \<longleftrightarrow> 0 < (0 :: nat)"
      using settles_facts(3) [OF s] d(3) by (simp add: shutdown_def Let_def)
    fix k
    assume k: "k < length ids"
    show "placed ids 0 k (w_stages w' (ids ! k))"
      using p settles_facts(6) [OF s, of "ids ! k"] staged_nth_eq [OF assms(1) k 0]
        placed_level [OF stagedD(4) [OF assms(1) k], of 0] by (cases "k = 0") auto
  qed simp
  then show ?thesis
    using w' fr by blast
qed

lemma staged_requestOff:
  assumes "staged ids (Suc (Suc k)) w"
  shows "\<exists>w'. requestOff (ids ! Suc k) True w = Inr w' \<and> staged ids (Suc k) w' \<and> frame w w'"
proof -
  let ?si = "w_stages w (ids ! k)" and ?sj = "w_stages w (ids ! Suc k)"
  have k: "k < length ids" "Suc k < length ids"
    using assms by (simp_all add: staged_def)
  note di = stagedD [OF assms k(1)] and dj = stagedD [OF assms k(2)]
  have ne: "ids ! k \<noteq> ids ! Suc k"
    using staged_nth_eq [OF assms k] by simp
  have st: "st_of ?sj \<in> {OnTime, OffTime}" "m_supplemented ?sj" "m_prevStage ?sj = Some (ids ! k)"
    "st_of ?si = SupplementingNextStage"
    using di(5) dj(4,5) by (simp_all add: level_state_def placed_def)
  define a where "a = snd ((if st_of ?sj = OnTime then check_on else check_off) ?sj (w_args w))"
  define r where "r = enter (\<not> True) ?si a"
  have r: "systemOn (snd r) = systemOn (w_args w)" "fst r \<in> {OnTime, OffTime}"
    using enter_cycles by (simp_all add: r_def a_def)
  obtain w' where w1: "requestOff (ids ! Suc k) True w = Inr w'"
    and w': "w_args w' = shutdown ?sj (snd r)"
    "idle (w_stages w' (ids ! Suc k))" "st_of (w_stages w' (ids ! Suc k)) = Off"
    "idle (w_stages w' (ids ! k))" "st_of (w_stages w' (ids ! k)) = fst r"
    "m_supplemented (w_stages w' (ids ! k)) = m_supplemented ?si"
    "m_prevStage (w_stages w' (ids ! k)) = m_prevStage ?si"
    "\<And>j. j \<noteq> ids ! k \<Longrightarrow> j \<noteq> ids ! Suc k \<Longrightarrow> w_stages w' j = w_stages w j"
    using requestOff_supplemented [OF ne dj(1,2) st(1-3) di(1,2) st(4), of True]
    unfolding a_def [symmetric] r_def [symmetric] by blast
  have fr: "frame w w'"
    by (rule api_frame(2) [OF w1])
  have lower: "placed ids (Suc k) k (w_stages w' (ids ! k))"
    using r(2) by (intro placed_move [OF di(4) w'(4)]) (simp_all add: w'(5-7) level_state_def)
  have upper: "placed ids (Suc k) (Suc k) (w_stages w' (ids ! Suc k))"
    using w'(2,3) by (simp add: placed_def level_state_def)
  have "staged ids (Suc k) w'"
  proof (rule stagedI [OF assms(1) fr])
    show "systemOn (w_args w') \<longleftrightarrow> 0 < Suc k"
      using r(1) assms dj(3) by (simp add: w'(1) staged_def shutdown_def Let_def)
    fix j
    assume j: "j < length ids"
    have "placed ids (Suc k) j (w_stages w' (ids ! j))" if "j \<noteq> k" "j \<noteq> Suc k"
      using w'(8) [of "ids ! j"] staged_nth_eq [OF assms(1) j k(1)] staged_nth_eq [OF assms(1) j k(2)] that
        placed_level [OF stagedD(4) [OF assms(1) j], of "Suc k"] by (auto simp: less_Suc_eq)
    with lower upper show "placed ids (Suc k) j (w_stages w' (ids ! j))"
      by blast
  qed (use k in simp)
  then show ?thesis
    using w1 fr by blast
qed

subsection \<open>The stage selection of indoor heating\<close>

text \<open>
  The specification of one execution: the level after it, from the number of configured stages, the
  level before it, the load, and whether the equipment has met its times. \<open>off_met\<close> is the minimum off
  time of the heater, \<open>up\<close> says that the active stage may be supplemented and \<open>down\<close> that it may be
  switched off.
\<close>

definition heating_level :: "nat \<Rightarrow> nat \<Rightarrow> rat \<Rightarrow> bool \<Rightarrow> bool \<Rightarrow> bool \<Rightarrow> nat" where
  "heating_level n l pv off_met up down =
     (if l = 0 then
        if \<not> off_met then 0
        else if 2 \<le> n \<and> pv > TURN_ON_2ND_STAGE_THRESHOLD then 2
        else if pv > TURN_ON_THRESHOLD then 1 else 0
      else if l < n \<and> pv > [TURN_ON_2ND_STAGE_THRESHOLD, TURN_ON_3RD_STAGE_THRESHOLD] ! (l - 1)
        then if up then l + 1 else l
      else if pv \<le> [TURN_OFF_THRESHOLD, TURN_OFF_2ND_STAGE_THRESHOLD, TURN_OFF_3RD_STAGE_THRESHOLD] ! (l - 1)
        then if down then l - 1 else l
      else l)"

definition may_supplement :: "nat \<Rightarrow> world \<Rightarrow> bool" where
  "may_supplement s w \<longleftrightarrow> st_of (w_stages w s) = OnTime \<or> heater_off_met (w_args w)"

definition may_stop :: "nat \<Rightarrow> nat \<Rightarrow> world \<Rightarrow> bool" where
  "may_stop idx s w \<longleftrightarrow> st_of (w_stages w s) = OffTime \<or>
     expiredPrecision (beginOnTime (cycleInfo (w_args w)))
       (Precision_T (minOnTime (stages (systemConfig (w_args w)) ! idx)) 0) (currentInterval (w_args w))"

lemma staged_active:
  assumes "staged ids l w" "k < length ids"
  shows "isActive (ids ! k) w \<longleftrightarrow> Suc k = l"
  using stagedD(5) [OF assms] by (auto simp: level_state_def isActive_def innermost_iff isIn_defs split: if_splits)

lemma cycle_states:
  assumes "st_of (w_stages w i) \<in> {OnTime, OffTime}"
  shows "isOnCycle i w \<longleftrightarrow> st_of (w_stages w i) = OnTime" "isOffCycle i w \<longleftrightarrow> st_of (w_stages w i) = OffTime"
  using assms by (auto simp: isOnCycle_def isOffCycle_def innermost_iff isIn_defs)

lemma staged_supplement_when_met:
  assumes "staged ids (Suc k) w" "Suc k < length ids"
  shows "\<exists>w'. supplement_when_met (ids ! k) (ids ! Suc k) w = Inr w' \<and>
    staged ids (if may_supplement (ids ! k) w then Suc (Suc k) else Suc k) w' \<and> frame w w'"
proof -
  have "st_of (w_stages w (ids ! k)) \<in> {OnTime, OffTime}"
    using stagedD(5) [OF assms(1), of k] assms(2) by (simp add: level_state_def)
  then show ?thesis
    using staged_supplement [OF assms] assms(1)
    by (auto simp: supplement_when_met_def may_supplement_def cycle_states)
qed

lemma staged_off_when_met:
  assumes "staged ids (Suc k) w"
  shows "\<exists>w'. off_when_met k (ids ! k) w = Inr w' \<and>
    staged ids (if may_stop k (ids ! k) w then k else Suc k) w' \<and> frame w w'"
proof -
  have k: "k < length ids"
    using assms by (simp add: staged_def)
  have st: "st_of (w_stages w (ids ! k)) \<in> {OnTime, OffTime}"
    using stagedD(5) [OF assms k] by (simp add: level_state_def)
  have len: "k < length (stages (systemConfig (w_args w)))"
    using stagedD(2,3) [OF assms k] by (simp add: usable_def duty_ok_def)
  have "\<exists>w'. requestOff (ids ! k) True w = Inr w' \<and> staged ids k w' \<and> frame w w'"
    using staged_requestOff_first [of ids w] staged_requestOff [of ids _ w] assms by (cases k) auto
  then show ?thesis
    using len assms by (auto simp: off_when_met_def may_stop_def cycle_states [OF st] Let_def)
qed

lemma staged_turn_on_two:
  assumes "staged ids 0 w" "Suc 0 < length ids"
  shows "\<exists>w'. seqA [requestOn (ids ! 0) True, requestAsSupplement (ids ! 0) (ids ! Suc 0) True] w = Inr w' \<and>
    staged ids 2 w' \<and> frame w w'"
proof -
  obtain w1 where w1: "requestOn (ids ! 0) True w = Inr w1" "staged ids 1 w1" "frame w w1"
    using staged_requestOn [OF assms(1) Suc_lessD [OF assms(2)]] by auto
  obtain w2 where "requestAsSupplement (ids ! 0) (ids ! Suc 0) True w1 = Inr w2" "staged ids 2 w2" "frame w1 w2"
    using staged_supplement [of ids 0 w1] w1(2) assms(2) by (auto simp: numeral_2_eq_2)
  with w1 show ?thesis
    by (auto intro: frame_trans)
qed

lemma staged_executes:
  assumes "staged ids l w" "\<forall>i \<in> set ks. i \<in> set ids"
  shows "\<exists>w'. seqA (map execute ks) w = Inr w' \<and> staged ids l w' \<and> frame w w'"
  using assms
proof (induction ks arbitrary: w)
  case (Cons i ks)
  then obtain k where k: "k < length ids" "ids ! k = i"
    by (auto simp: in_set_conv_nth)
  obtain w1 where "execute i w = Inr w1" "staged ids l w1" "frame w w1"
    using staged_execute [OF Cons.prems(1) k(1)] k(2) by auto
  with Cons show ?case
    by (fastforce intro: frame_trans)
qed simp


text \<open>What a selection does: it decides and moves to a level, or it hands over without a change.\<close>

definition decides :: "nat list \<Rightarrow> nat \<Rightarrow> world \<Rightarrow> (bool \<times> world) result \<Rightarrow> bool" where
  "decides ids l w r \<longleftrightarrow> (\<exists>w'. r = Inr (True, w') \<and> staged ids l w' \<and> frame w w')"

lemma decides_answer [simp]:
  "decides ids l w (answer True f w) \<longleftrightarrow> (\<exists>w'. f w = Inr w' \<and> staged ids l w' \<and> frame w w')"
  by (auto simp: decides_def answer_def)

lemma decides_stay [simp]: "decides ids l w (Inr (True, w)) \<longleftrightarrow> staged ids l w"
  by (simp add: decides_def)

lemma staged_on: "staged ids l w \<Longrightarrow> systemOn (w_args w) \<longleftrightarrow> 0 < l"
  by (simp add: staged_def)

lemma single_off:
  assumes "staged ids 0 w" "0 < length ids"
  shows "if pvOut (w_args w) > TURN_ON_THRESHOLD
    then decides ids (if heater_off_met (w_args w) then 1 else 0) w (IndoorHeating_singleStage (ids ! 0) w)
    else IndoorHeating_singleStage (ids ! 0) w = Inr (False, w)"
  using staged_requestOn [OF assms] assms(1) staged_active [OF assms] staged_on [OF assms(1)]
  by (simp add: IndoorHeating_singleStage_def Let_def)

lemma single_on:
  assumes "staged ids l w" "0 < l" "0 < length ids"
  shows "if l = 1 \<and> pvOut (w_args w) \<le> TURN_OFF_THRESHOLD
    then decides ids (if may_stop 0 (ids ! 0) w then 0 else 1) w (IndoorHeating_singleStage (ids ! 0) w)
    else IndoorHeating_singleStage (ids ! 0) w = Inr (False, w)"
  using staged_off_when_met [of ids 0 w] assms staged_active [OF assms(1,3)] staged_on [OF assms(1)]
  by (auto simp: IndoorHeating_singleStage_def Let_def)

lemma second_off:
  assumes "staged ids 0 w" "Suc 0 < length ids"
  shows "if pvOut (w_args w) > TURN_ON_2ND_STAGE_THRESHOLD
    then decides ids (if heater_off_met (w_args w) then 2 else 0) w (IndoorHeating_secondStage (ids ! 0) (ids ! Suc 0) w)
    else IndoorHeating_secondStage (ids ! 0) (ids ! Suc 0) w = Inr (False, w)"
  using staged_turn_on_two [OF assms] assms(1) staged_on [OF assms(1)]
    staged_active [OF assms(1) Suc_lessD [OF assms(2)]] staged_active [OF assms]
  by (simp add: IndoorHeating_secondStage_def Let_def del: seqA.simps)

lemma second_on:
  assumes "staged ids l w" "0 < l" "Suc 0 < length ids"
  shows "if l = 1 \<and> pvOut (w_args w) > TURN_ON_2ND_STAGE_THRESHOLD
    then decides ids (if may_supplement (ids ! 0) w then 2 else 1) w (IndoorHeating_secondStage (ids ! 0) (ids ! Suc 0) w)
    else if l = 2 \<and> pvOut (w_args w) \<le> TURN_OFF_2ND_STAGE_THRESHOLD
    then decides ids (if may_stop 1 (ids ! Suc 0) w then 1 else 2) w (IndoorHeating_secondStage (ids ! 0) (ids ! Suc 0) w)
    else IndoorHeating_secondStage (ids ! 0) (ids ! Suc 0) w = Inr (False, w)"
  using staged_supplement_when_met [of ids 0 w] staged_off_when_met [of ids 1 w] assms staged_on [OF assms(1)]
    staged_active [OF assms(1) Suc_lessD [OF assms(3)]] staged_active [OF assms(1,3)]
  by (auto simp: IndoorHeating_secondStage_def Let_def numeral_2_eq_2)

lemma third_off:
  assumes "staged ids 0 w" "2 < length ids"
  shows "if pvOut (w_args w) > TURN_ON_3RD_STAGE_THRESHOLD
    then decides ids (if heater_off_met (w_args w) then 2 else 0) w
      (IndoorHeating_thirdStage (ids ! 0) (ids ! Suc 0) (ids ! 2) w)
    else IndoorHeating_thirdStage (ids ! 0) (ids ! Suc 0) (ids ! 2) w = Inr (False, w)"
proof -
  have len: "0 < length ids" "Suc 0 < length ids"
    using assms(2) by auto
  show ?thesis
    using staged_turn_on_two [OF assms(1) len(2)] assms(1) staged_on [OF assms(1)]
      staged_active [OF assms(1) len(1)] staged_active [OF assms(1) len(2)] staged_active [OF assms]
    by (simp add: IndoorHeating_thirdStage_def Let_def del: seqA.simps)
qed

lemma third_on:
  assumes "staged ids l w" "0 < l" "2 < length ids"
  shows "if l = 1 \<and> pvOut (w_args w) > TURN_ON_3RD_STAGE_THRESHOLD
    then decides ids (if may_supplement (ids ! 0) w then 2 else 1) w (IndoorHeating_thirdStage (ids ! 0) (ids ! Suc 0) (ids ! 2) w)
    else if l = 2 \<and> pvOut (w_args w) > TURN_ON_3RD_STAGE_THRESHOLD
    then decides ids (if may_supplement (ids ! Suc 0) w then 3 else 2) w (IndoorHeating_thirdStage (ids ! 0) (ids ! Suc 0) (ids ! 2) w)
    else if l = 3 \<and> pvOut (w_args w) \<le> TURN_OFF_3RD_STAGE_THRESHOLD
    then decides ids (if may_stop 2 (ids ! 2) w then 2 else 3) w (IndoorHeating_thirdStage (ids ! 0) (ids ! Suc 0) (ids ! 2) w)
    else IndoorHeating_thirdStage (ids ! 0) (ids ! Suc 0) (ids ! 2) w = Inr (False, w)"
proof -
  have len: "0 < length ids" "Suc 0 < length ids"
    using assms(3) by auto
  show ?thesis
    using staged_supplement_when_met [of ids 0 w] staged_supplement_when_met [of ids 1 w]
      staged_off_when_met [of ids 2 w] assms staged_on [OF assms(1)]
      staged_active [OF assms(1) len(1)] staged_active [OF assms(1) len(2)] staged_active [OF assms(1,3)]
    by (auto simp: IndoorHeating_thirdStage_def Let_def numeral_2_eq_2 numeral_3_eq_3)
qed


text \<open>The levels that the three selections reach together.\<close>

definition reaches :: "nat list \<Rightarrow> nat \<Rightarrow> world \<Rightarrow> (bool \<times> world) result \<Rightarrow> bool" where
  "reaches ids l w r \<longleftrightarrow> (\<exists>b w'. r = Inr (b, w') \<and> staged ids l w' \<and> frame w w')"

lemma decides_reaches: "decides ids l w r \<Longrightarrow> reaches ids l w r"
  by (auto simp: decides_def reaches_def)

lemma reaches_stay: "staged ids l w \<Longrightarrow> r = Inr (False, w) \<Longrightarrow> reaches ids l w r"
  by (auto simp: reaches_def)

lemma reaches_orElse:
  "decides ids l w (f w) \<Longrightarrow> reaches ids l w (orElse f g w)"
  "f w = Inr (False, w) \<Longrightarrow> reaches ids l w (g w) \<Longrightarrow> reaches ids l w (orElse f g w)"
  by (auto simp: decides_def reaches_def orElse_def)

abbreviation next_level :: "nat list \<Rightarrow> nat \<Rightarrow> nat \<Rightarrow> world \<Rightarrow> nat" where
  "next_level ids n l w \<equiv> heating_level n l (pvOut (w_args w)) (heater_off_met (w_args w))
     (may_supplement (ids ! (l - 1)) w) (may_stop (l - 1) (ids ! (l - 1)) w)"

lemma select_one:
  assumes "staged ids l w" "0 < length ids" "l \<le> 1"
  shows "reaches ids (next_level ids 1 l w) w (IndoorHeating_singleStage (ids ! 0) w)"
proof (cases "l = 0")
  case True
  then show ?thesis
    using single_off [of ids w] assms
    by (auto simp: heating_level_def split: if_splits intro: decides_reaches reaches_stay)
next
  case False
  then show ?thesis
    using single_on [of ids l w] assms
    by (auto simp: heating_level_def le_Suc_eq split: if_splits intro: decides_reaches reaches_stay)
qed

lemma select_two:
  assumes "staged ids l w" "Suc 0 < length ids" "l \<le> 2"
  shows "reaches ids (next_level ids 2 l w) w
    (orElse (IndoorHeating_secondStage (ids ! 0) (ids ! Suc 0)) (IndoorHeating_singleStage (ids ! 0)) w)"
proof (cases "l = 0")
  case True
  then show ?thesis
    using second_off [OF _ assms(2), of w] single_off [OF _ Suc_lessD [OF assms(2)], of w] assms(1)
    by (auto simp: heating_level_def split: if_splits intro: reaches_orElse decides_reaches reaches_stay)
next
  case False
  then have l: "0 < l"
    by simp
  show ?thesis
    using second_on [OF assms(1) l assms(2)] single_on [OF assms(1) l Suc_lessD [OF assms(2)]] assms(1,3) l
    by (auto simp: heating_level_def le_Suc_eq numeral_2_eq_2 split: if_splits
        intro: reaches_orElse decides_reaches reaches_stay)
qed

lemma select_three:
  assumes "staged ids l w" "2 < length ids" "l \<le> 3"
  shows "reaches ids (next_level ids 3 l w) w
    (orElse (IndoorHeating_thirdStage (ids ! 0) (ids ! Suc 0) (ids ! 2))
      (orElse (IndoorHeating_secondStage (ids ! 0) (ids ! Suc 0)) (IndoorHeating_singleStage (ids ! 0))) w)"
proof -
  have len: "0 < length ids" "Suc 0 < length ids"
    using assms(2) by auto
  show ?thesis
  proof (cases "l = 0")
    case True
    then show ?thesis
      using third_off [OF _ assms(2), of w] second_off [OF _ len(2), of w] single_off [OF _ len(1), of w] assms(1)
      by (auto simp: heating_level_def split: if_splits intro: reaches_orElse decides_reaches reaches_stay)
  next
    case False
    then have l: "0 < l"
      by simp
    with assms(3) consider "l = 1" | "l = 2" | "l = 3"
      by linarith
    then show ?thesis
      using third_on [OF assms(1) l assms(2)] second_on [OF assms(1) l len(2)] single_on [OF assms(1) l len(1)]
        assms(1)
      by cases (auto simp: heating_level_def numeral_2_eq_2 numeral_3_eq_3 split: if_splits
          intro: reaches_orElse decides_reaches reaches_stay)
  qed
qed


lemma reaches_executes:
  assumes "reaches ids l w r" "set ks \<subseteq> set ids"
  shows "\<exists>w'. bindR r (\<lambda>(_, w). answer True (seqA (map execute ks)) w) = Inr (True, w') \<and>
    staged ids l w' \<and> frame w w'"
proof -
  obtain b w1 where w1: "r = Inr (b, w1)" "staged ids l w1" "frame w w1"
    using assms(1) by (auto simp: reaches_def)
  obtain w2 where "seqA (map execute ks) w1 = Inr w2" "staged ids l w2" "frame w1 w2"
    using staged_executes [OF w1(2)] assms(2) by blast
  then show ?thesis
    using w1 by (auto simp: answer_def intro: frame_trans)
qed

lemma heating_refines:
  assumes "staged [s1, s2, s3] l w" "numIndoorStages (systemConfig (w_args w)) = n" "n \<in> {1, 2, 3}" "l \<le> n"
  shows "\<exists>w'. IndoorHeating_executeActive s1 s2 s3 w = Inr (True, w') \<and>
    staged [s1, s2, s3] (next_level [s1, s2, s3] n l w) w' \<and> frame w w'"
proof -
  consider "n = 1" | "n = 2" | "n = 3"
    using assms(3) by auto
  then show ?thesis
  proof cases
    case 1
    then show ?thesis
      using reaches_executes [OF select_one [OF assms(1)], of "[s1]"] assms(2,4)
      by (simp add: IndoorHeating_executeActive_def Let_def del: seqA.simps)
  next
    case 2
    then show ?thesis
      using reaches_executes [OF select_two [OF assms(1)], of "[s1, s2]"] assms(2,4)
      by (simp add: IndoorHeating_executeActive_def Let_def del: seqA.simps)
  next
    case 3
    then show ?thesis
      using reaches_executes [OF select_three [OF assms(1)], of "[s1, s2, s3]"] assms(2,4)
      by (simp add: IndoorHeating_executeActive_def Let_def del: seqA.simps)
  qed
qed

subsection \<open>The stage selection of cooling\<close>

definition cooling_level :: "nat \<Rightarrow> rat \<Rightarrow> bool \<Rightarrow> bool \<Rightarrow> nat" where
  "cooling_level l pv off_met down =
     (if l = 0 then if off_met \<and> pv > COOLING_TURN_ON_THRESHOLD then 1 else 0
      else if down \<and> pv \<le> COOLING_TURN_OFF_THRESHOLD then 0 else l)"

lemma cooling_select:
  assumes "staged [c] l w"
  shows "reaches [c] (cooling_level l (pvOut (w_args w)) (compressor_off_met (w_args w)) (may_stop 0 c w)) w
    (Cooling_singleStage c w)"
proof (cases "l = 0")
  case True
  then show ?thesis
    using staged_requestOn [of "[c]" w] staged_on [OF assms] staged_active [OF assms, of 0] assms
    by (auto simp: Cooling_singleStage_def cooling_level_def reaches_def answer_def Let_def)
next
  case False
  then have "l = Suc 0"
    using assms by (simp add: staged_def)
  then show ?thesis
    using staged_off_when_met [of "[c]" 0 w] staged_on [OF assms] staged_active [OF assms, of 0] assms
    by (auto simp: Cooling_singleStage_def cooling_level_def reaches_def answer_def Let_def)
qed

lemma cooling_refines:
  assumes "staged [c] l w" "numCompressorStages (systemConfig (w_args w)) = 1"
  shows "\<exists>w'. Cooling_executeActive c w = Inr (True, w') \<and> frame w w' \<and>
    staged [c] (cooling_level l (pvOut (w_args w)) (compressor_off_met (w_args w)) (may_stop 0 c w)) w'"
proof -
  have one: "seqA [execute c] = execute c"
    by (simp add: fun_eq_iff bindR_def split: sum.split)
  show ?thesis
    using reaches_executes [OF cooling_select [OF assms(1)], of "[c]"] assms(2)
    by (auto simp: Cooling_executeActive_def one simp del: seqA.simps)
qed


text \<open>An off system that may not start yet is left as it is, argument block included.\<close>

lemma off_executes:
  assumes "staged ids 0 w" "k < length ids"
  shows "\<exists>w'. execute (ids ! k) w = Inr w' \<and> staged ids 0 w' \<and> w_args w' = w_args w"
proof -
  note d = stagedD [OF assms]
  have st: "st_of (w_stages w (ids ! k)) = Off"
    using d(5) by (simp add: level_state_def)
  then have "cycle_spec (w_stages w (ids ! k)) (w_args w) = (Off, m_startTime (w_stages w (ids ! k)), w_args w)"
    by (simp add: cycle_spec_def)
  then show ?thesis
    using execute_settles [OF d(1,2)] staged_execute [OF assms] settles_facts(3) by fastforce
qed

lemma off_executes_all:
  assumes "staged ids 0 w" "set ks \<subseteq> set ids"
  shows "\<exists>w'. seqA (map execute ks) w = Inr w' \<and> staged ids 0 w' \<and> w_args w' = w_args w"
  using assms
proof (induction ks arbitrary: w)
  case (Cons i ks)
  then obtain k where "k < length ids" "ids ! k = i"
    by (auto simp: in_set_conv_nth)
  then obtain w1 where w1: "execute i w = Inr w1" "staged ids 0 w1" "w_args w1 = w_args w"
    using off_executes [OF Cons.prems(1)] by metis
  then show ?case
    using Cons.IH [OF w1(2)] Cons.prems(2) by simp
qed simp

lemma orElse_stay:
  "\<exists>b. f w = Inr (b, w) \<Longrightarrow> \<exists>b. g w = Inr (b, w) \<Longrightarrow> \<exists>b. orElse f g w = Inr (b, w)"
  by (auto simp: orElse_def simp del: bindR_eq_Inr)

lemma heating_idle:
  assumes "staged [s1, s2, s3] 0 w" "numIndoorStages (systemConfig (w_args w)) \<in> {1, 2, 3}"
    "\<not> heater_off_met (w_args w)"
  shows "\<exists>w'. IndoorHeating_executeActive s1 s2 s3 w = Inr (True, w') \<and> staged [s1, s2, s3] 0 w' \<and>
    w_args w' = w_args w"
proof -
  let ?n = "numIndoorStages (systemConfig (w_args w))"
  have act: "\<not> systemOn (w_args w)" "\<not> isActive s1 w" "\<not> isActive s2 w" "\<not> isActive s3 w"
    using staged_on [OF assms(1)] staged_active [OF assms(1), of 0] staged_active [OF assms(1), of 1]
      staged_active [OF assms(1), of 2] by simp_all
  have sel: "\<exists>b. IndoorHeating_singleStage s1 w = Inr (b, w)" "\<exists>b. IndoorHeating_secondStage s1 s2 w = Inr (b, w)"
    "\<exists>b. IndoorHeating_thirdStage s1 s2 s3 w = Inr (b, w)"
    using act assms(3) by (auto simp: IndoorHeating_singleStage_def IndoorHeating_secondStage_def
        IndoorHeating_thirdStage_def Let_def)
  have run: "\<exists>w'. seqA (map execute ks) w = Inr w' \<and> staged [s1, s2, s3] 0 w' \<and> w_args w' = w_args w"
    if "set ks \<subseteq> {s1, s2, s3}" for ks
    using off_executes_all [OF assms(1), of ks] that by simp
  have two: "\<exists>b. orElse (IndoorHeating_secondStage s1 s2) (IndoorHeating_singleStage s1) w = Inr (b, w)"
    by (intro orElse_stay sel)
  have three: "\<exists>b. orElse (IndoorHeating_thirdStage s1 s2 s3)
      (orElse (IndoorHeating_secondStage s1 s2) (IndoorHeating_singleStage s1)) w = Inr (b, w)"
    by (intro orElse_stay sel)
  from assms(2) consider "?n = 1" | "?n = 2" | "?n = 3"
    by auto
  then show ?thesis
    using sel(1) two three run [of "[s1]"] run [of "[s1, s2]"] run [of "[s1, s2, s3]"]
    by cases (auto simp: IndoorHeating_executeActive_def answer_def Let_def simp del: seqA.simps bindR_eq_Inr)
qed

lemma cooling_idle:
  assumes "staged [c] 0 w" "numCompressorStages (systemConfig (w_args w)) = 1" "\<not> compressor_off_met (w_args w)"
  shows "\<exists>w'. Cooling_executeActive c w = Inr (True, w') \<and> staged [c] 0 w' \<and> w_args w' = w_args w"
proof -
  have "\<exists>b. Cooling_singleStage c w = Inr (b, w)"
    using staged_on [OF assms(1)] staged_active [OF assms(1), of 0] assms(3)
    by (auto simp: Cooling_singleStage_def Let_def)
  then show ?thesis
    using off_executes [OF assms(1), of 0] assms(2) by (auto simp: Cooling_executeActive_def answer_def)
qed

subsection \<open>Properties\<close>

text \<open>
  C7. Indoor heating always returns and keeps its stages in step. Started from a level of the staged
  system (the stages below the active one supplement it, those above are off, the system is on exactly
  when a stage is active), one execution with one to three configured stages ends at the level that
  the specification \<open>heating_level\<close> gives: no assertion fails, no event queue overflows, and nothing
  but the outputs, the cycle information, the on flag and the test abort flag of the argument block is
  changed.
\<close>

theorem heating_execute_refines_levels:
  assumes "staged [s1, s2, s3] l w" "numIndoorStages (systemConfig (w_args w)) = n" "n \<in> {1, 2, 3}" "l \<le> n"
  shows "\<exists>w'. executeActive (IndoorHeating s1 s2 s3) w = Inr (True, w') \<and> frame w w' \<and>
    staged [s1, s2, s3] (heating_level n l (pvOut (w_args w)) (heater_off_met (w_args w))
      (may_supplement ([s1, s2, s3] ! (l - 1)) w) (may_stop (l - 1) ([s1, s2, s3] ! (l - 1)) w)) w'"
  using heating_refines [OF assms] by auto

definition sample_heating :: "Precision_T \<Rightarrow> world" where
  "sample_heating t = (let w = sample_world eOFF_STATUS (\<lambda>i. sample_stage (BasicIndoorHeat False) i Off OnCycle)
     in w\<lparr>w_args := (w_args w)\<lparr>equipmentBeginTimes := (equipmentBeginTimes (w_args w))\<lparr>
       indoorUnitBeginOffTime := t, outdoorUnitBeginOffTime := t\<rparr>\<rparr>\<rparr>)"

lemma sample_heating_staged: "staged [0, 1, 2] 0 (sample_heating t)"
proof -
  have "placed [0, 1, 2] 0 k (sample_stage (BasicIndoorHeat False) k Off OnCycle)" for k
    using sample_idle [of "BasicIndoorHeat False" k Off OnCycle]
    by (simp add: placed_def level_state_def) (simp add: sample_defs innermost_iff)
  moreover have "usable k (sample_heating t)" if "k < 3" for k
    using that by (simp add: usable_def sample_heating_def sample_defs sample_duty out_ok_def)
  moreover have "w_stages (sample_heating t) = (\<lambda>i. sample_stage (BasicIndoorHeat False) i Off OnCycle)"
    "\<not> systemOn (w_args (sample_heating t))" "m_systemIndex (sample_stage (BasicIndoorHeat False) k Off OnCycle) = k" for k
    by (simp_all add: sample_heating_def sample_defs)
  moreover have "[0, 1, 2] ! k = k" if "k < 3" for k :: nat
    using that by (auto simp: less_Suc_eq numeral_3_eq_3)
  ultimately show ?thesis
    by (simp add: staged_def)
qed

lemma sample_heating_args:
  "pvOut (w_args (sample_heating t)) = 50" "numIndoorStages (systemConfig (w_args (sample_heating t))) = 3"
  "heater_off_met (w_args (sample_heating t)) = expiredPrecision t (Precision_T 180 0) (Precision_T 1600 0)"
  by (simp_all add: sample_heating_def sample_defs sample_config_def heater_off_met_def)

theorem heating_execute_refines_levels_witness:
  "\<exists>w'. executeActive (IndoorHeating 0 1 2) (sample_heating (Precision_T 0 0)) = Inr (True, w') \<and>
     staged [0, 1, 2] 1 w'"
  using heating_execute_refines_levels [OF sample_heating_staged sample_heating_args(2), of "Precision_T 0 0"]
  by (auto simp: sample_heating_args heating_level_def expiredPrecision_def deltaPrecision_def)

text \<open>
  C9. The heater rests. A heating system that is off stays off, and nothing in its argument block
  changes, as long as the indoor unit has been off for less than three minutes and the test flag that
  defeats this protection is not set, however large the load is.
\<close>

theorem heating_waits_for_heater:
  assumes "staged [s1, s2, s3] 0 w" "numIndoorStages (systemConfig (w_args w)) \<in> {1, 2, 3}"
    and "well_formed (indoorUnitBeginOffTime (equipmentBeginTimes (w_args w)))" "well_formed (currentInterval (w_args w))"
    and "(prec_ms (currentInterval (w_args w)) - prec_ms (indoorUnitBeginOffTime (equipmentBeginTimes (w_args w))))
      mod 4294967296000 < 180000" "\<not> defeatEquipMinOffTime (whiteBox (w_args w))"
  shows "\<exists>w'. executeActive (IndoorHeating s1 s2 s3) w = Inr (True, w') \<and> staged [s1, s2, s3] 0 w' \<and>
    w_args w' = w_args w"
proof -
  have "\<not> heater_off_met (w_args w)"
    using assms(3-) expiredPrecision_ms [of "indoorUnitBeginOffTime (equipmentBeginTimes (w_args w))"
      "Precision_T 180 0" "currentInterval (w_args w)"]
    by (simp add: heater_off_met_def) (simp add: prec_ms_def well_formed_def)
  then show ?thesis
    using heating_idle [OF assms(1,2)] by simp
qed

theorem heating_waits_for_heater_witness:
  "\<exists>w'. executeActive (IndoorHeating 0 1 2) (sample_heating (Precision_T 1500 0)) = Inr (True, w') \<and>
     \<not> systemOn (w_args w')"
proof -
  let ?w = "sample_heating (Precision_T 1500 0)"
  have "well_formed (indoorUnitBeginOffTime (equipmentBeginTimes (w_args ?w)))" "well_formed (currentInterval (w_args ?w))"
    "(prec_ms (currentInterval (w_args ?w)) - prec_ms (indoorUnitBeginOffTime (equipmentBeginTimes (w_args ?w))))
      mod 4294967296000 < 180000" "\<not> defeatEquipMinOffTime (whiteBox (w_args ?w))" "\<not> systemOn (w_args ?w)"
    by (simp_all add: sample_heating_def sample_defs well_formed_def prec_ms_def)
  then show ?thesis
    using heating_waits_for_heater [OF sample_heating_staged, of "Precision_T 1500 0"]
    by (fastforce simp: sample_heating_args)
qed


text \<open>
  C8. Cooling with one compressor stage always returns, and switches the stage on and off as the
  specification \<open>cooling_level\<close> says: on when the load exceeds the threshold and the compressor has been
  off for long enough, off when there is no load and the stage is in its off cycle or has met its
  minimum on time.
\<close>

theorem cooling_execute_refines_levels:
  assumes "staged [c] l w" "numCompressorStages (systemConfig (w_args w)) = 1"
  shows "\<exists>w'. executeActive (Cooling c) w = Inr (True, w') \<and> frame w w' \<and>
    staged [c] (cooling_level l (pvOut (w_args w)) (compressor_off_met (w_args w)) (may_stop 0 c w)) w'"
  using cooling_refines [OF assms] by simp

definition sample_cooling :: "Precision_T \<Rightarrow> world" where
  "sample_cooling t = (let w = sample_world eOFF_STATUS (\<lambda>i. sample_stage BasicCooling i Off OnCycle)
     in w\<lparr>w_args := (w_args w)\<lparr>equipmentBeginTimes := (equipmentBeginTimes (w_args w))\<lparr>
       outdoorUnitBeginOffTime := t\<rparr>\<rparr>\<rparr>)"

lemma sample_cooling_staged: "staged [0] 0 (sample_cooling t)"
proof -
  have "placed [0] 0 0 (sample_stage BasicCooling 0 Off OnCycle)"
    using sample_idle [of BasicCooling 0 Off OnCycle]
    by (simp add: placed_def level_state_def) (simp add: sample_defs innermost_iff)
  moreover have "usable 0 (sample_cooling t)"
    by (simp add: usable_def sample_cooling_def sample_defs sample_duty out_ok_def)
  moreover have "w_stages (sample_cooling t) = (\<lambda>i. sample_stage BasicCooling i Off OnCycle)"
    "\<not> systemOn (w_args (sample_cooling t))" "m_systemIndex (sample_stage BasicCooling 0 Off OnCycle) = 0"
    by (simp_all add: sample_cooling_def sample_defs)
  ultimately show ?thesis
    by (simp add: staged_def)
qed

lemma sample_cooling_args:
  "pvOut (w_args (sample_cooling t)) = 50" "numCompressorStages (systemConfig (w_args (sample_cooling t))) = 1"
  "compressor_off_met (w_args (sample_cooling t)) = expiredPrecision t (Precision_T 300 0) (Precision_T 1600 0)"
  by (simp_all add: sample_cooling_def sample_defs sample_config_def compressor_off_met_def)

theorem cooling_execute_refines_levels_witness:
  "\<exists>w'. executeActive (Cooling 0) (sample_cooling (Precision_T 0 0)) = Inr (True, w') \<and> staged [0] 1 w'"
  using cooling_execute_refines_levels [OF sample_cooling_staged sample_cooling_args(2), of "Precision_T 0 0"]
  by (auto simp: sample_cooling_args cooling_level_def expiredPrecision_def deltaPrecision_def)

text \<open>
  The compressor rests: a cooling system that is off stays off, and nothing in its argument block
  changes, as long as the outdoor unit has been off for less than five minutes and the test flag that
  defeats this protection is not set.
\<close>

lemma cooling_waits_for_compressor:
  assumes "staged [c] 0 w" "numCompressorStages (systemConfig (w_args w)) = 1"
    and "well_formed (outdoorUnitBeginOffTime (equipmentBeginTimes (w_args w)))" "well_formed (currentInterval (w_args w))"
    and "(prec_ms (currentInterval (w_args w)) - prec_ms (outdoorUnitBeginOffTime (equipmentBeginTimes (w_args w))))
      mod 4294967296000 < 300000" "\<not> defeatEquipMinOffTime (whiteBox (w_args w))"
  shows "\<exists>w'. executeActive (Cooling c) w = Inr (True, w') \<and> staged [c] 0 w' \<and> w_args w' = w_args w"
proof -
  have "\<not> compressor_off_met (w_args w)"
    using assms(3-) expiredPrecision_ms [of "outdoorUnitBeginOffTime (equipmentBeginTimes (w_args w))"
      "Precision_T 300 0" "currentInterval (w_args w)"]
    by (simp add: compressor_off_met_def) (simp add: prec_ms_def well_formed_def)
  then show ?thesis
    using cooling_idle [OF assms(1,2)] by simp
qed

lemma cooling_waits_for_compressor_witness:
  "\<exists>w'. executeActive (Cooling 0) (sample_cooling (Precision_T 1500 0)) = Inr (True, w') \<and>
     \<not> systemOn (w_args w')"
proof -
  let ?w = "sample_cooling (Precision_T 1500 0)"
  have "well_formed (outdoorUnitBeginOffTime (equipmentBeginTimes (w_args ?w)))" "well_formed (currentInterval (w_args ?w))"
    "(prec_ms (currentInterval (w_args ?w)) - prec_ms (outdoorUnitBeginOffTime (equipmentBeginTimes (w_args ?w))))
      mod 4294967296000 < 300000" "\<not> defeatEquipMinOffTime (whiteBox (w_args ?w))" "\<not> systemOn (w_args ?w)"
    by (simp_all add: sample_cooling_def sample_defs well_formed_def prec_ms_def)
  then show ?thesis
    using cooling_waits_for_compressor [OF sample_cooling_staged sample_cooling_args(2), of "Precision_T 1500 0"]
    by fastforce
qed

end
