(* ===== verification/Component_Base.thy ===== *)
theory Component_Base
  imports Elapsed_Time
begin

text \<open>
  The time keeping that all components of the thermostat inherit (src/src/Storm/Component/Base.cpp).
  The main loop calls \<open>doWork\<close> often; it runs the component's \<open>execute\<close> once per interval and hands it
  the boundary of that interval. The virtual method \<open>execute\<close> is an argument that works on the state of
  the component; the locale \<open>component\<close> states what a component promises about it.
\<close>

record base =
  m_interval :: Precision_T
  m_timeMark :: Precision_T
  m_slipCounter :: u32
  m_timeMarkValid :: bool
  m_started :: bool

text \<open>The constructor leaves the interval and the time mark uninitialised; they are arguments here.\<close>

definition Base :: "Precision_T \<Rightarrow> Precision_T \<Rightarrow> base" where
  "Base interval mark = \<lparr>m_interval = interval, m_timeMark = mark, m_slipCounter = 0,
     m_timeMarkValid = False, m_started = False\<rparr>"

definition setTimeMarker :: "Precision_T \<Rightarrow> base \<Rightarrow> base" where
  "setTimeMarker currentTick b =
     (let i = m_interval b
      in b\<lparr>m_timeMark := Precision_T
             (if m_seconds i = 0 then m_seconds currentTick else (m_seconds currentTick div m_seconds i) * m_seconds i)
             (if m_thousandths i = 0 then m_thousandths currentTick
              else (m_thousandths currentTick div m_thousandths i) * m_thousandths i)\<rparr>)"

text \<open>
  The time keeping of one call: whether the component executes, and the new time marks. A slip is
  counted when the interval after the new mark has expired as well.
\<close>

definition advance_marker :: "Precision_T \<Rightarrow> base \<Rightarrow> base" where
  "advance_marker currentTick b =
     (let b' = (if \<not> m_timeMarkValid b then setTimeMarker currentTick b
                else b\<lparr>m_timeMark := plus_eq (m_timeMark b) (m_interval b)\<rparr>);
          b' = (if m_timeMarkValid b' \<and> expiredPrecision (m_timeMark b') (m_interval b') currentTick
                then setTimeMarker currentTick (b'\<lparr>m_slipCounter := m_slipCounter b' + 1\<rparr>) else b')
      in b'\<lparr>m_timeMarkValid := True\<rparr>)"

type_synonym 's executor = "Precision_T \<Rightarrow> Precision_T \<Rightarrow> 's \<Rightarrow> (bool \<times> 's) result"

definition doWork :: "'s executor \<Rightarrow> bool \<Rightarrow> Precision_T \<Rightarrow> base \<Rightarrow> 's \<Rightarrow> (bool \<times> base \<times> 's) result" where
  "doWork execute enabled currentTick b s =
     (if \<not> m_timeMarkValid b \<or> expiredPrecision (m_timeMark b) (m_interval b) currentTick
      then let b = advance_marker currentTick b
           in if m_started b \<and> enabled
              then bindR (execute currentTick (m_timeMark b) s) (\<lambda>(ok, s). Inr (ok, b, s))
              else Inr (True, b, s)
      else Inr (True, b, s))"

definition base_start :: "Precision_T \<Rightarrow> base \<Rightarrow> base" where
  "base_start intervalTime b =
     b\<lparr>m_interval := intervalTime, m_timeMarkValid := False, m_slipCounter := 0, m_started := True\<rparr>"

definition base_stop :: "base \<Rightarrow> base" where
  "base_stop b = b\<lparr>m_started := False\<rparr>"

text \<open>
  The calls of the main loop: one pass per tick. Before each pass the rest of the program changes the state that it shares
  with the component, which is a parameter.
\<close>

fun main_loop :: "'s executor \<Rightarrow> (('s \<Rightarrow> 's) \<times> Precision_T) list \<Rightarrow> base \<Rightarrow> 's \<Rightarrow> (base \<times> 's) result" where
  "main_loop execute [] b s = Inr (b, s)"
| "main_loop execute ((env, t) # ts) b s =
     bindR (doWork execute True t b (env s)) (\<lambda>(_, b, s). main_loop execute ts b s)"

subsection \<open>The contract of a component\<close>

locale component =
  fixes execute :: "Precision_T \<Rightarrow> Precision_T \<Rightarrow> 's \<Rightarrow> (bool \<times> 's) result"
    and inv :: "'s \<Rightarrow> bool"
  assumes execute_ok: "inv s \<Longrightarrow> \<exists>ok s'. execute tick interval s = Inr (ok, s') \<and> inv s'"
begin

lemma doWork_ok:
  assumes "inv s"
  shows "\<exists>ok b' s'. doWork execute enabled tick b s = Inr (ok, b', s') \<and> inv s'"
proof -
  obtain ok s' where "execute tick (m_timeMark (advance_marker tick b)) s = Inr (ok, s')" "inv s'"
    using execute_ok [OF assms] by blast
  then show ?thesis
    using assms by (auto simp: doWork_def Let_def)
qed

lemma main_loop_ok:
  "inv s \<Longrightarrow> \<forall>env \<in> fst ` set ts. \<forall>s. inv s \<longrightarrow> inv (env s) \<Longrightarrow> \<exists>b' s'. main_loop execute ts b s = Inr (b', s') \<and> inv s'"
proof (induction ts arbitrary: b s)
  case (Cons x ts)
  obtain env t where x: "x = (env, t)"
    by fastforce
  then obtain ok b1 s1 where "doWork execute True t b (env s) = Inr (ok, b1, s1)" "inv s1"
    using Cons.prems doWork_ok [of "env s"] by fastforce
  then show ?case
    using Cons.IH [of s1 b1] Cons.prems(2) x by simp
qed simp

end

subsection \<open>Lemmas\<close>

lemma word_div_mult: "uint (x div y * y :: 'a::len word) = uint x - uint x mod uint y"
proof -
  have "unat (x div y * y) = unat x div unat y * unat y"
  proof -
    have "unat x div unat y * unat y \<le> unat x"
      by simp
    then have "unat x div unat y * unat y < 2 ^ LENGTH('a)"
      using unat_below [of x] by (rule le_less_trans)
    then show ?thesis
      using unat_word_ariths(2) [of "x div y" y] by (simp add: unat_div)
  qed
  then have "uint (x div y * y) = int (unat x div unat y * unat y)"
    by (metis unat_eq_nat_uint uint_nat)
  then show ?thesis
    by (simp add: zmod_int zdiv_int minus_mod_eq_div_mult [symmetric])
qed


lemma marker_gap:
  fixes S T s t I i :: int
  assumes "S - s < I \<or> I = 0 \<and> S = s" "T - t < i \<or> i = 0 \<and> T = t" "0 < I * 1000 + i" "0 \<le> I" "0 \<le> i"
  shows "S * 1000 + T - (s * 1000 + t) < I * 1000 + i"
  using assms by (elim disjE conjE) linarith+

lemma setTimeMarker_ms:
  assumes "well_formed tick" "well_formed (m_interval b)" "prec_ms (m_interval b) > 0"
  shows "well_formed (m_timeMark (setTimeMarker tick b)) \<and>
    prec_ms (m_timeMark (setTimeMarker tick b)) \<le> prec_ms tick \<and>
    prec_ms tick - prec_ms (m_timeMark (setTimeMarker tick b)) < prec_ms (m_interval b)"
proof -
  let ?i = "m_interval b" and ?m = "m_timeMark (setTimeMarker tick b)"
  have s: "uint (m_seconds ?m) = (if m_seconds ?i = 0 then uint (m_seconds tick)
      else uint (m_seconds tick) - uint (m_seconds tick) mod uint (m_seconds ?i))"
    and t: "uint (m_thousandths ?m) = (if m_thousandths ?i = 0 then uint (m_thousandths tick)
      else uint (m_thousandths tick) - uint (m_thousandths tick) mod uint (m_thousandths ?i))"
    by (simp_all add: setTimeMarker_def Let_def word_div_mult)
  have pos: "m_seconds ?i \<noteq> 0 \<Longrightarrow> 0 < uint (m_seconds ?i)" "m_thousandths ?i \<noteq> 0 \<Longrightarrow> 0 < uint (m_thousandths ?i)"
    using uint_ge_0 [of "m_seconds ?i"] uint_ge_0 [of "m_thousandths ?i"] by (simp_all add: less_le uint_0_iff)
  have ds: "0 \<le> uint (m_seconds tick) - uint (m_seconds ?m)"
    "uint (m_seconds tick) - uint (m_seconds ?m) < uint (m_seconds ?i) \<or>
     uint (m_seconds ?i) = 0 \<and> uint (m_seconds tick) = uint (m_seconds ?m)"
    using pos(1) by (simp_all add: s)
  have dt: "0 \<le> uint (m_thousandths tick) - uint (m_thousandths ?m)"
    "uint (m_thousandths tick) - uint (m_thousandths ?m) < uint (m_thousandths ?i) \<or>
     uint (m_thousandths ?i) = 0 \<and> uint (m_thousandths tick) = uint (m_thousandths ?m)"
    using pos(2) by (simp_all add: t)
  have wf: "well_formed ?m"
    using dt(1) thousandths_bounds [OF assms(1)] by (intro well_formedI) linarith
  have "prec_ms tick - prec_ms ?m < prec_ms ?i"
    using marker_gap [OF ds(2) dt(2)] assms(3) by (simp add: prec_ms_def)
  moreover have "prec_ms ?m \<le> prec_ms tick"
    using ds(1) dt(1) by (simp add: prec_ms_def)
  ultimately show ?thesis
    using wf by simp
qed

lemma second_interval:
  fixes e I :: int
  assumes "0 < I" "2 * I < time_range" "e = (now - mark) mod time_range" "I \<le> e"
  shows "(now - (mark + I) mod time_range) mod time_range = e - I"
proof -
  have "(now - (mark + I) mod time_range) mod time_range = ((now - mark) - I) mod time_range"
    by (simp add: mod_diff_right_eq algebra_simps)
  also have "\<dots> = (e - I) mod time_range"
    by (simp add: assms(3) mod_diff_left_eq)
  also have "\<dots> = e - I"
    using assms(1,4) pos_mod_bound [of time_range "now - mark"]
    by (intro mod_pos_pos_trivial) (simp_all add: assms(3))
  finally show ?thesis .
qed

lemma advance_marker_ms:
  fixes tick :: Precision_T and b :: base
  defines "I \<equiv> prec_ms (m_interval b)"
  defines "e \<equiv> (prec_ms tick - prec_ms (m_timeMark b)) mod time_range"
  assumes "m_timeMarkValid b" "well_formed tick" "well_formed (m_timeMark b)" "well_formed (m_interval b)"
    "0 < I" "2 * I < time_range" "I \<le> e"
  shows "advance_marker tick b =
    (if e < 2 * I then b\<lparr>m_timeMark := plus_eq (m_timeMark b) (m_interval b)\<rparr>
     else setTimeMarker tick (b\<lparr>m_slipCounter := m_slipCounter b + 1\<rparr>))"
proof -
  let ?m = "plus_eq (m_timeMark b) (m_interval b)"
  note m = plus_eq_ms [OF assms(5,6)]
  have "expiredPrecision ?m (m_interval b) tick \<longleftrightarrow> I \<le> (prec_ms tick - prec_ms ?m) mod time_range"
    using expiredPrecision_ms [of ?m "m_interval b" tick] m assms(4,6) by (simp add: I_def)
  also have "\<dots> \<longleftrightarrow> 2 * I \<le> e"
    using m second_interval [OF assms(7,8) meta_eq_to_obj_eq [OF e_def] assms(9)] by (simp add: I_def)
  finally show ?thesis
    using assms(3) by (auto simp: advance_marker_def setTimeMarker_def Let_def)
qed

subsection \<open>Properties\<close>

text \<open>
  C25. The cadence of a component. A started component with a valid time mark does not run before its
  interval has passed. When the main loop comes back within the next interval, the component runs once
  and its time mark moves by exactly one interval, so the marks of successive runs are evenly spaced
  however late each run is. When a whole interval was missed, one slip is counted and the mark restarts
  less than one interval before the current tick.
\<close>

theorem component_cadence:
  fixes tick :: Precision_T and b :: base
  defines "I \<equiv> prec_ms (m_interval b)"
  defines "e \<equiv> (prec_ms tick - prec_ms (m_timeMark b)) mod time_range"
  assumes "m_timeMarkValid b" "m_started b"
    and "well_formed tick" "well_formed (m_timeMark b)" "well_formed (m_interval b)" "0 < I" "2 * I < time_range"
  shows "if e < I then doWork execute True tick b s = Inr (True, b, s)
    else \<exists>b'. doWork execute True tick b s
            = bindR (execute tick (m_timeMark b') s) (\<lambda>(ok, s). Inr (ok, b', s)) \<and>
      m_interval b' = m_interval b \<and> m_timeMarkValid b' \<and> m_started b' \<and> well_formed (m_timeMark b') \<and>
      (if e < 2 * I
       then prec_ms (m_timeMark b') = (prec_ms (m_timeMark b) + I) mod time_range \<and> m_slipCounter b' = m_slipCounter b
       else prec_ms (m_timeMark b') \<le> prec_ms tick \<and> prec_ms tick - prec_ms (m_timeMark b') < I \<and>
            m_slipCounter b' = m_slipCounter b + 1)"
proof (cases "e < I")
  case True
  then show ?thesis
    using expiredPrecision_ms [of "m_timeMark b" "m_interval b" tick] assms by (simp add: doWork_def)
next
  case False
  let ?b = "advance_marker tick b"
  have adv: "?b = (if e < 2 * I then b\<lparr>m_timeMark := plus_eq (m_timeMark b) (m_interval b)\<rparr>
     else setTimeMarker tick (b\<lparr>m_slipCounter := m_slipCounter b + 1\<rparr>))"
    using advance_marker_ms [of b tick] False assms by simp
  have "doWork execute True tick b s = bindR (execute tick (m_timeMark ?b) s) (\<lambda>(ok, s). Inr (ok, ?b, s))"
    using expiredPrecision_ms [of "m_timeMark b" "m_interval b" tick] False assms
    by (simp add: doWork_def adv setTimeMarker_def Let_def)
  moreover have "m_interval ?b = m_interval b \<and> m_timeMarkValid ?b \<and> m_started ?b"
    using assms(3,4) by (simp add: adv setTimeMarker_def Let_def)
  moreover have "well_formed (m_timeMark ?b) \<and> (if e < 2 * I
       then prec_ms (m_timeMark ?b) = (prec_ms (m_timeMark b) + I) mod time_range \<and> m_slipCounter ?b = m_slipCounter b
       else prec_ms (m_timeMark ?b) \<le> prec_ms tick \<and> prec_ms tick - prec_ms (m_timeMark ?b) < I \<and>
            m_slipCounter ?b = m_slipCounter b + 1)"
    using plus_eq_ms [OF assms(6,7)] setTimeMarker_ms [of tick "b\<lparr>m_slipCounter := m_slipCounter b + 1\<rparr>"] assms
    by (simp add: adv) (simp add: setTimeMarker_def Let_def)
  ultimately show ?thesis
    using False by (intro iffD2 [OF if_not_P]) (auto intro!: exI [of _ ?b])
qed


theorem component_cadence_witness:
  "\<exists>b'. doWork (\<lambda>t i s. Inr (True, i # s)) True (Precision_T 13 212)
      \<lparr>m_interval = Precision_T 0 100, m_timeMark = Precision_T 13 100, m_slipCounter = 0,
       m_timeMarkValid = True, m_started = True\<rparr> [] = Inr (True, b', [m_timeMark b']) \<and>
     prec_ms (m_timeMark b') = 13200"
  using component_cadence [of "\<lparr>m_interval = Precision_T 0 100, m_timeMark = Precision_T 13 100, m_slipCounter = 0,
       m_timeMarkValid = True, m_started = True\<rparr>" "Precision_T 13 212" "\<lambda>t i s. Inr (True, i # s)" "[]"]
  by (auto simp: well_formed_def prec_ms_def)

text \<open>
  A restarted mark is in general no multiple of the interval: seconds and thousandths are rounded
  independently. With an interval of two seconds and a tick of 5.300 s the mark is 4.300 s.
\<close>

lemma marker_not_on_boundary:
  "m_timeMark (setTimeMarker (Precision_T 5 300) (Base (Precision_T 2 0) (Precision_T 0 0))) = Precision_T 4 300"
  by (simp add: setTimeMarker_def Base_def)

end
