(* ===== verification/Thermostat_Points.thy ===== *)
theory Thermostat_Points
  imports Virtual_Outputs
begin

text \<open>
  The model points of the thermostat (src/src/Storm/Thermostat/ModelPoints.cpp) with their types
  (src/src/Storm/Type/ComfortConfig.cpp, HvacRelayOutputs.h, FanMode.h; src/src/Storm/Dm/Mp*.cpp): the
  range checks of the configuration points, the read-modify-write operations of the others, and one
  record that holds all of them. The components read and write the points of that record; two names of
  an argument list that Algorithm.cpp binds to one point are one field.

  A writer that takes the structure by value is \<open>writeData\<close> itself. The conversions to and from JSON
  text, which rely on the ArduinoJson library, are not modelled.
\<close>

subsection \<open>Comparing with a tolerance\<close>

text \<open>
  writeData skips an update that isDataEqual_() calls equal. The default is a comparison of the bytes;
  points with floating point values override it.
\<close>

definition writeData_by :: "('a \<Rightarrow> 'a \<Rightarrow> bool) \<Rightarrow> 'a \<Rightarrow> LockRequest_T \<Rightarrow> 'a point \<Rightarrow> 'a point" where
  "writeData_by isDataEqual srcData lockRequest p =
     (let (ok, p) = testAndUpdateLock lockRequest p
      in if ok \<and> (\<not> m_valid p \<or> \<not> isDataEqual (m_data p) srcData)
         then advanceSequenceNumber (p\<lparr>m_data := srcData, m_valid := True\<rparr>) else p)"

text \<open>A read leaves the variable of the caller at its default when the point is invalid.\<close>

definition read_or :: "'a \<Rightarrow> 'a point \<Rightarrow> 'a" where
  "read_or dflt p = (case readData p of Some v \<Rightarrow> v | None \<Rightarrow> dflt)"

definition float_write :: "rat \<Rightarrow> rat point \<Rightarrow> rat point" where
  "float_write v = writeData_by areFloatsEqual v eNO_REQUEST"

definition stage_equal :: "Stage_T \<Rightarrow> Stage_T \<Rightarrow> bool" where
  "stage_equal x y \<longleftrightarrow> areFloatsEqual (lowerBound x) (lowerBound y) \<and> areFloatsEqual (upperBound x) (upperBound y) \<and>
     maxIndoorFan x = maxIndoorFan y \<and> minIndoorFan x = minIndoorFan y \<and> cph x = cph y \<and>
     minOffTime x = minOffTime y \<and> minOnTime x = minOnTime y"

definition SystemConfig_isDataEqual :: "SystemConfig_T \<Rightarrow> SystemConfig_T \<Rightarrow> bool" where
  "SystemConfig_isDataEqual x y \<longleftrightarrow>
     list_all (\<lambda>(s, t). stage_equal s t) (zip (take (totalStages x) (stages x)) (take (totalStages x) (stages y))) \<and>
     currentOpMode x = currentOpMode y \<and> indoorUnitType x = indoorUnitType y \<and>
     outdoorUnitType x = outdoorUnitType y \<and> numCompressorStages x = numCompressorStages y \<and>
     numIndoorStages x = numIndoorStages y \<and> fanContinuousSpeed x = fanContinuousSpeed y \<and>
     areFloatsEqual (gain x) (gain y) \<and> areFloatsEqual (reset_time x) (reset_time y) \<and>
     areFloatsEqual (maxPvOut x) (maxPvOut y)"

definition SystemConfig_write :: "SystemConfig_T \<Rightarrow> LockRequest_T \<Rightarrow> SystemConfig_T point \<Rightarrow> SystemConfig_T point" where
  "SystemConfig_write = writeData_by SystemConfig_isDataEqual"

subsection \<open>The system configuration that is off\<close>

definition stage_off :: Stage_T where
  "stage_off = \<lparr>lowerBound = 0, upperBound = 1, minIndoorFan = 0, maxIndoorFan = 0, minOnTime = 300,
     minOffTime = 300, cph = 1\<rparr>"

definition setToOff :: SystemConfig_T where
  "setToOff = \<lparr>stages = replicate OPTION_STORM_MAX_TOTAL_STAGES stage_off, currentOpMode = eOFF,
     outdoorUnitType = eAC, indoorUnitType = eFURNACE, numCompressorStages = 0, numIndoorStages = 0,
     totalStages = 0, fanContinuousSpeed = 0, gain = 1, reset_time = 1, maxPvOut = 1\<rparr>"

definition MpSystemConfig :: "SystemConfig_T point" where
  "MpSystemConfig =
     (let zero = setToOff\<lparr>stages := replicate OPTION_STORM_MAX_TOTAL_STAGES
            \<lparr>lowerBound = 0, upperBound = 0, minIndoorFan = 0, maxIndoorFan = 0, minOnTime = 0,
             minOffTime = 0, cph = 0\<rparr>, indoorUnitType := 0, gain := 0, reset_time := 0, maxPvOut := 0\<rparr>
      in ModelPointCommon setToOff zero True)"

definition mp_setToOff :: "LockRequest_T \<Rightarrow> SystemConfig_T point \<Rightarrow> SystemConfig_T point" where
  "mp_setToOff = SystemConfig_write setToOff"

subsection \<open>Comfort configuration\<close>

record ComfortStageParameters_T =
  cs_minOnTime :: u32
  cs_minOffTime :: u32
  cs_cph :: int

record ComfortConfig_T =
  compressorCooling :: ComfortStageParameters_T
  compressorHeating :: ComfortStageParameters_T
  indoorHeating :: ComfortStageParameters_T

text \<open>The static validate() functions return whether they changed their argument, and the argument.\<close>

definition ComfortStage_validate :: "ComfortStageParameters_T \<Rightarrow> (bool \<times> ComfortStageParameters_T) result" where
  "ComfortStage_validate src =
     (let bad = (cs_cph src \<ge> 5 \<or> cs_cph src < 0);
          src = (if bad then src\<lparr>cs_cph := 1\<rparr> else src)
      in bindR (getMaximumMinOffTime (cs_cph src)) (\<lambda>limit.
         let off = cs_minOffTime src > limit;
             src = (if off then src\<lparr>cs_minOffTime := limit\<rparr> else src)
         in bindR (getMaximumMinOnTime (cs_cph src)) (\<lambda>limit.
            let on = cs_minOnTime src > limit;
                src = (if on then src\<lparr>cs_minOnTime := limit\<rparr> else src)
            in Inr (bad \<or> off \<or> on, src))))"

definition ComfortConfig_validate :: "ComfortConfig_T \<Rightarrow> (bool \<times> ComfortConfig_T) result" where
  "ComfortConfig_validate src =
     bindR (ComfortStage_validate (compressorCooling src)) (\<lambda>(m1, c).
     bindR (ComfortStage_validate (compressorHeating src)) (\<lambda>(m2, h).
     bindR (ComfortStage_validate (indoorHeating src)) (\<lambda>(m3, i).
     Inr (m1 \<or> m2 \<or> m3, \<lparr>compressorCooling = c, compressorHeating = h, indoorHeating = i\<rparr>))))"

definition comfort_defaults :: ComfortStageParameters_T where
  "comfort_defaults = \<lparr>cs_minOnTime = 300, cs_minOffTime = 300, cs_cph = 1\<rparr>"

definition comfort_default :: ComfortConfig_T where
  "comfort_default = \<lparr>compressorCooling = comfort_defaults, compressorHeating = comfort_defaults,
     indoorHeating = comfort_defaults\<rparr>"

definition MpComfortConfig :: "ComfortConfig_T point" where
  "MpComfortConfig = ModelPointCommon comfort_default comfort_default True"

text \<open>write() validates a copy of its argument, and then stores the argument.\<close>

definition ComfortConfig_write :: "ComfortConfig_T \<Rightarrow> LockRequest_T \<Rightarrow> ComfortConfig_T point \<Rightarrow> ComfortConfig_T point result" where
  "ComfortConfig_write newConfiguration lockRequest p =
     bindR (ComfortConfig_validate newConfiguration) (\<lambda>_. Inr (writeData newConfiguration lockRequest p))"

definition writeCompressorCooling :: "ComfortStageParameters_T \<Rightarrow> LockRequest_T \<Rightarrow> ComfortConfig_T point \<Rightarrow> ComfortConfig_T point result" where
  "writeCompressorCooling newParameters lockRequest p =
     bindR (ComfortStage_validate newParameters) (\<lambda>(_, newVal).
     ComfortConfig_write ((m_data p)\<lparr>compressorCooling := newVal\<rparr>) lockRequest p)"

definition writeCompressorHeating :: "ComfortStageParameters_T \<Rightarrow> LockRequest_T \<Rightarrow> ComfortConfig_T point \<Rightarrow> ComfortConfig_T point result" where
  "writeCompressorHeating newParameters lockRequest p =
     bindR (ComfortStage_validate newParameters) (\<lambda>(_, newVal).
     ComfortConfig_write ((m_data p)\<lparr>compressorHeating := newVal\<rparr>) lockRequest p)"

definition writeIndoorHeating :: "ComfortStageParameters_T \<Rightarrow> LockRequest_T \<Rightarrow> ComfortConfig_T point \<Rightarrow> ComfortConfig_T point result" where
  "writeIndoorHeating newParameters lockRequest p =
     bindR (ComfortStage_validate newParameters) (\<lambda>(_, newVal).
     ComfortConfig_write ((m_data p)\<lparr>indoorHeating := newVal\<rparr>) lockRequest p)"

subsection \<open>Equipment configuration\<close>

record EquipmentConfig =
  iduType :: int
  oduType :: int
  numCompStages :: nat
  numIduHeatingStages :: nat
  hasVspBlower :: bool

abbreviation (input) OPTION_STORM_MAX_ELECTRIC_HEATING_STAGES :: nat where "OPTION_STORM_MAX_ELECTRIC_HEATING_STAGES \<equiv> 0"
abbreviation (input) OPTION_STORM_MAX_FURNACE_HEATING_STAGES :: nat where "OPTION_STORM_MAX_FURNACE_HEATING_STAGES \<equiv> 3"
abbreviation (input) OPTION_STORM_MAX_COMPRESSOR_COOLING_STAGES :: nat where "OPTION_STORM_MAX_COMPRESSOR_COOLING_STAGES \<equiv> 1"
abbreviation (input) OPTION_STORM_MAX_COMPRESSOR_HEATING_STAGES :: nat where "OPTION_STORM_MAX_COMPRESSOR_HEATING_STAGES \<equiv> 0"

definition clamp_stages :: "nat \<Rightarrow> nat \<Rightarrow> bool \<times> nat" where
  "clamp_stages limit n = (if n > limit then (True, limit) else (False, n))"

definition EquipmentConfig_validate :: "EquipmentConfig \<Rightarrow> bool \<times> EquipmentConfig" where
  "EquipmentConfig_validate values =
     (let (m1, values) =
            (if iduType values = eAIR_HANDLER
             then let (m, n) = clamp_stages OPTION_STORM_MAX_ELECTRIC_HEATING_STAGES (numIduHeatingStages values)
                  in (m, values\<lparr>numIduHeatingStages := n\<rparr>)
             else if iduType values = eFURNACE
             then let (m, n) = clamp_stages OPTION_STORM_MAX_FURNACE_HEATING_STAGES (numIduHeatingStages values)
                  in (m, values\<lparr>numIduHeatingStages := n\<rparr>)
             else (False, values\<lparr>iduType := eFURNACE, numIduHeatingStages := 0\<rparr>));
          (m2, values) =
            (if oduType values = eAC
             then let (m, n) = clamp_stages OPTION_STORM_MAX_COMPRESSOR_COOLING_STAGES (numCompStages values)
                  in (m, values\<lparr>numCompStages := n\<rparr>)
             else if oduType values = eHP
             then let (m, n) = clamp_stages OPTION_STORM_MAX_COMPRESSOR_HEATING_STAGES (numCompStages values)
                  in (m, values\<lparr>numCompStages := n\<rparr>)
             else (False, values\<lparr>oduType := eAC, numCompStages := 0\<rparr>))
      in (m1 \<or> m2, values))"

definition equipment_default :: EquipmentConfig where
  "equipment_default = \<lparr>iduType = eFURNACE, oduType = eAC, numCompStages = 1, numIduHeatingStages = 1,
     hasVspBlower = False\<rparr>"

definition MpEquipmentConfig :: "EquipmentConfig \<Rightarrow> EquipmentConfig point" where
  "MpEquipmentConfig initial =
     ModelPointCommon (snd (EquipmentConfig_validate initial)) equipment_default True"

definition EquipmentConfig_write :: "EquipmentConfig \<Rightarrow> LockRequest_T \<Rightarrow> EquipmentConfig point \<Rightarrow> EquipmentConfig point" where
  "EquipmentConfig_write newConfiguration lockRequest =
     writeData (snd (EquipmentConfig_validate newConfiguration)) lockRequest"

definition writeIndoorType :: "int \<Rightarrow> LockRequest_T \<Rightarrow> EquipmentConfig point \<Rightarrow> EquipmentConfig point" where
  "writeIndoorType v lockRequest p =
     writeData (snd (EquipmentConfig_validate ((m_data p)\<lparr>iduType := v\<rparr>))) lockRequest p"

definition writeIndoorFanMotor :: "bool \<Rightarrow> LockRequest_T \<Rightarrow> EquipmentConfig point \<Rightarrow> EquipmentConfig point" where
  "writeIndoorFanMotor v lockRequest p =
     writeData (snd (EquipmentConfig_validate ((m_data p)\<lparr>hasVspBlower := v\<rparr>))) lockRequest p"

definition writeIndoorHeatingStages :: "nat \<Rightarrow> LockRequest_T \<Rightarrow> EquipmentConfig point \<Rightarrow> EquipmentConfig point" where
  "writeIndoorHeatingStages v lockRequest p =
     writeData (snd (EquipmentConfig_validate ((m_data p)\<lparr>numIduHeatingStages := v\<rparr>))) lockRequest p"

definition writeOutdoorType :: "int \<Rightarrow> LockRequest_T \<Rightarrow> EquipmentConfig point \<Rightarrow> EquipmentConfig point" where
  "writeOutdoorType v lockRequest p =
     writeData (snd (EquipmentConfig_validate ((m_data p)\<lparr>oduType := v\<rparr>))) lockRequest p"

definition writeCompressorStages :: "nat \<Rightarrow> LockRequest_T \<Rightarrow> EquipmentConfig point \<Rightarrow> EquipmentConfig point" where
  "writeCompressorStages v lockRequest p =
     writeData (snd (EquipmentConfig_validate ((m_data p)\<lparr>numCompStages := v\<rparr>))) lockRequest p"

subsection \<open>Set-points\<close>

record Setpoints =
  coolSetpt :: rat
  heatSetpt :: rat

abbreviation (input) SETPOINTS_MIN_COOLING :: rat where "SETPOINTS_MIN_COOLING \<equiv> 55"
abbreviation (input) SETPOINTS_MAX_COOLING :: rat where "SETPOINTS_MAX_COOLING \<equiv> 95"
abbreviation (input) SETPOINTS_MIN_HEATING :: rat where "SETPOINTS_MIN_HEATING \<equiv> 50"
abbreviation (input) SETPOINTS_MAX_HEATING :: rat where "SETPOINTS_MAX_HEATING \<equiv> 90"

definition validateSetpoints :: "rat \<Rightarrow> rat \<Rightarrow> Setpoints" where
  "validateSetpoints newCooling newHeating =
     (let newCooling = (if newCooling > SETPOINTS_MAX_COOLING then SETPOINTS_MAX_COOLING
                        else if newCooling < SETPOINTS_MIN_COOLING then SETPOINTS_MIN_COOLING else newCooling);
          newHeating = (if newHeating > SETPOINTS_MAX_HEATING then SETPOINTS_MAX_HEATING
                        else if newHeating < SETPOINTS_MIN_HEATING then SETPOINTS_MIN_HEATING else newHeating);
          newHeating = (if newCooling \<le> newHeating then fl32 (newCooling - 1) else newHeating)
      in \<lparr>coolSetpt = newCooling, heatSetpt = newHeating\<rparr>)"

definition MpSetpoints :: "rat \<Rightarrow> rat \<Rightarrow> Setpoints point" where
  "MpSetpoints cool heat = ModelPointCommon (validateSetpoints cool heat)
     \<lparr>coolSetpt = SETPOINTS_MAX_COOLING, heatSetpt = SETPOINTS_MIN_HEATING\<rparr> True"

definition Setpoints_write :: "rat \<Rightarrow> rat \<Rightarrow> LockRequest_T \<Rightarrow> Setpoints point \<Rightarrow> Setpoints point" where
  "Setpoints_write newCoolingSetpoint newHeatingSetpoint lockRequest =
     writeData (validateSetpoints newCoolingSetpoint newHeatingSetpoint) lockRequest"

definition writeCool :: "rat \<Rightarrow> LockRequest_T \<Rightarrow> Setpoints point \<Rightarrow> Setpoints point" where
  "writeCool newSetpoint lockRequest p = writeData (validateSetpoints newSetpoint (heatSetpt (m_data p))) lockRequest p"

definition writeHeat :: "rat \<Rightarrow> LockRequest_T \<Rightarrow> Setpoints point \<Rightarrow> Setpoints point" where
  "writeHeat newSetpoint lockRequest p = writeData (validateSetpoints (coolSetpt (m_data p)) newSetpoint) lockRequest p"

subsection \<open>Alarms\<close>

record SimpleAlarm =
  active :: bool
  acked :: bool
  critical :: bool

definition MpSimpleAlarm :: "SimpleAlarm point" where
  "MpSimpleAlarm = ModelPointCommon \<lparr>active = False, acked = False, critical = False\<rparr>
     \<lparr>active = False, acked = False, critical = False\<rparr> True"

definition setAlarm :: "bool \<Rightarrow> bool \<Rightarrow> LockRequest_T \<Rightarrow> SimpleAlarm point \<Rightarrow> SimpleAlarm point" where
  "setAlarm isActive isCritical lockRequest p =
     writeData \<lparr>active = isActive, acked = (if isActive \<noteq> active (m_data p) then False else acked (m_data p)),
       critical = isCritical\<rparr> lockRequest p"

definition acknowledgeAlarm :: "LockRequest_T \<Rightarrow> SimpleAlarm point \<Rightarrow> SimpleAlarm point" where
  "acknowledgeAlarm lockRequest p = writeData ((m_data p)\<lparr>acked := True\<rparr>) lockRequest p"

record IdtAlarm =
  primaryAlarm :: bool
  primaryAck :: bool
  secondaryAlarm :: bool
  secondaryAck :: bool
  idt_critical :: bool

definition MpIdtAlarm :: "IdtAlarm point" where
  "MpIdtAlarm = (let zero = \<lparr>primaryAlarm = False, primaryAck = False, secondaryAlarm = False,
     secondaryAck = False, idt_critical = False\<rparr> in ModelPointCommon zero zero True)"

definition idt_setAlarm :: "bool \<Rightarrow> bool \<Rightarrow> bool \<Rightarrow> LockRequest_T \<Rightarrow> IdtAlarm point \<Rightarrow> IdtAlarm point" where
  "idt_setAlarm primaryAlarmState secondaryAlarmState isCritical lockRequest p =
     (let d = m_data p
      in writeData \<lparr>primaryAlarm = primaryAlarmState,
           primaryAck = (if primaryAlarmState \<and> \<not> primaryAlarm d then False else primaryAck d),
           secondaryAlarm = secondaryAlarmState,
           secondaryAck = (if secondaryAlarmState \<and> \<not> secondaryAlarm d then False else secondaryAck d),
           idt_critical = isCritical\<rparr> lockRequest p)"

definition acknowledgePrimaryAlarm :: "LockRequest_T \<Rightarrow> IdtAlarm point \<Rightarrow> IdtAlarm point" where
  "acknowledgePrimaryAlarm lockRequest p = writeData ((m_data p)\<lparr>primaryAck := True\<rparr>) lockRequest p"

definition acknowledgeSecondaryAlarm :: "LockRequest_T \<Rightarrow> IdtAlarm point \<Rightarrow> IdtAlarm point" where
  "acknowledgeSecondaryAlarm lockRequest p = writeData ((m_data p)\<lparr>secondaryAck := True\<rparr>) lockRequest p"

subsection \<open>Relay outputs\<close>

record HvacRelayOutputs_T =
  relay_g :: bool
  relay_bk :: u8
  relay_w1 :: bool
  relay_w2 :: bool
  relay_w3 :: bool
  relay_o :: bool
  relay_y1 :: bool
  relay_y2 :: bool

definition relays_zero :: HvacRelayOutputs_T where
  "relays_zero = \<lparr>relay_g = False, relay_bk = 0, relay_w1 = False, relay_w2 = False, relay_w3 = False,
     relay_o = False, relay_y1 = False, relay_y2 = False\<rparr>"

definition MpHvacRelayOutputs :: "HvacRelayOutputs_T point" where
  "MpHvacRelayOutputs = ModelPointCommon relays_zero relays_zero True"

definition relays_validate :: "HvacRelayOutputs_T \<Rightarrow> HvacRelayOutputs_T" where
  "relays_validate newValues = (if relay_bk newValues > 100 then newValues\<lparr>relay_bk := 100\<rparr> else newValues)"

definition relays_write :: "HvacRelayOutputs_T \<Rightarrow> LockRequest_T \<Rightarrow> HvacRelayOutputs_T point \<Rightarrow> HvacRelayOutputs_T point" where
  "relays_write srcData lockRequest = writeData (relays_validate srcData) lockRequest"

definition relays_setSafeAllOff :: "HvacRelayOutputs_T \<Rightarrow> HvacRelayOutputs_T" where
  "relays_setSafeAllOff outputs = outputs\<lparr>relay_bk := 0, relay_g := False, relay_w1 := False,
     relay_w2 := False, relay_w3 := False, relay_y1 := False, relay_y2 := False\<rparr>"

definition relays_setCapacityOff :: "HvacRelayOutputs_T \<Rightarrow> HvacRelayOutputs_T" where
  "relays_setCapacityOff outputs = outputs\<lparr>relay_w1 := False, relay_w2 := False, relay_w3 := False,
     relay_y1 := False, relay_y2 := False\<rparr>"

text \<open>Both operations of the point start from a local structure that is not initialised: \<open>newData\<close>.\<close>

definition mp_relays_setSafeAllOff :: "HvacRelayOutputs_T \<Rightarrow> LockRequest_T \<Rightarrow> HvacRelayOutputs_T point \<Rightarrow> HvacRelayOutputs_T point" where
  "mp_relays_setSafeAllOff newData lockRequest p =
     relays_write ((relays_setSafeAllOff newData)\<lparr>relay_o := relay_o (m_data p)\<rparr>) lockRequest p"

definition mp_relays_setCapacityOff :: "HvacRelayOutputs_T \<Rightarrow> LockRequest_T \<Rightarrow> HvacRelayOutputs_T point \<Rightarrow> HvacRelayOutputs_T point" where
  "mp_relays_setCapacityOff newData lockRequest p =
     relays_write ((relays_setCapacityOff newData)\<lparr>relay_o := relay_o (m_data p)\<rparr>) lockRequest p"

subsection \<open>White box, cycle information and equipment times\<close>

definition MpWhiteBox :: "WhiteBox_T point" where
  "MpWhiteBox = hookSetInvalid (ModelPointCommon \<lparr>defeatEquipMinOffTime = False, abortOnOffCycle = False\<rparr>
     \<lparr>defeatEquipMinOffTime = False, abortOnOffCycle = False\<rparr> True)"

definition resetPulseSettings :: "LockRequest_T \<Rightarrow> WhiteBox_T point \<Rightarrow> WhiteBox_T point" where
  "resetPulseSettings lockRequest p = writeData ((m_data p)\<lparr>abortOnOffCycle := False\<rparr>) lockRequest p"

datatype FanMode = eAUTO | eCONTINUOUS

definition cycle_zero :: CycleInfo_T where
  "cycle_zero = \<lparr>beginOnTime = Precision_T 0 0, beginOffTime = Precision_T 0 0, onTime = 0, offTime = 0,
     mode = eOFF_STATUS\<rparr>"

definition MpCycleInfo :: "CycleInfo_T point" where
  "MpCycleInfo = ModelPointCommon cycle_zero cycle_zero True"

definition setOnTime :: "u32 \<Rightarrow> LockRequest_T \<Rightarrow> CycleInfo_T point \<Rightarrow> CycleInfo_T point" where
  "setOnTime v lockRequest p = writeData ((m_data p)\<lparr>onTime := v\<rparr>) lockRequest p"

definition setOffTime :: "u32 \<Rightarrow> LockRequest_T \<Rightarrow> CycleInfo_T point \<Rightarrow> CycleInfo_T point" where
  "setOffTime v lockRequest p = writeData ((m_data p)\<lparr>offTime := v\<rparr>) lockRequest p"

definition setBeginOnTime :: "Precision_T \<Rightarrow> LockRequest_T \<Rightarrow> CycleInfo_T point \<Rightarrow> CycleInfo_T point" where
  "setBeginOnTime v lockRequest p = writeData ((m_data p)\<lparr>beginOnTime := v\<rparr>) lockRequest p"

definition setBeginOffTime :: "Precision_T \<Rightarrow> LockRequest_T \<Rightarrow> CycleInfo_T point \<Rightarrow> CycleInfo_T point" where
  "setBeginOffTime v lockRequest p = writeData ((m_data p)\<lparr>beginOffTime := v\<rparr>) lockRequest p"

definition setMode :: "CycleStatus \<Rightarrow> LockRequest_T \<Rightarrow> CycleInfo_T point \<Rightarrow> CycleInfo_T point" where
  "setMode v lockRequest p = writeData ((m_data p)\<lparr>mode := v\<rparr>) lockRequest p"

definition times_zero :: EquipmentTimes_T where
  "times_zero = \<lparr>outdoorUnitBeginOnTime = Precision_T 0 0, outdoorUnitBeginOffTime = Precision_T 0 0,
     indoorUnitBeginOnTime = Precision_T 0 0, indoorUnitBeginOffTime = Precision_T 0 0,
     systemBeginOnTime = Precision_T 0 0, systemBeginOffTime = Precision_T 0 0\<rparr>"

definition MpEquipmentBeginTimes :: "EquipmentTimes_T point" where
  "MpEquipmentBeginTimes = ModelPointCommon times_zero times_zero True"

definition setIndoorUnitBeginOnTime :: "Precision_T \<Rightarrow> LockRequest_T \<Rightarrow> EquipmentTimes_T point \<Rightarrow> EquipmentTimes_T point" where
  "setIndoorUnitBeginOnTime v lockRequest p = writeData ((m_data p)\<lparr>indoorUnitBeginOnTime := v\<rparr>) lockRequest p"

definition setIndoorUnitBeginOffTime :: "Precision_T \<Rightarrow> LockRequest_T \<Rightarrow> EquipmentTimes_T point \<Rightarrow> EquipmentTimes_T point" where
  "setIndoorUnitBeginOffTime v lockRequest p = writeData ((m_data p)\<lparr>indoorUnitBeginOffTime := v\<rparr>) lockRequest p"

definition setOutdoorUnitBeginOnTime :: "Precision_T \<Rightarrow> LockRequest_T \<Rightarrow> EquipmentTimes_T point \<Rightarrow> EquipmentTimes_T point" where
  "setOutdoorUnitBeginOnTime v lockRequest p = writeData ((m_data p)\<lparr>outdoorUnitBeginOnTime := v\<rparr>) lockRequest p"

definition setOutdoorUnitBeginOffTime :: "Precision_T \<Rightarrow> LockRequest_T \<Rightarrow> EquipmentTimes_T point \<Rightarrow> EquipmentTimes_T point" where
  "setOutdoorUnitBeginOffTime v lockRequest p = writeData ((m_data p)\<lparr>outdoorUnitBeginOffTime := v\<rparr>) lockRequest p"

definition setSystemBeginOnTime :: "Precision_T \<Rightarrow> LockRequest_T \<Rightarrow> EquipmentTimes_T point \<Rightarrow> EquipmentTimes_T point" where
  "setSystemBeginOnTime v lockRequest p = writeData ((m_data p)\<lparr>systemBeginOnTime := v\<rparr>) lockRequest p"

definition setSystemBeginOffTime :: "Precision_T \<Rightarrow> LockRequest_T \<Rightarrow> EquipmentTimes_T point \<Rightarrow> EquipmentTimes_T point" where
  "setSystemBeginOffTime v lockRequest p = writeData ((m_data p)\<lparr>systemBeginOffTime := v\<rparr>) lockRequest p"

subsection \<open>All model points of the thermostat\<close>

record points =
  mp_primaryRawIdt :: "rat point"
  mp_secondaryRawIdt :: "rat point"
  mp_enabledSecondaryIdt :: "bool point"
  mp_activeIdt :: "rat point"
  mp_outdoorTemp :: "rat point"
  mp_idtAlarms :: "IdtAlarm point"
  mp_systemForcedOffRefCnt :: "u32 point"
  mp_noActiveConditioningAlarm :: "SimpleAlarm point"
  mp_systemConfig :: "SystemConfig_T point"
  mp_equipmentConfig :: "EquipmentConfig point"
  mp_setpoints :: "Setpoints point"
  mp_userMode :: "ThermostatMode point"
  mp_systemOn :: "bool point"
  mp_equipmentBeginTimes :: "EquipmentTimes_T point"
  mp_resetPiPulse :: "bool point"
  mp_operatingModeChanged :: "bool point"
  mp_userCfgModeAlarm :: "SimpleAlarm point"
  mp_deltaIdtError :: "rat point"
  mp_deltaSetpoint :: "rat point"
  mp_setpointChanged :: "bool point"
  mp_activeSetpoint :: "rat point"
  mp_freezePiRefCnt :: "u32 point"
  mp_inhibitfRefCnt :: "u32 point"
  mp_pvOut :: "rat point"
  mp_sumError :: "rat point"
  mp_pvInhibited :: "bool point"
  mp_vOutputs :: vo_point
  mp_cycleInfo :: "CycleInfo_T point"
  mp_comfortConfig :: "ComfortConfig_T point"
  mp_fanMode :: "FanMode point"
  mp_relayOutputs :: "HvacRelayOutputs_T point"
  mp_loopCounter :: "u32 point"
  mp_whiteBox :: "WhiteBox_T point"
  mp_maxAirFilterHours :: "u32 point"
  mp_airFilterAlert :: "SimpleAlarm point"
  mp_airFilterOperationTime :: "Precision_T point"

abbreviation (input) MpFloat :: "rat point" where "MpFloat \<equiv> ModelPointCommon 0 0 False"
abbreviation (input) MpBool :: "bool point" where "MpBool \<equiv> ModelPointCommon False False False"
abbreviation (input) MpUint32 :: "u32 point" where "MpUint32 \<equiv> ModelPointCommon 0 0 False"

definition model_points :: points where
  "model_points = \<lparr>
     mp_primaryRawIdt = MpFloat, mp_secondaryRawIdt = MpFloat, mp_enabledSecondaryIdt = MpBool,
     mp_activeIdt = MpFloat, mp_outdoorTemp = MpFloat, mp_idtAlarms = MpIdtAlarm, mp_systemForcedOffRefCnt = MpUint32,
     mp_noActiveConditioningAlarm = MpSimpleAlarm, mp_systemConfig = MpSystemConfig,
     mp_equipmentConfig = MpEquipmentConfig equipment_default, mp_setpoints = MpSetpoints 78 68,
     mp_userMode = ModelPointCommon tmOFF tmOFF False, mp_systemOn = MpBool,
     mp_equipmentBeginTimes = MpEquipmentBeginTimes, mp_resetPiPulse = MpBool, mp_operatingModeChanged = MpBool,
     mp_userCfgModeAlarm = MpSimpleAlarm, mp_deltaIdtError = MpFloat, mp_deltaSetpoint = MpFloat,
     mp_setpointChanged = MpBool, mp_activeSetpoint = MpFloat, mp_freezePiRefCnt = MpUint32,
     mp_inhibitfRefCnt = MpUint32, mp_pvOut = MpFloat, mp_sumError = MpFloat, mp_pvInhibited = MpBool,
     mp_vOutputs = MpVirtualOutputs, mp_cycleInfo = MpCycleInfo, mp_comfortConfig = MpComfortConfig,
     mp_fanMode = ModelPointCommon eAUTO eAUTO False, mp_relayOutputs = MpHvacRelayOutputs,
     mp_loopCounter = MpUint32,
     mp_whiteBox = MpWhiteBox,
     mp_maxAirFilterHours = MpUint32, mp_airFilterAlert = MpSimpleAlarm,
     mp_airFilterOperationTime = ModelPointCommon (Precision_T 0 0) (Precision_T 0 0) False\<rparr>"

subsection \<open>Reading back what was written\<close>

lemma write_valid_locked:
  "m_valid p \<Longrightarrow> m_valid (writeData x r p)"
  "m_locked (writeData x eNO_REQUEST p) = m_locked p"
  "m_zero (writeData x r p) = m_zero p"
  by (auto simp: writeData_def write_core_def testAndUpdateLock_def commit_def advanceSequenceNumber_def Let_def)

lemma unlocked_write:
  assumes "\<not> m_locked p"
  shows "m_data (writeData x eNO_REQUEST p) = x" "m_valid (writeData x eNO_REQUEST p)"
  using assms by (auto simp: writeData_def write_core_def testAndUpdateLock_def commit_def advanceSequenceNumber_def Let_def)

lemma unlocked_write_by:
  assumes "\<not> m_locked p"
  shows "m_valid (writeData_by same x eNO_REQUEST p)" "\<not> m_locked (writeData_by same x eNO_REQUEST p)"
    "m_data (writeData_by same x eNO_REQUEST p) = (if m_valid p \<and> same (m_data p) x then m_data p else x)"
  using assms by (auto simp: writeData_by_def testAndUpdateLock_def advanceSequenceNumber_def Let_def)

subsection \<open>Set-points stay in range\<close>

datatype sp_op = SpWrite rat rat LockRequest_T | SpCool rat LockRequest_T | SpHeat rat LockRequest_T
  | SpInvalid LockRequest_T

fun sp_step :: "sp_op \<Rightarrow> Setpoints point \<Rightarrow> Setpoints point" where
  "sp_step (SpWrite c h r) = Setpoints_write c h r"
| "sp_step (SpCool c r) = writeCool c r"
| "sp_step (SpHeat h r) = writeHeat h r"
| "sp_step (SpInvalid r) = setInvalid r"

definition setpoints_ok :: "Setpoints \<Rightarrow> bool" where
  "setpoints_ok d \<longleftrightarrow> 55 \<le> coolSetpt d \<and> coolSetpt d \<le> 95 \<and> 50 \<le> heatSetpt d \<and> heatSetpt d \<le> 90 \<and>
     heatSetpt d < coolSetpt d"

lemma fl32_pred_less:
  assumes "\<bar>c\<bar> < 1000000"
  shows "fl32 (c - 1) < c"
proof -
  define k where "k = \<lceil>c\<rceil> - 1"
  have "c - 1 \<le> of_int k" "of_int k < c"
    unfolding k_def by linarith+
  moreover have "fl32 (of_int k) = of_int k"
    by (rule fl32_of_int) (use assms in \<open>simp add: k_def, linarith\<close>)
  ultimately show ?thesis
    using fl32_mono [of "c - 1" "of_int k"] by simp
qed

lemma validateSetpoints_ok: "setpoints_ok (validateSetpoints c h)"
proof -
  define x where "x = (if c > 95 then 95 else if c < 55 then 55 else c)"
  define y where "y = (if h > 90 then 90 else if h < 50 then 50 else h)"
  have x: "55 \<le> x" "x \<le> 95" and y: "50 \<le> y" "y \<le> 90"
    by (simp_all add: x_def y_def)
  then have "50 \<le> fl32 (x - 1)" "fl32 (x - 1) < x"
    using fl32_mono [of 50 "x - 1"] fl32_pred_less [of x] by simp_all
  moreover have "validateSetpoints c h = \<lparr>coolSetpt = x, heatSetpt = (if x \<le> y then fl32 (x - 1) else y)\<rparr>"
    by (simp add: validateSetpoints_def x_def y_def Let_def)
  ultimately show ?thesis
    using x y by (simp add: setpoints_ok_def)
qed

definition sp_inv :: "Setpoints point \<Rightarrow> bool" where
  "sp_inv p \<longleftrightarrow> setpoints_ok (m_data p) \<and> setpoints_ok (m_zero p)"

lemma sp_step_inv:
  assumes "sp_inv p"
  shows "sp_inv (sp_step x p)"
proof -
  have "sp_inv (writeData (validateSetpoints c h) r p)" for c h r
    using assms write_data_cases [of "validateSetpoints c h" r p] validateSetpoints_ok [of c h]
    by (auto simp: sp_inv_def write_valid_locked)
  moreover have "sp_inv (setInvalid r p)" for r
    using assms by (auto simp: sp_inv_def setInvalid_def invalid_core_def testAndUpdateLock_def commit_def
        advanceSequenceNumber_def hookSetInvalid_def Let_def)
  ultimately show ?thesis
    by (cases x) (auto simp: Setpoints_write_def writeCool_def writeHeat_def)
qed

text \<open>
  C17. Whatever set-points are written, one at a time or together, with whatever lock requests and
  invalidations in between: the cooling set-point stays between 55 and 95 degrees, the heating set-point
  between 50 and 90, and the heating set-point below the cooling set-point, so that the thermostat never
  heats and cools for the same temperature.
\<close>

theorem setpoints_in_range: "setpoints_ok (m_data (fold sp_step ops (MpSetpoints c h)))"
proof -
  have "sp_inv (MpSetpoints c h)"
    using validateSetpoints_ok [of c h] by (simp add: MpSetpoints_def ModelPointCommon_def sp_inv_def setpoints_ok_def)
  then have "sp_inv (fold sp_step ops (MpSetpoints c h))"
    by (induction ops rule: rev_induct) (simp_all add: sp_step_inv)
  then show ?thesis
    by (simp add: sp_inv_def)
qed

subsection \<open>The configuration points\<close>

definition comfort_stage_ok :: "ComfortStageParameters_T \<Rightarrow> bool" where
  "comfort_stage_ok s \<longleftrightarrow> (case maxMinimumTimeLimits (cs_cph s) of
     Inl _ \<Rightarrow> False | Inr limit \<Rightarrow> cs_minOffTime s \<le> limit \<and> cs_minOnTime s \<le> limit)"

lemma limits_defined: "0 \<le> c \<Longrightarrow> c < 5 \<Longrightarrow> \<exists>limit. maxMinimumTimeLimits c = Inr limit"
  by (simp add: maxMinimumTimeLimits_def)

lemma ComfortStage_validate_ok: "\<exists>m s'. ComfortStage_validate s = Inr (m, s') \<and> comfort_stage_ok s'"
proof -
  define c where "c = (if cs_cph s \<ge> 5 \<or> cs_cph s < 0 then 1 else cs_cph s)"
  have "0 \<le> c" "c < 5"
    by (auto simp: c_def)
  then obtain limit where limit: "maxMinimumTimeLimits c = Inr limit" "c \<noteq> 5"
    using limits_defined [of c] by auto
  define s' where "s' = s\<lparr>cs_cph := c, cs_minOffTime := min limit (cs_minOffTime s), cs_minOnTime := min limit (cs_minOnTime s)\<rparr>"
  have "\<exists>m. ComfortStage_validate s = Inr (m, s')"
    using limit by (auto simp: ComfortStage_validate_def getMaximumMinOffTime_def getMaximumMinOnTime_def
        Let_def c_def s'_def min_def not_less simp del: bindR_eq_Inr)
  moreover have "comfort_stage_ok s'"
    using limit by (simp add: comfort_stage_ok_def s'_def)
  ultimately show ?thesis
    by blast
qed

lemma ComfortConfig_validate_returns: "\<exists>m c'. ComfortConfig_validate c = Inr (m, c')"
  using ComfortStage_validate_ok [of "compressorCooling c"] ComfortStage_validate_ok [of "compressorHeating c"]
    ComfortStage_validate_ok [of "indoorHeating c"] by (auto simp: ComfortConfig_validate_def)

lemma ComfortConfig_write_stores:
  "\<not> m_locked p \<Longrightarrow> \<exists>q. ComfortConfig_write c eNO_REQUEST p = Inr q \<and> m_data q = c"
  using ComfortConfig_validate_returns [of c] by (auto simp: ComfortConfig_write_def unlocked_write)

lemma unchecked_cph:
  assumes "c \<notin> {0, 1, 2, 3, 4}"
  shows "calculateOnTime pv t c 0 100 \<in> {Inl FatalError, Inl OutOfBounds}"
proof (cases "c = 5")
  case False
  have "\<exists>n. normalizePv pv 0 100 = Inr n"
    by (simp add: normalizePv_def) (simp add: Let_def)
  then show ?thesis
    using assms False
    by (auto simp: calculateOnTime_eq cycle_time_def maxMinimumTimeLimits_def k_table_def cong: if_cong split: if_splits)
qed (simp add: calculateOnTime_def)

text \<open>
  The range check of the comfort configuration is lost in write(): the check works on a copy and
  the unchecked argument is stored. On an unlocked point every configuration, whatever its cycle rate
  and times, is stored as it is; the writers of a single group store a checked value. A stage with an
  unchecked cycle rate makes the duty cycle read beyond its table or stop with a fatal error.
\<close>

lemma comfort_write_unchecked:
  assumes "\<not> m_locked p" "cs_cph (indoorHeating c) \<notin> {0, 1, 2, 3, 4}"
  shows "(\<exists>q. ComfortConfig_write c eNO_REQUEST p = Inr q \<and> m_data q = c) \<and>
    calculateOnTime pv t (cs_cph (indoorHeating c)) 0 100 \<in> {Inl FatalError, Inl OutOfBounds} \<and>
    (\<exists>q. writeIndoorHeating s eNO_REQUEST p = Inr q \<and> comfort_stage_ok (indoorHeating (m_data q)))"
proof (intro conjI)
  show "\<exists>q. ComfortConfig_write c eNO_REQUEST p = Inr q \<and> m_data q = c"
    using assms(1) by (rule ComfortConfig_write_stores)
  show "\<exists>q. writeIndoorHeating s eNO_REQUEST p = Inr q \<and> comfort_stage_ok (indoorHeating (m_data q))"
  proof -
    obtain m s' where v: "ComfortStage_validate s = Inr (m, s')" "comfort_stage_ok s'"
      using ComfortStage_validate_ok by blast
    then show ?thesis
      using ComfortConfig_write_stores [OF assms(1), of "(m_data p)\<lparr>indoorHeating := s'\<rparr>"]
      by (auto simp: writeIndoorHeating_def)
  qed
  show "calculateOnTime pv t (cs_cph (indoorHeating c)) 0 100 \<in> {Inl FatalError, Inl OutOfBounds}"
    using assms(2) unchecked_cph by blast
qed

lemma comfort_write_unchecked_witness:
  "\<exists>q. ComfortConfig_write (comfort_default\<lparr>indoorHeating := \<lparr>cs_minOnTime = 0, cs_minOffTime = 0, cs_cph = 9\<rparr>\<rparr>)
     eNO_REQUEST MpComfortConfig = Inr q \<and> cs_cph (indoorHeating (m_data q)) = 9"
  using comfort_write_unchecked [of MpComfortConfig
      "comfort_default\<lparr>indoorHeating := \<lparr>cs_minOnTime = 0, cs_minOffTime = 0, cs_cph = 9\<rparr>\<rparr>" 0 0 comfort_defaults]
  by (auto simp: MpComfortConfig_def ModelPointCommon_def)

text \<open>
  The equipment configuration is checked by every writer: an air conditioner has at most one compressor
  stage, a furnace at most three heating stages, and a heat pump and an air handler none of these.
\<close>

definition equipment_ok :: "EquipmentConfig \<Rightarrow> bool" where
  "equipment_ok e \<longleftrightarrow>
     (iduType e = eFURNACE \<and> numIduHeatingStages e \<le> 3 \<or> iduType e = eAIR_HANDLER \<and> numIduHeatingStages e = 0) \<and>
     (oduType e = eAC \<and> numCompStages e \<le> 1 \<or> oduType e = eHP \<and> numCompStages e = 0)"

lemma EquipmentConfig_validate_ok: "equipment_ok (snd (EquipmentConfig_validate e))"
  by (auto simp: EquipmentConfig_validate_def equipment_ok_def clamp_stages_def Let_def)

lemma equipment_write_ok:
  "equipment_ok (m_data p) \<Longrightarrow> equipment_ok (m_data (writeData (snd (EquipmentConfig_validate e)) r p))"
  using write_data_cases [of "snd (EquipmentConfig_validate e)" r p] EquipmentConfig_validate_ok [of e] by auto

lemma equipment_writers_ok:
  assumes "equipment_ok (m_data p)"
  shows "equipment_ok (m_data (EquipmentConfig_write e r p))" "equipment_ok (m_data (writeIndoorType t r p))"
    "equipment_ok (m_data (writeIndoorFanMotor b r p))" "equipment_ok (m_data (writeIndoorHeatingStages n r p))"
    "equipment_ok (m_data (writeOutdoorType t r p))" "equipment_ok (m_data (writeCompressorStages n r p))"
  using equipment_write_ok [OF assms]
  by (simp_all add: EquipmentConfig_write_def writeIndoorType_def writeIndoorFanMotor_def
      writeIndoorHeatingStages_def writeOutdoorType_def writeCompressorStages_def)

text \<open>
  Turning off the capacity of the relay outputs sets the blower outputs to whatever the local structure
  of the operation happened to hold.
\<close>

lemma relays_capacity_off_garbage:
  assumes "\<not> m_locked p" "relay_bk newData \<le> 100"
  shows "relay_g (m_data (mp_relays_setCapacityOff newData eNO_REQUEST p)) = relay_g newData"
    "relay_bk (m_data (mp_relays_setCapacityOff newData eNO_REQUEST p)) = relay_bk newData"
  using assms by (auto simp: mp_relays_setCapacityOff_def relays_write_def relays_validate_def
      relays_setCapacityOff_def unlocked_write)

end
