(* ===== verification/Idt_Selection.thy ===== *)
theory Idt_Selection
  imports Thermostat_Points Component_Base
begin

text \<open>
  The component that selects the indoor temperature sensor (src/src/Storm/Component/IdtSelection.cpp). It
  writes the active temperature, raises the sensor alarms, and forces the system off, through a shared
  reference counter, while no usable sensor is left.
\<close>

record IdtSelection_C =
  m_critical :: bool

definition IdtSelection :: IdtSelection_C where
  "IdtSelection = \<lparr>m_critical = False\<rparr>"

definition IdtSelection_start :: "IdtSelection_C \<Rightarrow> IdtSelection_C" where
  "IdtSelection_start c = c\<lparr>m_critical := False\<rparr>"

text \<open>The selection: the temperature, the valid flags that drive the alarms, and whether the state is critical.\<close>

definition select_idt :: "points \<Rightarrow> rat \<times> bool \<times> bool \<times> bool" where
  "select_idt p =
     (let enabledSecondaryIdt = read_or False (mp_enabledSecondaryIdt p);
          primaryIdt = read_or 0 (mp_primaryRawIdt p);
          secondaryIdt = read_or 0 (mp_secondaryRawIdt p);
          validPrimary = m_valid (mp_primaryRawIdt p);
          validSecondary = m_valid (mp_secondaryRawIdt p);
          validEnabledSecondary = m_valid (mp_enabledSecondaryIdt p);
          validSecondary = (if \<not> validEnabledSecondary \<or> \<not> enabledSecondaryIdt then False else validSecondary);
          idt = (if enabledSecondaryIdt \<and> validSecondary then secondaryIdt else primaryIdt);
          validSecondary = (if enabledSecondaryIdt then validSecondary else True);
          critical = (\<not> validPrimary \<and> \<not> enabledSecondaryIdt \<or> \<not> validPrimary \<and> \<not> validSecondary)
      in (idt, validPrimary, validSecondary, critical))"

definition IdtSelection_execute :: "(IdtSelection_C \<times> points) executor" where
  "IdtSelection_execute tick interval = (\<lambda>(c, p).
     let (idt, validPrimary, validSecondary, critical) = select_idt p;
         p = p\<lparr>mp_activeIdt := float_write idt (mp_activeIdt p),
               mp_idtAlarms := idt_setAlarm (\<not> validPrimary) (\<not> validSecondary) critical eNO_REQUEST (mp_idtAlarms p)\<rparr>
     in Inr (True,
          if critical \<and> \<not> m_critical c then
            (c\<lparr>m_critical := True\<rparr>,
             p\<lparr>mp_systemForcedOffRefCnt := ref_increment 1 eNO_REQUEST (mp_systemForcedOffRefCnt p)\<rparr>)
          else if \<not> critical \<and> m_critical c then
            (c\<lparr>m_critical := False\<rparr>,
             p\<lparr>mp_systemForcedOffRefCnt := ref_decrement 1 eNO_REQUEST (mp_systemForcedOffRefCnt p)\<rparr>)
          else (c, p)))"

end
