(* ===== verification/Operating_Mode.thy ===== *)
theory Operating_Mode
  imports Idt_Selection
begin

text \<open>
  The component that decides the operating mode (src/src/Storm/Component/OperatingMode.cpp): from the mode
  the user asks for, the equipment that is installed and, in automatic mode, the temperature. It writes
  the system configuration that the controller and the equipment components work with.
\<close>

record OperatingMode_C =
  m_prevOperatingMode :: OperatingMode
  m_equipCfgSequenceNumber :: u16
  m_comfortCfgSequenceNumber :: u16
  m_inAuto :: bool
  m_forcedOff :: bool

definition new_OperatingMode :: OperatingMode_C where
  "new_OperatingMode = \<lparr>m_prevOperatingMode = eUNKNOWN, m_equipCfgSequenceNumber = SEQUENCE_NUMBER_UNKNOWN,
     m_comfortCfgSequenceNumber = SEQUENCE_NUMBER_UNKNOWN, m_inAuto = False, m_forcedOff = False\<rparr>"

definition OperatingMode_start :: "OperatingMode_C \<Rightarrow> OperatingMode_C" where
  "OperatingMode_start c = c\<lparr>m_prevOperatingMode := eUNKNOWN, m_inAuto := False\<rparr>"

text \<open>
  A part of the speed range of a variable speed blower, computed in double precision and truncated to a
  16 bit number.
\<close>

definition vsp_speed :: "rat \<Rightarrow> u16" where
  "vsp_speed part = of_int \<lfloor>fl64 (1000 * fl64 part)\<rfloor>"

text \<open>The loops over the stages of the system configuration; \<open>mk\<close> fills in one stage.\<close>

fun stage_loop :: "nat \<Rightarrow> nat \<Rightarrow> rat \<Rightarrow> (rat \<Rightarrow> Stage_T) \<Rightarrow> SystemConfig_T \<Rightarrow> SystemConfig_T result" where
  "stage_loop 0 i pv mk cfg = Inr cfg"
| "stage_loop (Suc n) i pv mk cfg =
     (if i < length (stages cfg)
      then stage_loop n (Suc i) (fl32 (pv + 100)) mk
             (cfg\<lparr>stages := (stages cfg)[i := mk pv], maxPvOut := upperBound (mk pv)\<rparr>)
      else Inl OutOfBounds)"

definition comfort_stage :: "ComfortStageParameters_T \<Rightarrow> u16 \<Rightarrow> rat \<Rightarrow> Stage_T" where
  "comfort_stage s fan pv = \<lparr>lowerBound = pv, upperBound = fl32 (pv + 100), minIndoorFan = fan,
     maxIndoorFan = fan, minOnTime = cs_minOnTime s, minOffTime = cs_minOffTime s, cph = cs_cph s\<rparr>"

definition setSystemConfig :: "OperatingMode \<Rightarrow> EquipmentConfig \<Rightarrow> ComfortConfig_T \<Rightarrow> SystemConfig_T result" where
  "setSystemConfig newOpMode equipmentCfg comfortCfg =
     (let sysCfg = setToOff\<lparr>currentOpMode := newOpMode, outdoorUnitType := oduType equipmentCfg,
            indoorUnitType := iduType equipmentCfg,
            fanContinuousSpeed := (if \<not> hasVspBlower equipmentCfg then VIRTUAL_OUTPUTS_ON else vsp_speed (1 / 2))\<rparr>
      in case newOpMode of
           eCOOLING \<Rightarrow>
             stage_loop (numCompStages equipmentCfg) 0 0
               (comfort_stage (compressorCooling comfortCfg)
                  (if \<not> hasVspBlower equipmentCfg then VIRTUAL_OUTPUTS_ON else vsp_speed (85 / 100)))
               (sysCfg\<lparr>numCompressorStages := numCompStages equipmentCfg, numIndoorStages := 0,
                  totalStages := numCompStages equipmentCfg, gain := 15, reset_time := 300000\<rparr>)
         | eID_HEATING \<Rightarrow>
             stage_loop (numIduHeatingStages equipmentCfg) 0 0
               (comfort_stage (indoorHeating comfortCfg)
                  (if iduType equipmentCfg = eFURNACE then VIRTUAL_OUTPUTS_OFF else VIRTUAL_OUTPUTS_ON))
               (sysCfg\<lparr>numCompressorStages := 0, numIndoorStages := numIduHeatingStages equipmentCfg,
                  totalStages := numIduHeatingStages equipmentCfg, gain := 20, reset_time := 300000\<rparr>)
         | _ \<Rightarrow> Inr sysCfg)"

definition setNoActiveConditioningAlarm :: "bool \<Rightarrow> OperatingMode_C \<times> points \<Rightarrow> OperatingMode_C \<times> points" where
  "setNoActiveConditioningAlarm alarmIsActive = (\<lambda>(c, p).
     if alarmIsActive then
       let p = p\<lparr>mp_noActiveConditioningAlarm := setAlarm True True eNO_REQUEST (mp_noActiveConditioningAlarm p)\<rparr>
       in if \<not> m_forcedOff c
          then (c\<lparr>m_forcedOff := True\<rparr>,
                p\<lparr>mp_systemForcedOffRefCnt := ref_increment 1 eNO_REQUEST (mp_systemForcedOffRefCnt p)\<rparr>)
          else (c, p)
     else
       let p = p\<lparr>mp_noActiveConditioningAlarm := setAlarm False False eNO_REQUEST (mp_noActiveConditioningAlarm p)\<rparr>
       in if m_forcedOff c
          then (c\<lparr>m_forcedOff := False\<rparr>,
                p\<lparr>mp_systemForcedOffRefCnt := ref_decrement 1 eNO_REQUEST (mp_systemForcedOffRefCnt p)\<rparr>)
          else (c, p))"

text \<open>Which modes the equipment allows: cooling, heating, and heating with a heat pump.\<close>

definition allowed_modes :: "EquipmentConfig \<Rightarrow> bool \<times> bool \<times> bool" where
  "allowed_modes equipmentCfg =
     (let ac = (oduType equipmentCfg = eAC \<and> numCompStages equipmentCfg > 0);
          hp = (oduType equipmentCfg = eHP \<and> numCompStages equipmentCfg > 0)
      in (ac \<or> hp, hp \<or> numIduHeatingStages equipmentCfg > 0, hp))"

definition determineAllowedModes :: "EquipmentConfig \<Rightarrow> OperatingMode_C \<times> points
    \<Rightarrow> (bool \<times> bool \<times> bool) \<times> OperatingMode_C \<times> points" where
  "determineAllowedModes equipmentCfg s =
     (let (haveCooling, haveHeating, haveHeatPump) = allowed_modes equipmentCfg
      in ((haveCooling, haveHeating, haveHeatPump),
          setNoActiveConditioningAlarm (\<not> haveCooling \<and> \<not> haveHeating) s))"

definition setNewOperatingMode :: "OperatingMode \<Rightarrow> bool \<Rightarrow> EquipmentConfig \<Rightarrow> ComfortConfig_T
    \<Rightarrow> OperatingMode_C \<times> points \<Rightarrow> (OperatingMode_C \<times> points) result" where
  "setNewOperatingMode newOpMode haveHeatPump equipmentCfg comfortCfg = (\<lambda>(c, p).
     let newOpMode = (if newOpMode = eHEATING \<and> \<not> haveHeatPump then eID_HEATING else newOpMode);
         modeChanged = (newOpMode \<noteq> m_prevOperatingMode c);
         (c, p) = (if modeChanged
                   then (c\<lparr>m_prevOperatingMode := newOpMode\<rparr>,
                         p\<lparr>mp_operatingModeChanged := writeData True eNO_REQUEST (mp_operatingModeChanged p),
                           mp_resetPiPulse := writeData True eNO_REQUEST (mp_resetPiPulse p)\<rparr>)
                   else (c, p));
         ccSeqNum = m_seqNum (mp_comfortConfig p);
         eqSeqNum = m_seqNum (mp_equipmentConfig p)
     in if modeChanged \<or> m_comfortCfgSequenceNumber c \<noteq> ccSeqNum \<or> m_equipCfgSequenceNumber c \<noteq> eqSeqNum
        then bindR (setSystemConfig newOpMode equipmentCfg comfortCfg) (\<lambda>sysCfg.
             Inr (c\<lparr>m_comfortCfgSequenceNumber := ccSeqNum, m_equipCfgSequenceNumber := eqSeqNum\<rparr>,
                  p\<lparr>mp_systemConfig := SystemConfig_write sysCfg eNO_REQUEST (mp_systemConfig p)\<rparr>))
        else Inr (c, p))"

text \<open>The user mode is corrected to what the equipment can do; the flag says that the mode was refused.\<close>

definition correct_user_mode :: "bool \<Rightarrow> bool \<Rightarrow> ThermostatMode \<Rightarrow> bool \<times> ThermostatMode" where
  "correct_user_mode haveCooling haveHeating userMode =
     (if userMode = tmCOOLING \<and> \<not> haveCooling then (True, tmOFF)
      else if userMode \<in> {tmHEATING, tmID_HEATING} \<and> \<not> haveHeating then (True, tmOFF)
      else if userMode = tmAUTO \<and> (\<not> haveCooling \<or> \<not> haveHeating)
      then (False, if haveCooling then tmCOOLING else tmHEATING)
      else (False, userMode))"

text \<open>
  The operating mode for the corrected user mode: None leaves it as it is. The second component is the
  new value of \<open>m_inAuto\<close>. The automatic mode changes sides only after the system has been off for ten
  minutes.
\<close>

definition resolve_mode :: "ThermostatMode \<Rightarrow> bool \<Rightarrow> rat \<Rightarrow> Setpoints \<Rightarrow> bool \<Rightarrow> EquipmentTimes_T \<Rightarrow> Precision_T
    \<Rightarrow> OperatingMode option \<times> bool" where
  "resolve_mode userMode inAuto idt setpt sysOn equipmentTimes interval =
     (case userMode of
        tmCOOLING \<Rightarrow> (Some eCOOLING, False)
      | tmHEATING \<Rightarrow> (Some eHEATING, False)
      | tmID_HEATING \<Rightarrow> (Some eID_HEATING, False)
      | tmAUTO \<Rightarrow>
          (if \<not> inAuto then (Some (if idt \<le> heatSetpt setpt then eHEATING else eCOOLING), True)
           else if \<not> sysOn \<and> expiredPrecision (systemBeginOffTime equipmentTimes) (Precision_T 600 0) interval
           then (Some (if idt \<ge> fl32 (coolSetpt setpt - 1) then eCOOLING else eHEATING), True)
           else (None, True))
      | tmOFF \<Rightarrow> (Some eOFF, False))"

definition equipment_zero :: EquipmentConfig where
  "equipment_zero = \<lparr>iduType = 0, oduType = 0, numCompStages = 0, numIduHeatingStages = 0, hasVspBlower = False\<rparr>"

definition comfort_zero :: ComfortConfig_T where
  "comfort_zero = (let z = \<lparr>cs_minOnTime = 0, cs_minOffTime = 0, cs_cph = 0\<rparr>
     in \<lparr>compressorCooling = z, compressorHeating = z, indoorHeating = z\<rparr>)"

definition badInputs :: "points \<Rightarrow> bool" where
  "badInputs p \<longleftrightarrow> \<not> m_valid (mp_activeIdt p) \<or> \<not> m_valid (mp_userMode p) \<or> \<not> m_valid (mp_setpoints p) \<or>
     \<not> m_valid (mp_systemOn p) \<or> \<not> m_valid (mp_equipmentBeginTimes p) \<or> \<not> m_valid (mp_comfortConfig p) \<or>
     \<not> m_valid (mp_equipmentConfig p)"

definition OperatingMode_execute :: "(OperatingMode_C \<times> points) executor" where
  "OperatingMode_execute tick interval = (\<lambda>(c, p0).
     let equipmentCfg = read_or equipment_zero (mp_equipmentConfig p0);
         comfortConfig = read_or comfort_zero (mp_comfortConfig p0);
         p = p0\<lparr>mp_operatingModeChanged := writeData False eNO_REQUEST (mp_operatingModeChanged p0)\<rparr>
     in if badInputs p0
        then bindR (setNewOperatingMode eOFF False equipmentCfg comfortConfig (c, p)) (\<lambda>s.
             Inr (True, setNoActiveConditioningAlarm True s))
        else
          let ((haveCooling, haveHeating, haveHeatPump), c, p) = determineAllowedModes equipmentCfg (c, p)
          in if \<not> m_valid (mp_systemForcedOffRefCnt p) \<or> m_data (mp_systemForcedOffRefCnt p) > 0
             then bindR (setNewOperatingMode eOFF haveHeatPump equipmentCfg comfortConfig (c, p)) (\<lambda>s. Inr (True, s))
             else
               let (alarmActive, userMode) = correct_user_mode haveCooling haveHeating (m_data (mp_userMode p0));
                   p = p\<lparr>mp_userCfgModeAlarm := setAlarm alarmActive alarmActive eNO_REQUEST (mp_userCfgModeAlarm p)\<rparr>;
                   (newMode, inAuto) = resolve_mode userMode (m_inAuto c) (m_data (mp_activeIdt p0))
                      (m_data (mp_setpoints p0)) (m_data (mp_systemOn p0)) (m_data (mp_equipmentBeginTimes p0)) interval;
                   c = c\<lparr>m_inAuto := inAuto\<rparr>
               in case newMode of
                    None \<Rightarrow> Inr (True, c, p)
                  | Some opMode \<Rightarrow>
                      bindR (setNewOperatingMode opMode haveHeatPump equipmentCfg comfortConfig (c, p)) (\<lambda>s. Inr (True, s)))"

subsection \<open>The configuration of the system\<close>

text \<open>
  What every configuration that this component writes satisfies: a mode with its stages, and constants
  the controller can divide by. Heating with a heat pump does not occur, because the range check of the
  equipment configuration leaves a heat pump no compressor stages.
\<close>

definition cfg_ok :: "SystemConfig_T \<Rightarrow> bool" where
  "cfg_ok d \<longleftrightarrow> length (stages d) = 4 \<and>
     (currentOpMode d = eOFF \<or> currentOpMode d = eCOOLING \<and> numCompressorStages d = 1 \<or>
      currentOpMode d = eID_HEATING \<and> numIndoorStages d \<in> {1, 2, 3}) \<and>
     gain d \<in> {1, 15, 20} \<and> reset_time d \<in> {1, 300000} \<and> maxPvOut d \<in> {1, 100, 200, 300}"

definition mode_supported :: "EquipmentConfig \<Rightarrow> OperatingMode \<Rightarrow> bool" where
  "mode_supported e m \<longleftrightarrow> m = eOFF \<or> m = eCOOLING \<and> numCompStages e = 1 \<or>
     m = eID_HEATING \<and> numIduHeatingStages e \<in> {1, 2, 3}"

lemma setSystemConfig_ok:
  assumes "mode_supported e m"
  shows "\<exists>d. setSystemConfig m e cc = Inr d \<and> cfg_ok d \<and> currentOpMode d = m"
  using assms
  by (auto simp: setSystemConfig_def mode_supported_def cfg_ok_def setToOff_def comfort_stage_def Let_def
      numeral_eq_Suc simp del: bindR_eq_Inr)

lemma allowed_modes_ok:
  assumes "equipment_ok e" "allowed_modes e = (cool, heat, hp)"
  shows "\<not> hp" "cool \<longleftrightarrow> numCompStages e = 1" "heat \<longleftrightarrow> numIduHeatingStages e \<in> {1, 2, 3}"
  using assms by (auto simp: allowed_modes_def equipment_ok_def Let_def)

lemma resolved_mode_supported:
  assumes "equipment_ok e" "allowed_modes e = (cool, heat, hp)" "cool \<or> heat"
    and "resolve_mode (snd (correct_user_mode cool heat u)) a idt sp on et t = (Some m, b)"
  shows "mode_supported e (if m = eHEATING \<and> \<not> hp then eID_HEATING else m)"
  using assms(3,4) allowed_modes_ok [OF assms(1,2)]
  by (auto simp: resolve_mode_def correct_user_mode_def mode_supported_def split: ThermostatMode.splits if_splits)

subsection \<open>The invariant of the component\<close>

definition mode_inv :: "OperatingMode_C \<times> points \<Rightarrow> bool" where
  "mode_inv = (\<lambda>(c, p). equipment_ok (m_data (mp_equipmentConfig p)) \<and> \<not> m_locked (mp_systemConfig p) \<and>
     m_valid (mp_systemConfig p) \<and> cfg_ok (m_data (mp_systemConfig p)) \<and> \<not> m_locked (mp_systemForcedOffRefCnt p) \<and>
     (m_forcedOff c \<longrightarrow> m_valid (mp_systemForcedOffRefCnt p) \<and> 0 < m_data (mp_systemForcedOffRefCnt p)) \<and>
     (m_prevOperatingMode c = eUNKNOWN \<or> m_prevOperatingMode c = currentOpMode (m_data (mp_systemConfig p))))"

lemma SystemConfig_write_ok:
  assumes "\<not> m_locked q" "cfg_ok (m_data q)" "cfg_ok d"
  shows "\<not> m_locked (SystemConfig_write d eNO_REQUEST q)" "m_valid (SystemConfig_write d eNO_REQUEST q)"
    "cfg_ok (m_data (SystemConfig_write d eNO_REQUEST q))"
    "currentOpMode (m_data (SystemConfig_write d eNO_REQUEST q)) = currentOpMode d"
  using assms by (auto simp: SystemConfig_write_def unlocked_write_by SystemConfig_isDataEqual_def)

lemma setNewOperatingMode_ok:
  assumes "mode_inv (c, p)" "mode_supported e (if m = eHEATING \<and> \<not> hp then eID_HEATING else m)"
  shows "\<exists>c' p'. setNewOperatingMode m hp e cc (c, p) = Inr (c', p') \<and> mode_inv (c', p') \<and>
    m_prevOperatingMode c' = (if m = eHEATING \<and> \<not> hp then eID_HEATING else m) \<and> m_forcedOff c' = m_forcedOff c \<and>
    mp_systemForcedOffRefCnt p' = mp_systemForcedOffRefCnt p"
proof -
  define m' where "m' = (if m = eHEATING \<and> \<not> hp then eID_HEATING else m)"
  obtain d where d: "setSystemConfig m' e cc = Inr d" "cfg_ok d" "currentOpMode d = m'"
    using setSystemConfig_ok assms(2) unfolding m'_def by blast
  have "\<not> m_locked (mp_systemConfig p)" "cfg_ok (m_data (mp_systemConfig p))"
    using assms(1) by (simp_all add: mode_inv_def)
  note w = SystemConfig_write_ok [OF this d(2)]
  show ?thesis
  proof (cases "m' \<noteq> m_prevOperatingMode c \<or> m_comfortCfgSequenceNumber c \<noteq> m_seqNum (mp_comfortConfig p) \<or>
      m_equipCfgSequenceNumber c \<noteq> m_seqNum (mp_equipmentConfig p)")
    case True
    then show ?thesis
      using assms(1) d w
      by (simp add: setNewOperatingMode_def m'_def [symmetric] Let_def mode_inv_def split_beta)
  next
    case False
    then show ?thesis
      using assms(1) by (simp add: setNewOperatingMode_def m'_def [symmetric] Let_def mode_inv_def)
  qed
qed

lemma ref_unlocked:
  assumes "\<not> m_locked q"
  shows "\<not> m_locked (ref_increment n eNO_REQUEST q)" "m_valid (ref_increment n eNO_REQUEST q)"
    "m_data (ref_increment n eNO_REQUEST q) = (if m_data q + n < m_data q then - 1 else m_data q + n)"
    "\<not> m_locked (ref_decrement n eNO_REQUEST q)" "m_valid (ref_decrement n eNO_REQUEST q)"
    "m_data (ref_decrement n eNO_REQUEST q) = (if m_data q - n > m_data q then 0 else m_data q - n)"
  using assms by (auto simp: ref_increment_def ref_decrement_def testAndUpdateLock_def Let_def
      updateAndCheckForChangeNotification_def processDataUpdated_def advanceSequenceNumber_def)

lemma ref_increment_pos: "\<not> m_locked q \<Longrightarrow> 0 < m_data (ref_increment 1 eNO_REQUEST q)"
proof (cases "m_data q + 1 = 0")
  case True
  then have "m_data q = - 1"
    by (simp add: eq_neg_iff_add_eq_0)
  then show "\<not> m_locked q \<Longrightarrow> ?thesis"
    by (simp add: ref_unlocked word_gt_0)
qed (simp add: ref_unlocked word_gt_0)

lemma setNoActiveConditioningAlarm_frame:
  assumes "setNoActiveConditioningAlarm b (c, p) = (c', p')"
  shows "mp_systemConfig p' = mp_systemConfig p" "mp_equipmentConfig p' = mp_equipmentConfig p"
    "m_prevOperatingMode c' = m_prevOperatingMode c" "m_inAuto c' = m_inAuto c"
    "m_forcedOff c' = b"
  using assms by (auto simp: setNoActiveConditioningAlarm_def Let_def split: if_splits)

lemma setNoActiveConditioningAlarm_inv: "mode_inv s \<Longrightarrow> mode_inv (setNoActiveConditioningAlarm b s)"
  by (cases s) (auto simp: setNoActiveConditioningAlarm_def mode_inv_def ref_unlocked(1,2,4) ref_increment_pos Let_def)

lemma setNoActiveConditioningAlarm_forces:
  assumes "mode_inv s" "setNoActiveConditioningAlarm True s = (c', p')"
  shows "m_valid (mp_systemForcedOffRefCnt p')" "0 < m_data (mp_systemForcedOffRefCnt p')"
  using setNoActiveConditioningAlarm_inv [OF assms(1), of True] setNoActiveConditioningAlarm_frame(5) [of True "fst s" "snd s" c' p']
    assms(2) by (simp_all add: mode_inv_def)

definition forced_off :: "points \<Rightarrow> bool" where
  "forced_off p \<longleftrightarrow> \<not> m_valid (mp_systemForcedOffRefCnt p) \<or> 0 < m_data (mp_systemForcedOffRefCnt p)"

lemma mode_inv_upd [simp]:
  "mode_inv (c, p\<lparr>mp_operatingModeChanged := q\<rparr>) = mode_inv (c, p)"
  "mode_inv (c, p\<lparr>mp_userCfgModeAlarm := a\<rparr>) = mode_inv (c, p)"
  "mode_inv (c\<lparr>m_inAuto := b\<rparr>, p) = mode_inv (c, p)"
  by (simp_all add: mode_inv_def)

lemma execute_bad_inputs:
  assumes "mode_inv (c, p)" "badInputs p"
  shows "\<exists>c' p'. OperatingMode_execute tick t (c, p) = Inr (True, c', p') \<and> mode_inv (c', p') \<and>
    m_prevOperatingMode c' = eOFF"
proof -
  define p1 where "p1 = p\<lparr>mp_operatingModeChanged := writeData False eNO_REQUEST (mp_operatingModeChanged p)\<rparr>"
  have "mode_inv (c, p1)"
    using assms by (simp add: p1_def)
  then obtain c2 p2 where s: "setNewOperatingMode eOFF False (read_or equipment_zero (mp_equipmentConfig p))
      (read_or comfort_zero (mp_comfortConfig p)) (c, p1) = Inr (c2, p2)" "mode_inv (c2, p2)" "m_prevOperatingMode c2 = eOFF"
    using setNewOperatingMode_ok [of c p1 "read_or equipment_zero (mp_equipmentConfig p)" eOFF False
        "read_or comfort_zero (mp_comfortConfig p)"] by (auto simp: mode_supported_def)
  obtain c3 p3 where n: "setNoActiveConditioningAlarm True (c2, p2) = (c3, p3)"
    by (cases "setNoActiveConditioningAlarm True (c2, p2)")
  have "OperatingMode_execute tick t (c, p) = Inr (True, c3, p3)"
    using assms(2) s(1) n by (simp add: OperatingMode_execute_def p1_def Let_def)
  moreover have "mode_inv (c3, p3)" "m_prevOperatingMode c3 = eOFF"
    using setNoActiveConditioningAlarm_inv [OF s(2), of True] setNoActiveConditioningAlarm_frame(3) [OF n] n s(3)
    by simp_all
  ultimately show ?thesis
    by blast
qed

text \<open>One pass with valid inputs, after the range of the equipment is known.\<close>

lemma execute_good_eq:
  assumes "\<not> badInputs p" "allowed_modes (m_data (mp_equipmentConfig p)) = (cool, heat, hp)"
    and "setNoActiveConditioningAlarm (\<not> cool \<and> \<not> heat)
      (c, p\<lparr>mp_operatingModeChanged := writeData False eNO_REQUEST (mp_operatingModeChanged p)\<rparr>) = (c2, p2)"
    and "e = m_data (mp_equipmentConfig p)" "cc = read_or comfort_zero (mp_comfortConfig p)"
  shows "OperatingMode_execute tick t (c, p) =
    (if forced_off p2 then bindR (setNewOperatingMode eOFF hp e cc (c2, p2)) (\<lambda>s. Inr (True, s))
     else let (alarmActive, userMode) = correct_user_mode cool heat (m_data (mp_userMode p));
              p3 = p2\<lparr>mp_userCfgModeAlarm := setAlarm alarmActive alarmActive eNO_REQUEST (mp_userCfgModeAlarm p2)\<rparr>;
              (newMode, inAuto) = resolve_mode userMode (m_inAuto c2) (m_data (mp_activeIdt p))
                (m_data (mp_setpoints p)) (m_data (mp_systemOn p)) (m_data (mp_equipmentBeginTimes p)) t;
              c3 = c2\<lparr>m_inAuto := inAuto\<rparr>
          in case newMode of None \<Rightarrow> Inr (True, c3, p3)
             | Some m \<Rightarrow> bindR (setNewOperatingMode m hp e cc (c3, p3)) (\<lambda>s. Inr (True, s)))"
proof -
  have e: "read_or equipment_zero (mp_equipmentConfig p) = e"
    using assms(1,4) by (simp add: read_or_def readData_def badInputs_def)
  have d: "determineAllowedModes e (c, p\<lparr>mp_operatingModeChanged := writeData False eNO_REQUEST
      (mp_operatingModeChanged p)\<rparr>) = ((cool, heat, hp), c2, p2)"
    using assms(2-4) by (simp add: determineAllowedModes_def)
  show ?thesis
    using assms(1) unfolding OperatingMode_execute_def prod.case e assms(5) Let_def d
    by (simp add: forced_off_def split_beta del: bindR_eq_Inr)
qed

lemma execute_good_inputs:
  assumes "mode_inv (c, p)" "\<not> badInputs p"
  shows "\<exists>c' p'. OperatingMode_execute tick t (c, p) = Inr (True, c', p') \<and> mode_inv (c', p') \<and>
    (forced_off p' \<longrightarrow> m_prevOperatingMode c' = eOFF)"
proof -
  define e where "e = m_data (mp_equipmentConfig p)"
  define cc where "cc = read_or comfort_zero (mp_comfortConfig p)"
  define p1 where "p1 = p\<lparr>mp_operatingModeChanged := writeData False eNO_REQUEST (mp_operatingModeChanged p)\<rparr>"
  obtain cool heat hp where am: "allowed_modes e = (cool, heat, hp)"
    by (cases "allowed_modes e")
  obtain c2 p2 where n: "setNoActiveConditioningAlarm (\<not> cool \<and> \<not> heat) (c, p1) = (c2, p2)"
    by (cases "setNoActiveConditioningAlarm (\<not> cool \<and> \<not> heat) (c, p1)")
  have eok: "equipment_ok e" and i1: "mode_inv (c, p1)"
    using assms by (simp_all add: e_def mode_inv_def p1_def)
  have i2: "mode_inv (c2, p2)"
    using setNoActiveConditioningAlarm_inv [OF i1] n by metis
  note ex = execute_good_eq [OF assms(2) am [unfolded e_def] n [unfolded p1_def] e_def cc_def, of tick t]
  show ?thesis
  proof (cases "forced_off p2")
    case True
    then show ?thesis
      using setNewOperatingMode_ok [OF i2, of e eOFF hp cc] by (auto simp: ex mode_supported_def simp del: bindR_eq_Inr)
  next
    case False
    then have ch: "cool \<or> heat"
      using setNoActiveConditioningAlarm_forces [OF i1, of c2 p2] n
      by (cases cool; cases heat) (auto simp: forced_off_def)
    obtain al u where cu: "correct_user_mode cool heat (m_data (mp_userMode p)) = (al, u)"
      by (cases "correct_user_mode cool heat (m_data (mp_userMode p))")
    define p3 where "p3 = p2\<lparr>mp_userCfgModeAlarm := setAlarm al al eNO_REQUEST (mp_userCfgModeAlarm p2)\<rparr>"
    obtain nm ia where r: "resolve_mode u (m_inAuto c2) (m_data (mp_activeIdt p))
        (m_data (mp_setpoints p)) (m_data (mp_systemOn p)) (m_data (mp_equipmentBeginTimes p)) t = (nm, ia)"
      by (cases "resolve_mode u (m_inAuto c2) (m_data (mp_activeIdt p))
        (m_data (mp_setpoints p)) (m_data (mp_systemOn p)) (m_data (mp_equipmentBeginTimes p)) t")
    have i3: "mode_inv (c2\<lparr>m_inAuto := ia\<rparr>, p3)" and f3: "\<not> forced_off p3"
      using i2 False by (simp_all add: p3_def forced_off_def)
    show ?thesis
    proof (cases nm)
      case None
      then show ?thesis
        using False cu r i3 f3 by (simp add: ex p3_def)
    next
      case (Some m)
      then have r': "resolve_mode (snd (correct_user_mode cool heat (m_data (mp_userMode p)))) (m_inAuto c2)
          (m_data (mp_activeIdt p)) (m_data (mp_setpoints p)) (m_data (mp_systemOn p))
          (m_data (mp_equipmentBeginTimes p)) t = (Some m, ia)"
        using r cu by simp
      obtain c4 p4 where "setNewOperatingMode m hp e cc (c2\<lparr>m_inAuto := ia\<rparr>, p3) = Inr (c4, p4)"
          "mode_inv (c4, p4)" "mp_systemForcedOffRefCnt p4 = mp_systemForcedOffRefCnt p3"
        using setNewOperatingMode_ok [OF i3 resolved_mode_supported [OF eok am ch r'], of cc] by blast
      then show ?thesis
        using False cu r Some f3 by (simp add: ex p3_def forced_off_def del: bindR_eq_Inr)
    qed
  qed
qed

lemma OperatingMode_execute_ok:
  assumes "mode_inv (c, p)"
  shows "\<exists>c' p'. OperatingMode_execute tick t (c, p) = Inr (True, c', p') \<and> mode_inv (c', p') \<and>
    (badInputs p \<or> forced_off p' \<longrightarrow> m_prevOperatingMode c' = eOFF)"
  using execute_bad_inputs [OF assms] execute_good_inputs [OF assms] by (cases "badInputs p") blast+

interpretation mode_component: component OperatingMode_execute mode_inv
proof
  fix s tick interval
  assume "mode_inv s"
  then show "\<exists>ok s'. OperatingMode_execute tick interval s = Inr (ok, s') \<and> mode_inv s'"
    using OperatingMode_execute_ok [of "fst s" "snd s" tick interval] by auto
qed

subsection \<open>The reasons that force the system off\<close>

inductive forcing :: "IdtSelection_C \<times> OperatingMode_C \<times> points \<Rightarrow> IdtSelection_C \<times> OperatingMode_C \<times> points \<Rightarrow> bool" where
  forcing_idt: "IdtSelection_execute tick t (i, p) = Inr (ok, i', p') \<Longrightarrow> forcing (i, m, p) (i', m, p')"
| forcing_mode: "OperatingMode_execute tick t (m, p) = Inr (ok, m', p') \<Longrightarrow> forcing (i, m, p) (i, m', p')"
| forcing_env: "mp_systemForcedOffRefCnt p' = mp_systemForcedOffRefCnt p \<Longrightarrow> forcing (i, m, p) (i, m, p')"

definition reasons :: "bool \<Rightarrow> bool \<Rightarrow> u32 point \<Rightarrow> bool" where
  "reasons a b q \<longleftrightarrow> \<not> m_locked q \<and> m_data q = of_bool a + of_bool b \<and> (a \<or> b \<longrightarrow> m_valid q)"

lemma reasons_change:
  "reasons False b q \<Longrightarrow> reasons True b (ref_increment 1 eNO_REQUEST q)"
  "reasons True b q \<Longrightarrow> reasons False b (ref_decrement 1 eNO_REQUEST q)"
  "reasons a False q \<Longrightarrow> reasons a True (ref_increment 1 eNO_REQUEST q)"
  "reasons a True q \<Longrightarrow> reasons a False (ref_decrement 1 eNO_REQUEST q)"
  by (auto simp: reasons_def ref_unlocked)

lemma setNewOperatingMode_frame:
  assumes "setNewOperatingMode m hp e cc (c, p) = Inr (c', p')"
  shows "m_forcedOff c' = m_forcedOff c \<and> mp_systemForcedOffRefCnt p' = mp_systemForcedOffRefCnt p"
  using assms by (auto simp: setNewOperatingMode_def Let_def split: if_splits)

lemma setNoActiveConditioningAlarm_reasons:
  "reasons a (m_forcedOff c) (mp_systemForcedOffRefCnt p) \<Longrightarrow> setNoActiveConditioningAlarm b (c, p) = (c', p') \<Longrightarrow>
   reasons a (m_forcedOff c') (mp_systemForcedOffRefCnt p')"
  using reasons_change(3,4) [of a "mp_systemForcedOffRefCnt p"]
  by (auto simp: setNoActiveConditioningAlarm_def Let_def split: if_splits)

lemma OperatingMode_execute_reasons:
  assumes "OperatingMode_execute tick t (c, p) = Inr (ok, c', p')" "reasons a (m_forcedOff c) (mp_systemForcedOffRefCnt p)"
  shows "reasons a (m_forcedOff c') (mp_systemForcedOffRefCnt p')"
proof -
  define p1 where "p1 = p\<lparr>mp_operatingModeChanged := writeData False eNO_REQUEST (mp_operatingModeChanged p)\<rparr>"
  have r1: "reasons a (m_forcedOff c) (mp_systemForcedOffRefCnt p1)"
    using assms(2) by (simp add: p1_def)
  show ?thesis
  proof (cases "badInputs p")
    case True
    then obtain c2 p2 where n: "setNewOperatingMode eOFF False (read_or equipment_zero (mp_equipmentConfig p))
        (read_or comfort_zero (mp_comfortConfig p)) (c, p1) = Inr (c2, p2)" "setNoActiveConditioningAlarm True (c2, p2) = (c', p')"
      using assms(1) by (auto simp: OperatingMode_execute_def Let_def p1_def [symmetric])
    show ?thesis
      by (rule setNoActiveConditioningAlarm_reasons [OF _ n(2)]) (use setNewOperatingMode_frame [OF n(1)] r1 in simp)
  next
    case False
    obtain cool heat hp where am: "allowed_modes (m_data (mp_equipmentConfig p)) = (cool, heat, hp)"
      by (cases "allowed_modes (m_data (mp_equipmentConfig p))")
    obtain c2 p2 where n: "setNoActiveConditioningAlarm (\<not> cool \<and> \<not> heat) (c, p1) = (c2, p2)"
      by (cases "setNoActiveConditioningAlarm (\<not> cool \<and> \<not> heat) (c, p1)")
    show ?thesis
      using assms(1) setNoActiveConditioningAlarm_reasons [OF r1 n]
        execute_good_eq [OF False am n [unfolded p1_def] refl refl, of tick t]
      by (auto simp: Let_def split: if_splits prod.splits option.splits dest!: setNewOperatingMode_frame)
  qed
qed

lemma IdtSelection_execute_reasons:
  assumes "IdtSelection_execute tick t (c, p) = Inr (ok, c', p')" "reasons (m_critical c) b (mp_systemForcedOffRefCnt p)"
  shows "reasons (m_critical c') b (mp_systemForcedOffRefCnt p')"
  using assms reasons_change(1,2) [of b "mp_systemForcedOffRefCnt p"]
  by (auto simp: IdtSelection_execute_def split_beta Let_def split: if_splits)

lemma forcing_reasons:
  assumes "forcing (i, m, p) (i', m', p')" "reasons (m_critical i) (m_forcedOff m) (mp_systemForcedOffRefCnt p)"
  shows "reasons (m_critical i') (m_forcedOff m') (mp_systemForcedOffRefCnt p')"
  using assms by (cases rule: forcing.cases) (auto intro: IdtSelection_execute_reasons OperatingMode_execute_reasons)

lemma forcing_star_reasons:
  assumes "forcing\<^sup>*\<^sup>* s s'" "reasons (m_critical (fst s)) (m_forcedOff (fst (snd s))) (mp_systemForcedOffRefCnt (snd (snd s)))"
  shows "reasons (m_critical (fst s')) (m_forcedOff (fst (snd s'))) (mp_systemForcedOffRefCnt (snd (snd s')))"
  using assms
proof (induction rule: rtranclp_induct)
  case (step y z)
  then show ?case
    using forcing_reasons [of "fst y" "fst (snd y)" "snd (snd y)" "fst z" "fst (snd z)" "snd (snd z)"] by simp
qed simp

subsection \<open>Properties\<close>

text \<open>
  C4. The mode decision is safe. From a state in which the equipment configuration is in range and the
  system configuration is consistent, one pass always succeeds and keeps this so: the system configuration
  holds a mode with one compressor stage (cooling), with one to three indoor stages (indoor heating) or
  off, and constants the controller can divide by. Whenever an input is missing, or a reason to force the
  system off is counted or the counter is invalid, the mode is off.
\<close>

theorem operating_mode_safe:
  assumes "mode_inv (c, p)"
  shows "\<exists>c' p'. OperatingMode_execute tick t (c, p) = Inr (True, c', p') \<and> mode_inv (c', p') \<and>
    cfg_ok (m_data (mp_systemConfig p')) \<and>
    (badInputs p \<or> forced_off p' \<longrightarrow> currentOpMode (m_data (mp_systemConfig p')) = eOFF)"
proof -
  obtain c' p' where "OperatingMode_execute tick t (c, p) = Inr (True, c', p')" "mode_inv (c', p')"
      "badInputs p \<or> forced_off p' \<longrightarrow> m_prevOperatingMode c' = eOFF"
    using OperatingMode_execute_ok [OF assms] by blast
  then show ?thesis
    by (auto simp: mode_inv_def)
qed

theorem operating_mode_safe_witness:
  "\<exists>c' p'. OperatingMode_execute (Precision_T 2 0) (Precision_T 2 0) (new_OperatingMode, model_points) = Inr (True, c', p') \<and>
     currentOpMode (m_data (mp_systemConfig p')) = eOFF"
proof -
  have "mode_inv (new_OperatingMode, model_points)"
    by (simp add: mode_inv_def model_points_def new_OperatingMode_def MpEquipmentConfig_def MpSystemConfig_def
        ModelPointCommon_def EquipmentConfig_validate_ok cfg_ok_def setToOff_def Let_def)
  moreover have "badInputs model_points"
    by (simp add: badInputs_def model_points_def ModelPointCommon_def)
  ultimately show ?thesis
    using operating_mode_safe [of new_OperatingMode model_points "Precision_T 2 0" "Precision_T 2 0"] by blast
qed

text \<open>
  C15. The reasons to force the system off are counted without loss. Starting with a counter at zero,
  after every interleaving of passes of the sensor selection, passes of the mode decision and changes of
  any other model point, the shared counter is the number of the two components that currently ask for
  the system to be off: it never misses a reason, never keeps a reason that is gone, and never wraps.
\<close>

theorem forced_off_balanced:
  assumes "forcing\<^sup>*\<^sup>* (IdtSelection, new_OperatingMode, p0) (i, m, p)"
    and "\<not> m_locked (mp_systemForcedOffRefCnt p0)" "m_data (mp_systemForcedOffRefCnt p0) = 0"
  shows "unat (m_data (mp_systemForcedOffRefCnt p)) = of_bool (m_critical i) + of_bool (m_forcedOff m) \<and>
    (forced_off p \<longleftrightarrow> \<not> m_valid (mp_systemForcedOffRefCnt p) \<or> m_critical i \<or> m_forcedOff m)"
proof -
  have "reasons (m_critical i) (m_forcedOff m) (mp_systemForcedOffRefCnt p)"
    using forcing_star_reasons [OF assms(1)] assms(2,3) by (simp add: reasons_def IdtSelection_def new_OperatingMode_def)
  then show ?thesis
    by (auto simp: reasons_def forced_off_def)
qed

theorem forced_off_balanced_witness:
  "\<exists>i p. IdtSelection_execute (Precision_T 2 0) (Precision_T 2 0) (IdtSelection, model_points) = Inr (True, i, p) \<and>
     m_critical i \<and> unat (m_data (mp_systemForcedOffRefCnt p)) = 1"
proof -
  define r where "r = IdtSelection_execute (Precision_T 2 0) (Precision_T 2 0) (IdtSelection, model_points)"
  have "\<exists>i p. r = Inr (True, i, p) \<and> m_critical i"
    by (simp add: r_def IdtSelection_execute_def select_idt_def IdtSelection_def model_points_def ModelPointCommon_def
        read_or_def readData_def Let_def)
  then obtain i p where r: "r = Inr (True, i, p)" "m_critical i"
    by blast
  then have "forcing\<^sup>*\<^sup>* (IdtSelection, new_OperatingMode, model_points) (i, new_OperatingMode, p)"
    unfolding r_def by (blast intro: forcing_idt)
  then show ?thesis
    using forced_off_balanced [of model_points i new_OperatingMode p] r
    by (auto simp: r_def model_points_def ModelPointCommon_def new_OperatingMode_def)
qed

text \<open>
  A restart breaks this balance: the start method of the sensor selection forgets that it has counted
  itself, so that a critical sensor state across a restart is counted twice.
\<close>

lemma idt_restart_counts_twice:
  assumes "m_critical c" "reasons True False (mp_systemForcedOffRefCnt p)" "snd (snd (snd (select_idt p)))"
    and "IdtSelection_execute tick t (IdtSelection_start c, p) = Inr (ok, c', p')"
  shows "m_data (mp_systemForcedOffRefCnt p') = 2"
  using assms by (auto simp: IdtSelection_start_def IdtSelection_execute_def split_beta Let_def reasons_def ref_unlocked)

end
