(* ===== verification/Pi_Controller.thy ===== *)
theory Pi_Controller
  imports Operating_Mode
begin

text \<open>
  The controller of the thermostat: PiPreProcess.cpp computes the distance of the temperature from the
  active set-point, Pi.cpp turns it into the load of the system with a proportional-integral controller
  (both in src/src/Storm/Component/). Single and double precision operations are rounded as the code
  performs them; a division by zero, which gives an infinity or a NaN in C++, is the failure NonFinite.
\<close>

subsection \<open>PiPreProcess\<close>

record PiPreProcess =
  m_prevActiveSetpoint :: rat

abbreviation (input) INVALID_SETPOINT :: rat where "INVALID_SETPOINT \<equiv> 9999"

definition PiPreProcess_start :: "PiPreProcess \<Rightarrow> PiPreProcess" where
  "PiPreProcess_start c = c\<lparr>m_prevActiveSetpoint := INVALID_SETPOINT\<rparr>"

definition PiPreProcess_execute :: "(PiPreProcess \<times> points) executor" where
  "PiPreProcess_execute tick interval = (\<lambda>(c, p).
     let idt = read_or 0 (mp_activeIdt p);
         setpt = m_data (mp_setpoints p);
         modeChanged = read_or False (mp_operatingModeChanged p);
         bad = (\<not> m_valid (mp_activeIdt p) \<or> \<not> m_valid (mp_operatingModeChanged p) \<or>
                \<not> m_valid (mp_setpoints p) \<or> \<not> m_valid (mp_systemConfig p));
         currentMode = (if bad then eOFF else currentOpMode (m_data (mp_systemConfig p)));
         (newActiveSetpoint, deltaIdtError) =
           (case currentMode of
              eCOOLING \<Rightarrow> (coolSetpt setpt, fl32 (idt - coolSetpt setpt))
            | eHEATING \<Rightarrow> (heatSetpt setpt, fl32 (heatSetpt setpt - idt))
            | eID_HEATING \<Rightarrow> (heatSetpt setpt, fl32 (heatSetpt setpt - idt))
            | _ \<Rightarrow> (INVALID_SETPOINT, 0));
         setpointDelta = (if \<not> modeChanged then \<bar>fl32 (newActiveSetpoint - m_prevActiveSetpoint c)\<bar> else 0);
         setpointChanged = (\<not> modeChanged \<and> \<not> areFloatsEqual setpointDelta 0)
     in Inr (True, c\<lparr>m_prevActiveSetpoint := newActiveSetpoint\<rparr>,
          p\<lparr>mp_setpointChanged := writeData setpointChanged eNO_REQUEST (mp_setpointChanged p),
            mp_deltaIdtError := float_write deltaIdtError (mp_deltaIdtError p),
            mp_deltaSetpoint := float_write setpointDelta (mp_deltaSetpoint p),
            mp_activeSetpoint := float_write newActiveSetpoint (mp_activeSetpoint p)\<rparr>))"

subsection \<open>Pi\<close>

record Pi =
  m_dt :: rat
  m_prevSumError :: rat
  m_prevPvOut :: rat
  m_maxSumError :: rat

definition Pi_start :: "Precision_T \<Rightarrow> Pi \<Rightarrow> Pi" where
  "Pi_start intervalTime c = c\<lparr>m_dt := fl32 (of_int (uint (ucast (m_thousandths intervalTime) + m_seconds intervalTime * 1000))),
     m_prevSumError := 0, m_prevPvOut := 0, m_maxSumError := 0\<rparr>"

definition divide64 :: "rat \<Rightarrow> rat \<Rightarrow> rat result" where
  "divide64 x y = (if y = 0 then Inl NonFinite else Inr (fl64 (x / y)))"

text \<open>
  One step of the controller that is not frozen: it returns the output, the sum of the error, whether
  the integral term was inhibited, and the new state.
\<close>

definition pi_step :: "SystemConfig_T \<Rightarrow> rat \<Rightarrow> u32 \<Rightarrow> Pi \<Rightarrow> (rat \<times> rat \<times> bool \<times> Pi) result" where
  "pi_step sysCfg deltaError inhibitRefCnt c =
     (let newSumError = fl32 (m_prevSumError c + deltaError);
          newSumError = (if newSumError < 0 then 0 else newSumError)
      in bindR (if areFloatsEqual (m_maxSumError c) 0
                then bindR (divide64 (fl64 (maxPvOut sysCfg * reset_time sysCfg)) (fl64 (gain sysCfg * m_dt c)))
                       (\<lambda>q. Inr (fl32 q))
                else Inr (m_maxSumError c)) (\<lambda>maxSumError.
         let clamped = newSumError > maxSumError;
             newSumError = (if clamped then maxSumError else newSumError)
         in bindR (divide64 (fl64 (newSumError * m_dt c)) (reset_time sysCfg)) (\<lambda>integral.
            let out = fl32 (fl64 (gain sysCfg * fl64 (deltaError + integral)));
                noUpdateToSumError = (\<not> out < 0 \<and> out > maxPvOut sysCfg);
                out = (if out < 0 then 0 else if out > maxPvOut sysCfg then maxPvOut sysCfg else out);
                update = (inhibitRefCnt = 0 \<and> \<not> noUpdateToSumError);
                sumError = (if update then newSumError else m_prevSumError c)
            in Inr (out, sumError, clamped \<or> \<not> update,
                 c\<lparr>m_prevSumError := sumError, m_prevPvOut := out, m_maxSumError := maxSumError\<rparr>))))"

definition Pi_execute :: "(Pi \<times> points) executor" where
  "Pi_execute tick interval = (\<lambda>(c, p).
     let resetPi = read_or False (mp_resetPiPulse p);
         deltaError = read_or 0 (mp_deltaIdtError p);
         freezeRefCnt = read_or 0 (mp_freezePiRefCnt p);
         inhibitRefCnt = read_or 0 (mp_inhibitfRefCnt p);
         bad = (\<not> m_valid (mp_resetPiPulse p) \<or> \<not> m_valid (mp_deltaIdtError p) \<or> \<not> m_valid (mp_systemConfig p) \<or>
                \<not> m_valid (mp_freezePiRefCnt p) \<or> \<not> m_valid (mp_inhibitfRefCnt p));
         freezeRefCnt = (if bad then 1 else freezeRefCnt);
         c = (if resetPi then c\<lparr>m_prevPvOut := 0, m_prevSumError := 0, m_maxSumError := 0\<rparr> else c)
     in bindR (if freezeRefCnt \<noteq> 0 then Inr (m_prevPvOut c, m_prevSumError c, True, c)
               else pi_step (m_data (mp_systemConfig p)) deltaError inhibitRefCnt c) (\<lambda>(out, sumError, inhibitState, c).
        Inr (True, c, p\<lparr>mp_pvOut := float_write out (mp_pvOut p),
                        mp_sumError := float_write sumError (mp_sumError p),
                        mp_pvInhibited := writeData inhibitState eNO_REQUEST (mp_pvInhibited p)\<rparr>)))"

subsection \<open>Bounds of the controller\<close>

lemma fl64_mono: "x \<le> y \<Longrightarrow> fl64 x \<le> fl64 y"
  by (simp add: fl64_def fl_mono)

lemma fl64_ge_1: "1 \<le> x \<Longrightarrow> 1 \<le> fl64 x"
proof -
  have "fl64 1 = 1"
    unfolding fl64_def by (rule fl_representable [where n = 1 and k = 0]) simp_all
  then show "1 \<le> x \<Longrightarrow> ?thesis"
    using fl64_mono [of 1 x] by simp
qed

lemma fl_nonneg_32_64: "0 \<le> x \<Longrightarrow> 0 \<le> fl32 x" "0 \<le> x \<Longrightarrow> 0 \<le> fl64 x"
  by (simp_all add: fl32_def fl64_def fl_nonneg)

lemma cfg_constants:
  assumes "cfg_ok d"
  shows "1 \<le> gain d" "1 \<le> reset_time d" "0 \<le> maxPvOut d" "maxPvOut d \<le> 300"
proof -
  have "gain d \<in> {1, 15, 20}" "reset_time d \<in> {1, 300000}" "maxPvOut d \<in> {1, 100, 200, 300}"
    using assms by (simp_all only: cfg_ok_def)
  then show "1 \<le> gain d" "1 \<le> reset_time d" "0 \<le> maxPvOut d" "maxPvOut d \<le> 300"
    by auto
qed

definition pi_state_ok :: "Pi \<Rightarrow> bool" where
  "pi_state_ok c \<longleftrightarrow> 1 \<le> m_dt c \<and> 0 \<le> m_prevPvOut c \<and> m_prevPvOut c \<le> 300 \<and> 0 \<le> m_prevSumError c \<and> 0 \<le> m_maxSumError c"

lemma pi_step_ok:
  assumes "pi_state_ok c" "cfg_ok d"
  shows "\<exists>out sum b c'. pi_step d delta inh c = Inr (out, sum, b, c') \<and> pi_state_ok c' \<and> out = m_prevPvOut c' \<and>
    out \<le> maxPvOut d \<and> (sum = m_prevSumError c \<or> inh = 0 \<and> sum \<le> m_maxSumError c') \<and> sum = m_prevSumError c'"
proof -
  define s where "s = max 0 (fl32 (m_prevSumError c + delta))"
  have d: "0 < gain d" "0 < reset_time d" "0 \<le> maxPvOut d" "maxPvOut d \<le> 300" "1 \<le> gain d * m_dt c"
    using cfg_constants [OF assms(2)] assms(1) mult_mono [of 1 "gain d" 1 "m_dt c"] by (simp_all add: pi_state_ok_def)
  have nz: "fl64 (gain d * m_dt c) \<noteq> 0"
    using fl64_ge_1 [OF d(5)] by simp
  define k where "k = (if areFloatsEqual (m_maxSumError c) 0
    then fl32 (fl64 (fl64 (maxPvOut d * reset_time d) / fl64 (gain d * m_dt c))) else m_maxSumError c)"
  have k: "0 \<le> k"
    using d assms(1) fl64_ge_1 [OF d(5)] by (auto simp: k_def pi_state_ok_def intro!: fl_nonneg_32_64 divide_nonneg_nonneg)
  define s' where "s' = min s k"
  have s': "0 \<le> s'" "s' \<le> k"
    using k by (auto simp: s'_def s_def)
  define raw where "raw = fl32 (fl64 (gain d * fl64 (delta + fl64 (fl64 (s' * m_dt c) / reset_time d))))"
  define out where "out = (if raw < 0 then 0 else if raw > maxPvOut d then maxPvOut d else raw)"
  define up where "up \<longleftrightarrow> inh = 0 \<and> \<not> (\<not> raw < 0 \<and> raw > maxPvOut d)"
  define sum where "sum = (if up then s' else m_prevSumError c)"
  have "pi_step d delta inh c = Inr (out, sum, s > k \<or> \<not> up,
      c\<lparr>m_prevSumError := sum, m_prevPvOut := out, m_maxSumError := k\<rparr>)"
  proof -
    have e1: "(if fl32 (m_prevSumError c + delta) < 0 then 0 else fl32 (m_prevSumError c + delta)) = s"
      and e3: "(if s > k then k else s) = s'"
      by (simp_all add: s_def s'_def max_def min_def)
    have e2: "(if areFloatsEqual (m_maxSumError c) 0
        then bindR (divide64 (fl64 (maxPvOut d * reset_time d)) (fl64 (gain d * m_dt c))) (\<lambda>q. Inr (fl32 q))
        else Inr (m_maxSumError c)) = Inr k"
      using nz by (simp add: divide64_def k_def)
    have e4: "divide64 (fl64 (s' * m_dt c)) (reset_time d) = Inr (fl64 (fl64 (s' * m_dt c) / reset_time d))"
      using d(2) by (simp add: divide64_def)
    show ?thesis
      unfolding pi_step_def Let_def e1 e2 bindR_simps e3 e4
      by (simp only: raw_def [symmetric] out_def [symmetric] up_def [symmetric] sum_def [symmetric])
  qed
  moreover have "0 \<le> out" "out \<le> maxPvOut d" "sum = m_prevSumError c \<or> inh = 0 \<and> sum \<le> k" "0 \<le> sum"
    using d s' assms(1) by (auto simp: out_def sum_def up_def pi_state_ok_def)
  moreover have "pi_state_ok (c\<lparr>m_prevSumError := sum, m_prevPvOut := out, m_maxSumError := k\<rparr>)"
    using assms(1) d(4) k calculation(2-) by (simp add: pi_state_ok_def)
  ultimately show ?thesis
    by fastforce
qed

definition pi_inv :: "Pi \<times> points \<Rightarrow> bool" where
  "pi_inv = (\<lambda>(c, p). pi_state_ok c \<and> cfg_ok (m_data (mp_systemConfig p)) \<and> \<not> m_locked (mp_pvOut p) \<and>
     (m_valid (mp_pvOut p) \<longrightarrow> 0 \<le> m_data (mp_pvOut p) \<and> m_data (mp_pvOut p) \<le> 300))"

definition pi_running :: "points \<Rightarrow> bool" where
  "pi_running p \<longleftrightarrow> m_valid (mp_resetPiPulse p) \<and> m_valid (mp_deltaIdtError p) \<and> m_valid (mp_systemConfig p) \<and>
     m_valid (mp_freezePiRefCnt p) \<and> m_valid (mp_inhibitfRefCnt p) \<and> m_data (mp_freezePiRefCnt p) = 0"

lemma float_write_range:
  assumes "\<not> m_locked q" "m_valid q \<longrightarrow> 0 \<le> m_data q \<and> m_data q \<le> 300" "0 \<le> v" "v \<le> 300"
  shows "\<not> m_locked (float_write v q)" "m_valid (float_write v q)"
    "0 \<le> m_data (float_write v q)" "m_data (float_write v q) \<le> 300"
    "m_data (float_write v q) = v \<or> areFloatsEqual (m_data (float_write v q)) v"
  using assms by (auto simp: float_write_def unlocked_write_by)

lemma Pi_execute_ok:
  assumes "pi_inv (c, p)"
  shows "\<exists>c' p'. Pi_execute tick t (c, p) = Inr (True, c', p') \<and> pi_inv (c', p') \<and> m_valid (mp_pvOut p') \<and>
    (m_data (mp_pvOut p') = m_prevPvOut c' \<or> areFloatsEqual (m_data (mp_pvOut p')) (m_prevPvOut c')) \<and>
    (if pi_running p then m_prevPvOut c' \<le> maxPvOut (m_data (mp_systemConfig p))
     else m_prevPvOut c' = (if read_or False (mp_resetPiPulse p) then 0 else m_prevPvOut c)) \<and>
    (\<not> pi_running p \<or> 0 < m_data (mp_inhibitfRefCnt p) \<longrightarrow>
       m_prevSumError c' = (if read_or False (mp_resetPiPulse p) then 0 else m_prevSumError c))"
proof -
  define c1 where "c1 = (if read_or False (mp_resetPiPulse p)
    then c\<lparr>m_prevPvOut := 0, m_prevSumError := 0, m_maxSumError := 0\<rparr> else c)"
  have c1: "pi_state_ok c1" "m_prevPvOut c1 = (if read_or False (mp_resetPiPulse p) then 0 else m_prevPvOut c)"
      "m_prevSumError c1 = (if read_or False (mp_resetPiPulse p) then 0 else m_prevSumError c)"
    using assms by (simp_all add: c1_def pi_inv_def pi_state_ok_def)
  define r where "r = (if pi_running p then pi_step (m_data (mp_systemConfig p)) (m_data (mp_deltaIdtError p))
    (m_data (mp_inhibitfRefCnt p)) c1 else Inr (m_prevPvOut c1, m_prevSumError c1, True, c1))"
  have ex: "Pi_execute tick t (c, p) = bindR r (\<lambda>(out, sumError, inhibitState, c).
      Inr (True, c, p\<lparr>mp_pvOut := float_write out (mp_pvOut p), mp_sumError := float_write sumError (mp_sumError p),
        mp_pvInhibited := writeData inhibitState eNO_REQUEST (mp_pvInhibited p)\<rparr>))"
    unfolding Pi_execute_def prod.case Let_def c1_def [symmetric] r_def
    by (rule bindR_weak_cong) (auto simp: pi_running_def read_or_def readData_def)
  obtain out sum b c' where r: "r = Inr (out, sum, b, c')" "pi_state_ok c'" "out = m_prevPvOut c'"
      "if pi_running p then out \<le> maxPvOut (m_data (mp_systemConfig p)) else out = m_prevPvOut c1"
      "\<not> pi_running p \<or> 0 < m_data (mp_inhibitfRefCnt p) \<longrightarrow> m_prevSumError c' = m_prevSumError c1"
    using pi_step_ok [OF c1(1), of "m_data (mp_systemConfig p)" "m_data (mp_deltaIdtError p)" "m_data (mp_inhibitfRefCnt p)"]
      assms c1(1) that unfolding r_def pi_inv_def by (cases "pi_running p") auto
  have "0 \<le> out" "out \<le> 300"
    using r(2,3) by (simp_all add: pi_state_ok_def)
  then show ?thesis
    using r assms c1 float_write_range [of "mp_pvOut p" out] by (cases "pi_running p") (simp_all add: ex pi_inv_def)
qed

interpretation pi_component: component Pi_execute pi_inv
proof
  fix s tick interval
  assume "pi_inv s"
  then show "\<exists>ok s'. Pi_execute tick interval s = Inr (ok, s') \<and> pi_inv s'"
    using Pi_execute_ok [of "fst s" "snd s" tick interval] by auto
qed

subsection \<open>Properties\<close>

text \<open>
  The rest of the program between two passes: it does not write the load, and the configurations it makes are those of
  the mode decision.
\<close>

definition pi_environment :: "(Pi \<times> points \<Rightarrow> Pi \<times> points) \<Rightarrow> bool" where
  "pi_environment env \<longleftrightarrow> (\<forall>c p. \<exists>p'. env (c, p) = (c, p') \<and> mp_pvOut p' = mp_pvOut p \<and>
     (cfg_ok (m_data (mp_systemConfig p)) \<longrightarrow> cfg_ok (m_data (mp_systemConfig p'))))"

lemma pi_environment_inv: "pi_environment env \<Longrightarrow> pi_inv s \<Longrightarrow> pi_inv (env s)"
proof -
  assume env: "pi_environment env" and s: "pi_inv s"
  obtain p' where "env (fst s, snd s) = (fst s, p')" "mp_pvOut p' = mp_pvOut (snd s)"
      "cfg_ok (m_data (mp_systemConfig (snd s))) \<longrightarrow> cfg_ok (m_data (mp_systemConfig p'))"
    using env unfolding pi_environment_def by metis
  with s show "pi_inv (env s)"
    by (auto simp: pi_inv_def split: prod.splits)
qed

text \<open>
  C16. The load stays in range and the integral term does not wind up. The configuration is one of those that the mode
  decision makes, the interval is at least a millisecond, and the point of the load is not locked and is written by the
  controller only. Then in a main loop of any ticks, with any inputs in each pass, every pass succeeds and the load
  stays between 0 and 300, the greatest maximum of all configurations. A pass that is not frozen computes a load between
  0 and the maximum of its configuration; a frozen pass keeps the load, also when the configuration has got a smaller maximum
  since; a pass that is frozen or inhibited keeps the integral term. A reset request sets both to zero first. The point
  gets the computed load, or keeps its old one when the float comparison takes the two for equal.
\<close>

theorem pi_output_bounded:
  assumes "pi_inv (c, p)" "\<forall>env \<in> fst ` set ticks. pi_environment env"
  shows "(\<exists>b' c' p'. main_loop Pi_execute ticks b (c, p) = Inr (b', c', p') \<and> 0 \<le> m_prevPvOut c' \<and> m_prevPvOut c' \<le> 300 \<and>
      (m_valid (mp_pvOut p') \<longrightarrow> 0 \<le> m_data (mp_pvOut p') \<and> m_data (mp_pvOut p') \<le> 300)) \<and>
    (\<exists>c' p'. Pi_execute tick t (c, p) = Inr (True, c', p') \<and> m_valid (mp_pvOut p') \<and>
      (m_data (mp_pvOut p') = m_prevPvOut c' \<or> areFloatsEqual (m_data (mp_pvOut p')) (m_prevPvOut c')) \<and> 0 \<le> m_prevPvOut c' \<and>
      (if pi_running p then m_prevPvOut c' \<le> maxPvOut (m_data (mp_systemConfig p))
       else m_prevPvOut c' = (if read_or False (mp_resetPiPulse p) then 0 else m_prevPvOut c)) \<and>
      (\<not> pi_running p \<or> 0 < m_data (mp_inhibitfRefCnt p) \<longrightarrow>
         m_prevSumError c' = (if read_or False (mp_resetPiPulse p) then 0 else m_prevSumError c)))"
proof
  obtain b' c' p' where m: "main_loop Pi_execute ticks b (c, p) = Inr (b', c', p')" "pi_inv (c', p')"
    using pi_component.main_loop_ok [OF assms(1), of ticks b] assms(2) pi_environment_inv by fastforce
  then show "\<exists>b' c' p'. main_loop Pi_execute ticks b (c, p) = Inr (b', c', p') \<and> 0 \<le> m_prevPvOut c' \<and> m_prevPvOut c' \<le> 300 \<and>
      (m_valid (mp_pvOut p') \<longrightarrow> 0 \<le> m_data (mp_pvOut p') \<and> m_data (mp_pvOut p') \<le> 300)"
    by (auto simp: pi_inv_def pi_state_ok_def)
next
  show "\<exists>c' p'. Pi_execute tick t (c, p) = Inr (True, c', p') \<and> m_valid (mp_pvOut p') \<and>
      (m_data (mp_pvOut p') = m_prevPvOut c' \<or> areFloatsEqual (m_data (mp_pvOut p')) (m_prevPvOut c')) \<and> 0 \<le> m_prevPvOut c' \<and>
      (if pi_running p then m_prevPvOut c' \<le> maxPvOut (m_data (mp_systemConfig p))
       else m_prevPvOut c' = (if read_or False (mp_resetPiPulse p) then 0 else m_prevPvOut c)) \<and>
      (\<not> pi_running p \<or> 0 < m_data (mp_inhibitfRefCnt p) \<longrightarrow>
         m_prevSumError c' = (if read_or False (mp_resetPiPulse p) then 0 else m_prevSumError c))"
    using Pi_execute_ok [OF assms(1), of tick t] by (fastforce simp: pi_inv_def pi_state_ok_def)
qed

definition sample_pi :: Pi where
  "sample_pi = Pi_start (Precision_T 2 0) \<lparr>m_dt = 0, m_prevSumError = 0, m_prevPvOut = 0, m_maxSumError = 0\<rparr>"

definition sample_pi_points :: points where
  "sample_pi_points = model_points\<lparr>mp_resetPiPulse := ModelPointCommon False False True,
     mp_deltaIdtError := ModelPointCommon 4 0 True, mp_freezePiRefCnt := ModelPointCommon 0 0 True,
     mp_inhibitfRefCnt := ModelPointCommon 0 0 True\<rparr>"

text \<open>Two passes; before the second one the temperature has come closer to the set-point.\<close>

theorem pi_output_bounded_witness:
  "(\<exists>b' c' p'. main_loop Pi_execute [(\<lambda>s. s, Precision_T 2 0),
       (\<lambda>(c, p). (c, p\<lparr>mp_deltaIdtError := float_write 1 (mp_deltaIdtError p)\<rparr>), Precision_T 4 0)]
       (base_start (Precision_T 2 0) (Base (Precision_T 2 0) (Precision_T 0 0))) (sample_pi, sample_pi_points) = Inr (b', c', p') \<and>
     0 \<le> m_prevPvOut c' \<and> m_prevPvOut c' \<le> 300) \<and>
   (\<exists>c' p'. Pi_execute (Precision_T 2 0) (Precision_T 2 0) (sample_pi, sample_pi_points) = Inr (True, c', p') \<and>
     m_valid (mp_pvOut p') \<and> m_prevPvOut c' \<le> 1)"
proof -
  let ?env = "\<lambda>(c, p). (c, p\<lparr>mp_deltaIdtError := float_write 1 (mp_deltaIdtError p)\<rparr>)"
  have "pi_inv (sample_pi, sample_pi_points)"
    by (simp add: sample_pi_def sample_pi_points_def Pi_start_def pi_inv_def pi_state_ok_def model_points_def MpSystemConfig_def
        ModelPointCommon_def cfg_ok_def setToOff_def Let_def)
  moreover have "pi_running sample_pi_points" "maxPvOut (m_data (mp_systemConfig sample_pi_points)) = 1"
    by (simp_all add: sample_pi_points_def pi_running_def model_points_def MpSystemConfig_def ModelPointCommon_def setToOff_def Let_def)
  moreover have "\<forall>env \<in> fst ` set [(\<lambda>s. s, Precision_T 2 0), (?env, Precision_T 4 0)]. pi_environment env"
    by (simp add: pi_environment_def)
  ultimately show ?thesis
    using pi_output_bounded [of sample_pi sample_pi_points "[(\<lambda>s. s, Precision_T 2 0), (?env, Precision_T 4 0)]"
        "base_start (Precision_T 2 0) (Base (Precision_T 2 0) (Precision_T 0 0))" "Precision_T 2 0" "Precision_T 2 0"]
    by (auto simp del: main_loop.simps)
qed

end
