(* ===== verification/Output_Components.thy ===== *)
theory Output_Components
  imports Operating_Mode
begin

text \<open>
  The components that run after the control logic (src/src/Storm/Component/): FanControl.cpp drives the
  blower in the continuous mode, AirFilterMonitor.cpp counts the hours of the air filter, and
  HvacRelayOutputs.cpp turns the virtual outputs into relays and records when the units were switched.
\<close>

subsection \<open>FanControl\<close>

definition FanControl_execute :: "points executor" where
  "FanControl_execute tick interval p =
     (if \<not> m_valid (mp_fanMode p) \<or> \<not> m_valid (mp_systemConfig p) \<or> \<not> m_valid (mp_vOutputs p) \<or>
         \<not> m_valid (mp_equipmentBeginTimes p)
      then Inr (True, p\<lparr>mp_vOutputs := setIndoorFanOutput VIRTUAL_OUTPUTS_OFF eNO_REQUEST (mp_vOutputs p)\<rparr>)
      else Inr (True, p\<lparr>mp_vOutputs := setIndoorFanContinousOutput
             (case m_data (mp_fanMode p) of
                eCONTINUOUS \<Rightarrow> fanContinuousSpeed (m_data (mp_systemConfig p))
              | eAUTO \<Rightarrow> VIRTUAL_OUTPUTS_OFF) eNO_REQUEST (mp_vOutputs p)\<rparr>))"

subsection \<open>AirFilterMonitor\<close>

record AirFilterMonitor =
  m_blowerWasOn :: bool
  m_markBlowerOn :: Precision_T

definition AirFilterMonitor_start :: "AirFilterMonitor \<Rightarrow> AirFilterMonitor" where
  "AirFilterMonitor_start c = c\<lparr>m_blowerWasOn := False\<rparr>"

definition blower_on :: "VirtualOutputs_T \<Rightarrow> bool" where
  "blower_on outputs \<longleftrightarrow> indoorFan outputs \<noteq> VIRTUAL_OUTPUTS_OFF \<or> indoorFanCont outputs \<noteq> VIRTUAL_OUTPUTS_OFF"

definition AirFilterMonitor_execute :: "(AirFilterMonitor \<times> points) executor" where
  "AirFilterMonitor_execute tick interval = (\<lambda>(c, p).
     if \<not> m_valid (mp_airFilterAlert p) \<or> \<not> m_valid (mp_maxAirFilterHours p) \<or>
        \<not> m_valid (mp_airFilterOperationTime p) \<or> \<not> m_valid (mp_vOutputs p)
     then Inr (True, c, p)
     else
       let alert = m_data (mp_airFilterAlert p);
           elapsedTime = m_data (mp_airFilterOperationTime p)
       in if active alert then Inr (True, c, p)
          else
            let (c, alert, elapsedTime) =
                  (if blower_on (m_data (mp_vOutputs p)) then
                     let c = (if \<not> m_blowerWasOn c then c\<lparr>m_blowerWasOn := True, m_markBlowerOn := interval\<rparr> else c);
                         elapsedTime = plus_eq elapsedTime (deltaPrecision (m_markBlowerOn c) interval);
                         c = c\<lparr>m_markBlowerOn := interval\<rparr>
                     in if op_ge elapsedTime (Precision_T (m_data (mp_maxAirFilterHours p) * 60 * 60) 0)
                        then (c\<lparr>m_blowerWasOn := False\<rparr>,
                              alert\<lparr>active := True, acked := False, critical := False\<rparr>, Precision_T 0 0)
                        else (c, alert, elapsedTime)
                   else (c, alert, elapsedTime))
            in Inr (True, c, p\<lparr>mp_airFilterAlert := writeData alert eNO_REQUEST (mp_airFilterAlert p),
                 mp_airFilterOperationTime := writeData elapsedTime eNO_REQUEST (mp_airFilterOperationTime p)\<rparr>))"

subsection \<open>HvacRelayOutputs\<close>

record HvacRelayOutputs_C =
  m_systemOn :: bool
  m_y1 :: bool
  m_w1 :: bool

definition HvacRelayOutputs :: HvacRelayOutputs_C where
  "HvacRelayOutputs = \<lparr>m_systemOn = True, m_y1 = True, m_w1 = True\<rparr>"

text \<open>The outputs after the safety overrides: a failed input, or a system that is forced off.\<close>

definition final_outputs :: "points \<Rightarrow> VirtualOutputs_T" where
  "final_outputs p =
     (let outputs = read_or vo_zero (mp_vOutputs p);
          failOff = (\<not> m_valid (mp_systemForcedOffRefCnt p) \<or> \<not> m_valid (mp_vOutputs p) \<or>
                     \<not> m_valid (mp_systemOn p) \<or> \<not> m_valid (mp_equipmentBeginTimes p));
          outputs = (if failOff then setSafeAllOff outputs else outputs)
      in if read_or 0 (mp_systemForcedOffRefCnt p) > 0 then setCapacityOff outputs else outputs)"

definition relays_of :: "VirtualOutputs_T \<Rightarrow> HvacRelayOutputs_T result" where
  "relays_of outputs =
     (if length (indoorStages outputs) < 3 \<or> length (outdoorStages outputs) < 1 then Inl OutOfBounds
      else let finalFanSpeed = (if indoorFanCont outputs > indoorFan outputs then indoorFanCont outputs else indoorFan outputs)
           in Inr \<lparr>relay_g = finalFanSpeed > VIRTUAL_OUTPUTS_OFF,
                relay_bk = of_nat ((unat finalFanSpeed + 5) div 10),
                relay_w1 = indoorStages outputs ! 0 > VIRTUAL_OUTPUTS_OFF,
                relay_w2 = indoorStages outputs ! 1 > VIRTUAL_OUTPUTS_OFF,
                relay_w3 = indoorStages outputs ! 2 > VIRTUAL_OUTPUTS_OFF,
                relay_o = (\<not> sovInHeating outputs),
                relay_y1 = outdoorStages outputs ! 0 > VIRTUAL_OUTPUTS_OFF,
                relay_y2 = False\<rparr>)"

text \<open>The begin times of the units: \<open>edge\<close> is the value of an on or off time at a change.\<close>

definition edge :: "bool \<Rightarrow> bool \<Rightarrow> Precision_T \<Rightarrow> Precision_T \<Rightarrow> Precision_T" where
  "edge from to now old = (if from \<and> \<not> to then now else old)"

definition begin_times :: "HvacRelayOutputs_C \<Rightarrow> HvacRelayOutputs_T \<Rightarrow> bool \<Rightarrow> Precision_T \<Rightarrow> EquipmentTimes_T \<Rightarrow> EquipmentTimes_T" where
  "begin_times c relays sysOn now et = et\<lparr>
     outdoorUnitBeginOffTime := edge (m_y1 c) (relay_y1 relays) now (outdoorUnitBeginOffTime et),
     outdoorUnitBeginOnTime := edge (relay_y1 relays) (m_y1 c) now (outdoorUnitBeginOnTime et),
     indoorUnitBeginOffTime := edge (m_w1 c) (relay_w1 relays) now (indoorUnitBeginOffTime et),
     indoorUnitBeginOnTime := edge (relay_w1 relays) (m_w1 c) now (indoorUnitBeginOnTime et),
     systemBeginOffTime := edge (m_systemOn c) sysOn now (systemBeginOffTime et),
     systemBeginOnTime := edge sysOn (m_systemOn c) now (systemBeginOnTime et)\<rparr>"

text \<open>
  The local variable for the equipment times is not initialised; \<open>junk\<close> is its value when the point is
  invalid.
\<close>

definition HvacRelayOutputs_execute :: "EquipmentTimes_T \<Rightarrow> (HvacRelayOutputs_C \<times> points) executor" where
  "HvacRelayOutputs_execute junk tick interval = (\<lambda>(c, p).
     bindR (relays_of (final_outputs p)) (\<lambda>relaysNew.
     let sysOn = read_or False (mp_systemOn p);
         equipTimes = begin_times c relaysNew sysOn interval (read_or junk (mp_equipmentBeginTimes p))
     in Inr (True, c\<lparr>m_y1 := relay_y1 relaysNew, m_w1 := relay_w1 relaysNew, m_systemOn := sysOn\<rparr>,
          p\<lparr>mp_equipmentBeginTimes := writeData equipTimes eNO_REQUEST (mp_equipmentBeginTimes p),
            mp_relayOutputs := relays_write relaysNew eNO_REQUEST (mp_relayOutputs p)\<rparr>)))"

subsection \<open>Lemmas\<close>

lemma final_outputs_ok: "vo_ok (m_data (mp_vOutputs p)) \<Longrightarrow> vo_ok (final_outputs p)"
  by (auto simp: final_outputs_def setSafeAllOff_def setCapacityOff_def read_or_def readData_def vo_ok_def vo_zero_def Let_def)

lemma fan_percent:
  fixes x :: u16
  assumes "x \<le> 1000"
  shows "(of_nat ((unat x + 5) div 10) :: u8) \<le> 100"
proof -
  have "(unat x + 5) div 10 \<le> 100"
    using assms by (simp add: word_le_nat_alt)
  then show ?thesis
    by (simp add: word_le_nat_alt unat_of_nat)
qed

lemma relays_of_ok:
  assumes "vo_ok v"
  shows "\<exists>r. relays_of v = Inr r \<and> relay_bk r \<le> 100"
  using assms fan_percent by (auto simp: relays_of_def vo_ok_def Let_def)

lemma FanControl_execute_ok:
  assumes "vo_ok (m_data (mp_vOutputs p))"
  shows "\<exists>p'. FanControl_execute tick t p = Inr (True, p') \<and> vo_ok (m_data (mp_vOutputs p'))"
  using assms vo_ok_shape [OF assms]
  by (auto simp: FanControl_execute_def setIndoorFanOutput_def setIndoorFanContinousOutput_def vo_shape_def
      intro!: vo_write_ok)

interpretation fan_component: component FanControl_execute "\<lambda>p. vo_ok (m_data (mp_vOutputs p))"
  by unfold_locales (use FanControl_execute_ok in blast)

interpretation relay_component: component "HvacRelayOutputs_execute junk" "\<lambda>(c, p). vo_ok (m_data (mp_vOutputs p))"
  for junk
proof
  fix s :: "HvacRelayOutputs_C \<times> points" and tick interval
  assume "(\<lambda>(c, p). vo_ok (m_data (mp_vOutputs p))) s"
  then show "\<exists>ok s'. HvacRelayOutputs_execute junk tick interval s = Inr (ok, s') \<and> (\<lambda>(c, p). vo_ok (m_data (mp_vOutputs p))) s'"
    using relays_of_ok [OF final_outputs_ok, of "snd s"]
    by (cases s) (auto simp: HvacRelayOutputs_execute_def Let_def simp del: bindR_eq_Inr)
qed

subsection \<open>Properties\<close>

text \<open>
  C3. The relays are safe. With virtual outputs in range and unlocked output points the pass always
  succeeds. No heating and no compressor relay is closed while the system is forced off or an input is
  invalid; with an invalid input the blower is off as well. Otherwise each relay follows its virtual
  output, and the blower speed is at most 100 percent. The time the compressor and the heater went off,
  on which their minimum off times rest, is the boundary of the pass that opens their relays.
\<close>

theorem relays_safe:
  assumes "vo_ok (m_data (mp_vOutputs p))" "\<not> m_locked (mp_relayOutputs p)" "\<not> m_locked (mp_equipmentBeginTimes p)"
  shows "\<exists>c' p' r. HvacRelayOutputs_execute junk tick t (c, p) = Inr (True, c', p') \<and> r = m_data (mp_relayOutputs p') \<and>
    m_valid (mp_relayOutputs p') \<and> relay_bk r \<le> 100 \<and>
    (forced_off p \<or> \<not> m_valid (mp_vOutputs p) \<or> \<not> m_valid (mp_systemOn p) \<or>
       \<not> m_valid (mp_equipmentBeginTimes p) \<longrightarrow> \<not> relay_w1 r \<and> \<not> relay_w2 r \<and> \<not> relay_w3 r \<and> \<not> relay_y1 r \<and> \<not> relay_y2 r) \<and>
    (\<not> m_valid (mp_systemForcedOffRefCnt p) \<or> \<not> m_valid (mp_vOutputs p) \<or> \<not> m_valid (mp_systemOn p) \<or>
       \<not> m_valid (mp_equipmentBeginTimes p) \<longrightarrow> \<not> relay_g r \<and> relay_bk r = 0) \<and>
    (forced_off p \<or> \<not> m_valid (mp_vOutputs p) \<or> \<not> m_valid (mp_systemOn p) \<or> \<not> m_valid (mp_equipmentBeginTimes p) \<or>
       relays_of (m_data (mp_vOutputs p)) = Inr r) \<and>
    (m_y1 c \<and> \<not> relay_y1 r \<longrightarrow> outdoorUnitBeginOffTime (m_data (mp_equipmentBeginTimes p')) = t) \<and>
    (m_w1 c \<and> \<not> relay_w1 r \<longrightarrow> indoorUnitBeginOffTime (m_data (mp_equipmentBeginTimes p')) = t)"
proof -
  obtain r where r: "relays_of (final_outputs p) = Inr r" "relay_bk r \<le> 100"
    using relays_of_ok [OF final_outputs_ok [OF assms(1)]] by blast
  have v: "relays_validate r = r"
    using r(2) by (simp add: relays_validate_def)
  define p' where "p' = p\<lparr>mp_equipmentBeginTimes := writeData (begin_times c r (read_or False (mp_systemOn p)) t
      (read_or junk (mp_equipmentBeginTimes p))) eNO_REQUEST (mp_equipmentBeginTimes p),
    mp_relayOutputs := relays_write r eNO_REQUEST (mp_relayOutputs p)\<rparr>"
  have p': "m_data (mp_relayOutputs p') = r" "m_valid (mp_relayOutputs p')"
    "m_data (mp_equipmentBeginTimes p') = begin_times c r (read_or False (mp_systemOn p)) t (read_or junk (mp_equipmentBeginTimes p))"
    using assms(2,3) by (simp_all add: p'_def relays_write_def v unlocked_write)
  have "HvacRelayOutputs_execute junk tick t (c, p) =
      Inr (True, c\<lparr>m_y1 := relay_y1 r, m_w1 := relay_w1 r, m_systemOn := read_or False (mp_systemOn p)\<rparr>, p')"
    using r(1) by (simp add: HvacRelayOutputs_execute_def p'_def Let_def)
  moreover have "forced_off p \<or> \<not> m_valid (mp_vOutputs p) \<or> \<not> m_valid (mp_systemOn p) \<or>
       \<not> m_valid (mp_equipmentBeginTimes p) \<longrightarrow> \<not> relay_w1 r \<and> \<not> relay_w2 r \<and> \<not> relay_w3 r \<and> \<not> relay_y1 r \<and> \<not> relay_y2 r"
    using r(1) by (auto simp: relays_of_def final_outputs_def setSafeAllOff_def setCapacityOff_def vo_zero_def
        forced_off_def read_or_def readData_def Let_def split: if_splits)
  moreover have "\<not> m_valid (mp_systemForcedOffRefCnt p) \<or> \<not> m_valid (mp_vOutputs p) \<or> \<not> m_valid (mp_systemOn p) \<or>
       \<not> m_valid (mp_equipmentBeginTimes p) \<longrightarrow> \<not> relay_g r \<and> relay_bk r = 0"
    using r(1) by (auto simp: relays_of_def final_outputs_def setSafeAllOff_def setCapacityOff_def vo_zero_def
        forced_off_def read_or_def readData_def Let_def split: if_splits)
  moreover have "forced_off p \<or> \<not> m_valid (mp_vOutputs p) \<or> \<not> m_valid (mp_systemOn p) \<or> \<not> m_valid (mp_equipmentBeginTimes p) \<or>
      relays_of (m_data (mp_vOutputs p)) = Inr r"
    using r(1) by (auto simp: final_outputs_def forced_off_def read_or_def readData_def Let_def split: if_splits)
  ultimately show ?thesis
    using p' r(2) by (auto simp: begin_times_def edge_def)
qed

theorem relays_safe_witness:
  "\<exists>c' p'. HvacRelayOutputs_execute times_zero (Precision_T 2 0) (Precision_T 2 0) (HvacRelayOutputs, model_points)
     = Inr (True, c', p') \<and> \<not> relay_w1 (m_data (mp_relayOutputs p')) \<and> \<not> relay_y1 (m_data (mp_relayOutputs p')) \<and>
     outdoorUnitBeginOffTime (m_data (mp_equipmentBeginTimes p')) = Precision_T 2 0"
proof -
  have "vo_ok (m_data (mp_vOutputs model_points))" "\<not> m_locked (mp_relayOutputs model_points)"
      "\<not> m_locked (mp_equipmentBeginTimes model_points)" "\<not> m_valid (mp_systemOn model_points)" "m_y1 HvacRelayOutputs"
    by (simp_all add: model_points_def MpVirtualOutputs_def hookSetInvalid_def ModelPointCommon_def
        MpHvacRelayOutputs_def MpEquipmentBeginTimes_def HvacRelayOutputs_def)
  then show ?thesis
    using relays_safe [of model_points times_zero "Precision_T 2 0" "Precision_T 2 0" HvacRelayOutputs] by auto
qed

lemma filter_pass_on:
  assumes "m_valid (mp_airFilterAlert p)" "m_valid (mp_maxAirFilterHours p)" "m_valid (mp_airFilterOperationTime p)"
    "m_valid (mp_vOutputs p)" "\<not> active (m_data (mp_airFilterAlert p))" "\<not> m_locked (mp_airFilterOperationTime p)"
    and "blower_on (m_data (mp_vOutputs p))" "m_blowerWasOn c"
    and "T = plus_eq (m_data (mp_airFilterOperationTime p)) (deltaPrecision (m_markBlowerOn c) t)"
    and "\<not> op_ge T (Precision_T (m_data (mp_maxAirFilterHours p) * 60 * 60) 0)"
  shows "\<exists>p'. AirFilterMonitor_execute tick t (c, p) = Inr (True, c\<lparr>m_markBlowerOn := t\<rparr>, p') \<and>
    m_data (mp_airFilterOperationTime p') = T"
  using assms by (simp add: AirFilterMonitor_execute_def Let_def unlocked_write)

lemma same_write: "m_valid q \<Longrightarrow> writeData (m_data q) eNO_REQUEST q = q"
  by (simp add: writeData_def write_core_def testAndUpdateLock_def commit_def)

lemma filter_pass_off:
  "\<not> blower_on (m_data (mp_vOutputs p)) \<Longrightarrow> AirFilterMonitor_execute tick t (c, p) = Inr (True, c, p)"
  by (simp add: AirFilterMonitor_execute_def same_write Let_def)

text \<open>
  The air filter monitor counts time while the blower is off. The flag that the blower was on is
  never cleared when the blower stops, so the next pass with the blower on adds the whole time since the
  last pass with the blower on, whatever passes with the blower off lie in between.
\<close>

lemma air_filter_counts_off_time:
  assumes "m_valid (mp_airFilterAlert p)" "m_valid (mp_maxAirFilterHours p)" "m_valid (mp_airFilterOperationTime p)"
    and "\<not> active (m_data (mp_airFilterAlert p))" "\<not> m_locked (mp_airFilterOperationTime p)" "m_blowerWasOn c"
    and "\<not> blower_on (m_data (mp_vOutputs p))" "m_valid v" "blower_on (m_data v)"
    and "\<not> op_ge (plus_eq (m_data (mp_airFilterOperationTime p)) (deltaPrecision (m_markBlowerOn c) t2))
      (Precision_T (m_data (mp_maxAirFilterHours p) * 60 * 60) 0)"
  shows "\<exists>p1 p2. AirFilterMonitor_execute tick1 t1 (c, p) = Inr (True, c, p1) \<and>
    AirFilterMonitor_execute tick2 t2 (c, p1\<lparr>mp_vOutputs := v\<rparr>) = Inr (True, c\<lparr>m_markBlowerOn := t2\<rparr>, p2) \<and>
    m_data (mp_airFilterOperationTime p2)
      = plus_eq (m_data (mp_airFilterOperationTime p)) (deltaPrecision (m_markBlowerOn c) t2)"
  using assms filter_pass_off [OF assms(7), of tick1 t1 c] filter_pass_on [of "p\<lparr>mp_vOutputs := v\<rparr>" c _ t2 tick2] by simp

definition sample_filter :: points where
  "sample_filter = model_points\<lparr>mp_maxAirFilterHours := ModelPointCommon 100 0 True,
     mp_airFilterOperationTime := ModelPointCommon (Precision_T 0 0) (Precision_T 0 0) True\<rparr>"

lemma air_filter_counts_off_time_witness:
  "\<exists>p1 p2. AirFilterMonitor_execute (Precision_T 2 0) (Precision_T 2 0)
       (\<lparr>m_blowerWasOn = True, m_markBlowerOn = Precision_T 0 0\<rparr>, sample_filter)
       = Inr (True, \<lparr>m_blowerWasOn = True, m_markBlowerOn = Precision_T 0 0\<rparr>, p1) \<and>
     AirFilterMonitor_execute (Precision_T 7200 0) (Precision_T 7200 0)
       (\<lparr>m_blowerWasOn = True, m_markBlowerOn = Precision_T 0 0\<rparr>,
        p1\<lparr>mp_vOutputs := ModelPointCommon (vo_zero\<lparr>indoorFan := 1000\<rparr>) vo_zero True\<rparr>)
       = Inr (True, \<lparr>m_blowerWasOn = True, m_markBlowerOn = Precision_T 7200 0\<rparr>, p2) \<and>
     m_data (mp_airFilterOperationTime p2) = Precision_T 7200 0"
proof -
  let ?c = "\<lparr>m_blowerWasOn = True, m_markBlowerOn = Precision_T 0 0\<rparr>"
  let ?v = "ModelPointCommon (vo_zero\<lparr>indoorFan := 1000\<rparr>) vo_zero True"
  have "m_valid (mp_airFilterAlert sample_filter)" "m_valid (mp_maxAirFilterHours sample_filter)"
      "m_valid (mp_airFilterOperationTime sample_filter)" "\<not> active (m_data (mp_airFilterAlert sample_filter))"
      "\<not> m_locked (mp_airFilterOperationTime sample_filter)" "\<not> blower_on (m_data (mp_vOutputs sample_filter))"
      "m_valid ?v" "blower_on (m_data ?v)" "m_data (mp_airFilterOperationTime sample_filter) = Precision_T 0 0"
      "m_data (mp_maxAirFilterHours sample_filter) = 100"
    by (simp_all add: sample_filter_def model_points_def ModelPointCommon_def MpSimpleAlarm_def MpVirtualOutputs_def
        hookSetInvalid_def blower_on_def vo_zero_def)
  moreover have "plus_eq (Precision_T 0 0) (deltaPrecision (Precision_T 0 0) (Precision_T 7200 0)) = Precision_T 7200 0"
      "\<not> op_ge (Precision_T 7200 0) (Precision_T (100 * 60 * 60) 0)"
    by (simp_all add: plus_eq_def deltaPrecision_def op_ge_def op_gt_def op_eq_def Let_def)
  ultimately show ?thesis
    using air_filter_counts_off_time [of sample_filter ?c ?v "Precision_T 7200 0" "Precision_T 2 0" "Precision_T 2 0" "Precision_T 7200 0"]
    by simp
qed

end
