(* ===== verification/Control_Component.thy ===== *)
theory Control_Component
  imports Equipment Operating_Mode
begin

text \<open>
  The component that runs the control logic of one kind of equipment
  (src/src/Storm/Component/Control.cpp). Three instances of it share the model points; each works when the
  operating mode is the one of its equipment. A pass copies its inputs into an argument block on the
  stack, lets the equipment (theory Equipment) work on it, and writes the results back to the points.

  The state of a pass is the component, the points and the store of the stages. The argument block gets
  a fresh address in each pass.
\<close>

record Control_C =
  m_equipment :: equipment
  m_sysCfgSequenceNumber :: u16

definition Control :: "equipment \<Rightarrow> Control_C" where
  "Control controlLogic = \<lparr>m_equipment = controlLogic, m_sysCfgSequenceNumber = SEQUENCE_NUMBER_UNKNOWN\<rparr>"

definition Control_start :: "Control_C \<times> points \<times> world \<Rightarrow> (bool \<times> Control_C \<times> points \<times> world) result" where
  "Control_start = (\<lambda>(c, p, w). bindR (eq_start (m_equipment c) w) (\<lambda>(ok, w). Inr (ok, c, p, w)))"

definition control_inputs_valid :: "points \<Rightarrow> bool" where
  "control_inputs_valid p \<longleftrightarrow> m_valid (mp_systemConfig p) \<and> m_valid (mp_vOutputs p) \<and> m_valid (mp_equipmentBeginTimes p) \<and>
     m_valid (mp_systemOn p) \<and> m_valid (mp_cycleInfo p) \<and> m_valid (mp_operatingModeChanged p) \<and>
     m_valid (mp_whiteBox p) \<and> m_valid (mp_pvOut p)"

definition load_args :: "Precision_T \<Rightarrow> Precision_T \<Rightarrow> points \<Rightarrow> Args_T" where
  "load_args tick interval p = \<lparr>pvOut = m_data (mp_pvOut p), systemConfig = m_data (mp_systemConfig p),
     currentTick = tick, currentInterval = interval, equipmentBeginTimes = m_data (mp_equipmentBeginTimes p),
     whiteBox = m_data (mp_whiteBox p), vOutputs = m_data (mp_vOutputs p), cycleInfo = m_data (mp_cycleInfo p),
     systemOn = m_data (mp_systemOn p)\<rparr>"

definition enter_pass :: "Precision_T \<Rightarrow> Precision_T \<Rightarrow> points \<Rightarrow> world \<Rightarrow> world" where
  "enter_pass tick interval p w = w\<lparr>w_args := load_args tick interval p, w_argsId := Suc (w_argsId w)\<rparr>"

text \<open>The reset of the equipment after a change of the configuration or of the mode.\<close>

definition reset_pass :: "equipment \<Rightarrow> action" where
  "reset_pass e w = eq_reset e (upd_args (\<lambda>args. args\<lparr>systemOn := False,
     cycleInfo := (cycleInfo args)\<lparr>mode := eOFF_STATUS\<rparr>, vOutputs := setCapacityOff (vOutputs args)\<rparr>) w)"

definition Control_execute :: "(Control_C \<times> points \<times> world) executor" where
  "Control_execute tick interval = (\<lambda>(c, p, w).
     if \<not> control_inputs_valid p then Inr (True, c, p, w)
     else
       let w = enter_pass tick interval p w
       in if currentOpMode (systemConfig (w_args w)) = getOperatingMode (m_equipment c) then
            let sysSeqNum = m_seqNum (mp_systemConfig p)
            in bindR (if sysSeqNum \<noteq> m_sysCfgSequenceNumber c \<or> m_data (mp_operatingModeChanged p)
                      then bindR (reset_pass (m_equipment c) w) (\<lambda>w. Inr (c\<lparr>m_sysCfgSequenceNumber := sysSeqNum\<rparr>, w))
                      else Inr (c, w)) (\<lambda>(c, w).
               bindR (executeActive (m_equipment c) w) (\<lambda>(ok, w).
               if \<not> ok
               then Inr (False, c, p\<lparr>mp_vOutputs := mp_setSafeAllOff (vOutputs (w_args w)) eNO_REQUEST (mp_vOutputs p)\<rparr>, w)
               else Inr (True, c,
                      p\<lparr>mp_vOutputs := vo_write (vOutputs (w_args w)) eNO_REQUEST (mp_vOutputs p),
                        mp_cycleInfo := writeData (cycleInfo (w_args w)) eNO_REQUEST (mp_cycleInfo p),
                        mp_systemOn := writeData (systemOn (w_args w)) eNO_REQUEST (mp_systemOn p)\<rparr>, w)))
          else bindR (executeOff (m_equipment c) w) (\<lambda>(ok, w). Inr (ok, c, p, w)))"

subsection \<open>The staged system between two passes\<close>

lemma staged_transfer:
  assumes "staged ids l w" "w_stages w' = w_stages w" "systemOn (w_args w') = systemOn (w_args w)"
    "pvOut (w_args w') = pvOut (w_args w)" "systemConfig (w_args w') = systemConfig (w_args w)"
    "length (indoorStages (vOutputs (w_args w'))) = length (indoorStages (vOutputs (w_args w)))"
    "length (outdoorStages (vOutputs (w_args w'))) = length (outdoorStages (vOutputs (w_args w)))"
  shows "staged ids l w'"
  using assms by (auto simp: staged_def usable_def out_ok_def split: stage_kind.splits)

text \<open>
  The component is ready at level \<open>l\<close>: its inputs are valid, its output points are not locked, the system
  is configured for its equipment since the last pass, and its stages, with the inputs of the points, are
  staged at this level.
\<close>

definition control_ready :: "nat list \<Rightarrow> nat \<Rightarrow> Control_C \<times> points \<times> world \<Rightarrow> bool" where
  "control_ready ids l = (\<lambda>(c, p, w). control_inputs_valid p \<and> vo_ok (m_data (mp_vOutputs p)) \<and>
     \<not> m_locked (mp_vOutputs p) \<and> \<not> m_locked (mp_cycleInfo p) \<and> \<not> m_locked (mp_systemOn p) \<and>
     m_seqNum (mp_systemConfig p) = m_sysCfgSequenceNumber c \<and> \<not> m_data (mp_operatingModeChanged p) \<and>
     currentOpMode (m_data (mp_systemConfig p)) = getOperatingMode (m_equipment c) \<and>
     staged ids l (enter_pass (Precision_T 0 0) (Precision_T 0 0) p w))"

lemma enter_pass_simps [simp]:
  "w_stages (enter_pass tick t p w) = w_stages w" "w_args (enter_pass tick t p w) = load_args tick t p"
  "systemOn (load_args tick t p) = m_data (mp_systemOn p)" "pvOut (load_args tick t p) = m_data (mp_pvOut p)"
  "systemConfig (load_args tick t p) = m_data (mp_systemConfig p)" "vOutputs (load_args tick t p) = m_data (mp_vOutputs p)"
  "cycleInfo (load_args tick t p) = m_data (mp_cycleInfo p)"
  by (simp_all add: enter_pass_def load_args_def)

lemma ready_staged: "control_ready ids l (c, p, w) \<Longrightarrow> staged ids l (enter_pass tick t p w)"
  unfolding control_ready_def by (rule staged_transfer [of ids l "enter_pass (Precision_T 0 0) (Precision_T 0 0) p w"]) simp_all

text \<open>The points after a successful pass.\<close>

definition publish :: "Args_T \<Rightarrow> points \<Rightarrow> points" where
  "publish a p = p\<lparr>mp_vOutputs := vo_write (vOutputs a) eNO_REQUEST (mp_vOutputs p),
     mp_cycleInfo := writeData (cycleInfo a) eNO_REQUEST (mp_cycleInfo p),
     mp_systemOn := writeData (systemOn a) eNO_REQUEST (mp_systemOn p)\<rparr>"

lemma control_pass:
  assumes "control_ready ids l (c, p, w)" "executeActive (m_equipment c) (enter_pass tick t p w) = Inr (True, w')"
    "staged ids l' w'" "frame (enter_pass tick t p w) w'"
  shows "Control_execute tick t (c, p, w) = Inr (True, c, publish (w_args w') p, w') \<and>
    control_ready ids l' (c, publish (w_args w') p, w')"
proof -
  note r = assms(1) [unfolded control_ready_def prod.case]
  have "Control_execute tick t (c, p, w) = Inr (True, c, publish (w_args w') p, w')"
    using r assms(2) by (simp add: Control_execute_def publish_def Let_def)
  moreover have "control_ready ids l' (c, publish (w_args w') p, w')"
  proof -
    let ?p = "publish (w_args w') p"
    have in_eq: "inputs_of (w_args w') = inputs_of (load_args tick t p)"
      using assms(4) by (simp add: frame_def)
    then have len: "vo_shape (vOutputs (w_args w'))"
      using r by (simp add: inputs_of_def vo_ok_def vo_shape_def)
    have out: "m_data (mp_vOutputs ?p) = vo_validate (vOutputs (w_args w'))" "m_data (mp_systemOn ?p) = systemOn (w_args w')"
      using r by (simp_all add: publish_def vo_write_def unlocked_write)
    have "staged ids l' (enter_pass (Precision_T 0 0) (Precision_T 0 0) ?p w')"
      by (rule staged_transfer [OF assms(3)])
        (use in_eq out in \<open>simp_all add: inputs_of_def vo_validate_def publish_def\<close>)
    then show ?thesis
      using r len out vo_validate_ok
      by (simp add: control_ready_def publish_def control_inputs_valid_def vo_write_def write_valid_locked unlocked_write)
  qed
  ultimately show ?thesis ..
qed

lemma heating_level_le: "l \<le> n \<Longrightarrow> 0 < n \<Longrightarrow> heating_level n l pv m up down \<le> n"
  by (auto simp: heating_level_def)

text \<open>The equipment is ready at some level that it is configured for.\<close>

fun running :: "equipment \<Rightarrow> Control_C \<times> points \<times> world \<Rightarrow> bool" where
  "running (IndoorHeating s1 s2 s3) (c, p, w) \<longleftrightarrow> (let n = numIndoorStages (m_data (mp_systemConfig p))
     in n \<in> {1, 2, 3} \<and> (\<exists>l \<le> n. control_ready [s1, s2, s3] l (c, p, w)))"
| "running (Cooling s) (c, p, w) \<longleftrightarrow> numCompressorStages (m_data (mp_systemConfig p)) = 1 \<and>
     (\<exists>l. control_ready [s] l (c, p, w))"
| "running OffEquipment (c, p, w) \<longleftrightarrow> control_ready [] 0 (c, p, w)"

definition control_running :: "Control_C \<times> points \<times> world \<Rightarrow> bool" where
  "control_running s \<longleftrightarrow> running (m_equipment (fst s)) s"

lemma publish_config [simp]: "mp_systemConfig (publish a p) = mp_systemConfig p"
  by (simp add: publish_def)

lemma heating_pass:
  assumes "m_equipment c = IndoorHeating s1 s2 s3" "control_ready [s1, s2, s3] l (c, p, w)"
    "numIndoorStages (m_data (mp_systemConfig p)) = n" "n \<in> {1, 2, 3}" "l \<le> n"
  shows "\<exists>w'. Control_execute tick t (c, p, w) = Inr (True, c, publish (w_args w') p, w') \<and>
    control_ready [s1, s2, s3] (next_level [s1, s2, s3] n l (enter_pass tick t p w)) (c, publish (w_args w') p, w')"
proof -
  obtain w' where "IndoorHeating_executeActive s1 s2 s3 (enter_pass tick t p w) = Inr (True, w')"
      "staged [s1, s2, s3] (next_level [s1, s2, s3] n l (enter_pass tick t p w)) w'" "frame (enter_pass tick t p w) w'"
    using heating_refines [OF ready_staged [OF assms(2), of tick t], of n] assms(3-) by auto
  then show ?thesis
    using control_pass [OF assms(2), of tick t w'] assms(1) by auto
qed

lemma cooling_pass:
  assumes "m_equipment c = Cooling s" "control_ready [s] l (c, p, w)" "numCompressorStages (m_data (mp_systemConfig p)) = 1"
  shows "\<exists>w'. Control_execute tick t (c, p, w) = Inr (True, c, publish (w_args w') p, w') \<and>
    control_ready [s] (cooling_level l (m_data (mp_pvOut p)) (compressor_off_met (load_args tick t p))
      (may_stop 0 s (enter_pass tick t p w))) (c, publish (w_args w') p, w')"
proof -
  obtain w' where "Cooling_executeActive s (enter_pass tick t p w) = Inr (True, w')" "frame (enter_pass tick t p w) w'"
      "staged [s] (cooling_level l (m_data (mp_pvOut p)) (compressor_off_met (load_args tick t p))
        (may_stop 0 s (enter_pass tick t p w))) w'"
    using cooling_refines [OF ready_staged [OF assms(2), of tick t]] assms(3-) by auto
  then show ?thesis
    using control_pass [OF assms(2), of tick t w'] assms(1) by auto
qed

lemma off_pass:
  assumes "m_equipment c = OffEquipment" "control_ready [] 0 (c, p, w)"
  shows "\<exists>w'. Control_execute tick t (c, p, w) = Inr (True, c, publish (w_args w') p, w') \<and>
    control_ready [] 0 (c, publish (w_args w') p, w')"
proof -
  obtain w' where w': "Off_executeActive (enter_pass tick t p w) = Inr (True, w')"
    by (simp add: Off_executeActive_def Let_def)
  then have "staged [] 0 w'" "frame (enter_pass tick t p w) w'"
    using assms(2) by (auto simp: Off_executeActive_def Let_def upd_args_def staged_def frame_def inputs_of_def setCapacityOff_def
        vo_zero_def vo_ok_def control_ready_def)
  then show ?thesis
    using control_pass [OF assms(2), of tick t w'] assms(1) w' by auto
qed

lemma Control_execute_running:
  assumes "control_running (c, p, w)"
  shows "\<exists>p' w'. Control_execute tick t (c, p, w) = Inr (True, c, p', w') \<and> control_running (c, p', w')"
proof (cases "m_equipment c")
  case (Cooling s)
  then obtain l where l: "numCompressorStages (m_data (mp_systemConfig p)) = 1" "control_ready [s] l (c, p, w)"
    using assms by (auto simp: control_running_def)
  show ?thesis
    using cooling_pass [OF Cooling l(2,1), of tick t] l(1) Cooling by (auto simp: control_running_def)
next
  case (IndoorHeating s1 s2 s3)
  then obtain l n where l: "numIndoorStages (m_data (mp_systemConfig p)) = n" "n \<in> {1, 2, 3}" "l \<le> n"
      "control_ready [s1, s2, s3] l (c, p, w)"
    using assms by (auto simp: control_running_def Let_def)
  obtain w' where w': "Control_execute tick t (c, p, w) = Inr (True, c, publish (w_args w') p, w')"
    "control_ready [s1, s2, s3] (next_level [s1, s2, s3] n l (enter_pass tick t p w)) (c, publish (w_args w') p, w')"
    using heating_pass [OF IndoorHeating l(4,1-3), of tick t] by blast
  moreover have "next_level [s1, s2, s3] n l (enter_pass tick t p w) \<le> n"
    using l(2,3) by (intro heating_level_le) auto
  ultimately have "running (IndoorHeating s1 s2 s3) (c, publish (w_args w') p, w')"
    using l(1,2) by (simp add: Let_def) blast
  then show ?thesis
    using w'(1) IndoorHeating by (auto simp: control_running_def)
next
  case OffEquipment
  then show ?thesis
    using assms off_pass [OF OffEquipment, of p w tick t] by (auto simp: control_running_def)
qed

interpretation control_component: component Control_execute control_running
proof
  fix s tick interval
  assume "control_running s"
  then show "\<exists>ok s'. Control_execute tick interval s = Inr (ok, s') \<and> control_running s'"
    using Control_execute_running [of "fst s" "fst (snd s)" "snd (snd s)" tick interval] by auto
qed

lemma event_Supplementing_OffModeRequest:
  assumes "12 \<le> n" "idle (w_stages w i)" "st_of (w_stages w i) = SupplementingNextStage"
  shows "\<exists>w'. generateEvent n i Fsm_evOffModeRequest w = Inr w' \<and> w_argsId w' = w_argsId w \<and> w_args w' = w_args w \<and>
    st_of (w_stages w' i) = Off \<and> idle (w_stages w' i) \<and> (\<forall>j. j \<noteq> i \<longrightarrow> w_stages w' j = w_stages w j)"
  using assms by (auto simp add: exec_simps initializeStage_def del: bindR_eq_Inr split del: if_split cong: bindR_weak_cong)

text \<open>A reset while a stage is cycling: the stage still holds the address of an earlier argument block.\<close>

lemma off_requests_dangling:
  assumes "\<forall>i \<in> set is. idle (w_stages w i) \<and> st_of (w_stages w i) = SupplementingNextStage" "distinct (is @ [i])"
    "idle (w_stages w i)" "st_of (w_stages w i) \<in> {OnTime, OffTime}" "m_args (w_stages w i) = Some k" "k \<noteq> w_argsId w"
  shows "seqA (map requestModeToOff (is @ i # js)) w = Inl DanglingPointer"
  using assms
proof (induction "is" arbitrary: w)
  case Nil
  then show ?case
    using requestModeToOff_stale [of w i k] by auto
next
  case (Cons a "is")
  obtain w' where w': "requestModeToOff a w = Inr w'" "w_argsId w' = w_argsId w"
      "\<forall>j. j \<noteq> a \<longrightarrow> w_stages w' j = w_stages w j"
    using event_Supplementing_OffModeRequest [of 40 w a] Cons.prems(1)
    by (auto simp: requestModeToOff_def stage_fuel_def)
  have "seqA (map requestModeToOff (is @ i # js)) w' = Inl DanglingPointer"
    by (rule Cons.IH) (use Cons.prems w'(2,3) in auto)
  then show ?case
    using w'(1) by simp
qed

lemma heating_reset_dangling:
  assumes "distinct [s1, s2, s3]" "\<forall>k < 3. placed [s1, s2, s3] l k (w_stages w ([s1, s2, s3] ! k))" "0 < l" "l \<le> 3"
    "m_args (w_stages w ([s1, s2, s3] ! (l - 1))) = Some k" "k \<noteq> w_argsId w"
  shows "IndoorHeating_reset s1 s2 s3 w = Inl DanglingPointer"
proof -
  let ?w = "reconfigure s3 2 2 (reconfigure s2 1 1 (reconfigure s1 0 0 w))"
  note d = assms(1,5,6)
  have l: "l = 1 \<or> l = 2 \<or> l = 3"
    using assms(3,4) by auto
  have st: "idle (w_stages ?w i) = idle (w_stages w i)" "st_of (w_stages ?w i) = st_of (w_stages w i)"
    "m_args (w_stages ?w i) = m_args (w_stages w i)" "w_argsId ?w = w_argsId w" for i
    by (simp_all add: reconfigure_def upd_stage_def idle_def)
  have p: "idle (w_stages w ([s1, s2, s3] ! k)) \<and> level_state l k (st_of (w_stages w ([s1, s2, s3] ! k)))" if "k < 3" for k
    using assms(2) that by (simp add: placed_def)
  from l show ?thesis
  proof (elim disjE)
    assume "l = 1"
    then show ?thesis
      using off_requests_dangling [of "[]" ?w s1 k "[s2, s3]"] p [of 0] d st
      by (simp add: IndoorHeating_reset_def level_state_def)
  next
    assume "l = 2"
    then show ?thesis
      using off_requests_dangling [of "[s1]" ?w s2 k "[s3]"] p [of 0] p [of 1] d st
      by (simp add: IndoorHeating_reset_def level_state_def)
  next
    assume "l = 3"
    then show ?thesis
      using off_requests_dangling [of "[s1, s2]" ?w s3 k "[]"] p [of 0] p [of 1] p [of 2] d st
      by (simp add: IndoorHeating_reset_def level_state_def)
  qed
qed

subsection \<open>Properties\<close>

text \<open>
  What the rest of the program may do between two passes of the component: change the load, the times, the white box flags
  and the outputs, as long as the inputs stay valid, the outputs in range and unlocked, and the load one for which the
  conversions of the duty cycle are defined. The system configuration, the mode, and the points that the component owns stay.
\<close>

definition control_environment :: "(Control_C \<times> points \<times> world \<Rightarrow> Control_C \<times> points \<times> world) \<Rightarrow> bool" where
  "control_environment env \<longleftrightarrow> (\<forall>c p w. \<exists>p'. env (c, p, w) = (c, p', w) \<and>
     mp_systemConfig p' = mp_systemConfig p \<and> mp_systemOn p' = mp_systemOn p \<and> mp_cycleInfo p' = mp_cycleInfo p \<and>
     mp_operatingModeChanged p' = mp_operatingModeChanged p \<and>
     (control_inputs_valid p \<longrightarrow> control_inputs_valid p') \<and>
     (vo_ok (m_data (mp_vOutputs p)) \<and> \<not> m_locked (mp_vOutputs p) \<longrightarrow> vo_ok (m_data (mp_vOutputs p')) \<and> \<not> m_locked (mp_vOutputs p')) \<and>
     (\<forall>k. duty_ok k (m_data (mp_pvOut p)) (m_data (mp_systemConfig p)) \<longrightarrow> duty_ok k (m_data (mp_pvOut p')) (m_data (mp_systemConfig p))))"

lemma staged_environment:
  assumes "staged ids l (enter_pass tick t p w)" "vo_ok (m_data (mp_vOutputs p))" "vo_ok (m_data (mp_vOutputs p'))"
    "m_data (mp_systemOn p') = m_data (mp_systemOn p)" "m_data (mp_systemConfig p') = m_data (mp_systemConfig p)"
    "\<And>k. duty_ok k (m_data (mp_pvOut p)) (m_data (mp_systemConfig p)) \<Longrightarrow> duty_ok k (m_data (mp_pvOut p')) (m_data (mp_systemConfig p))"
  shows "staged ids l (enter_pass tick t p' w)"
  using assms by (auto simp: staged_def usable_def out_ok_def vo_ok_def split: stage_kind.splits)

lemma control_environment_ready:
  assumes "control_environment env" "control_ready ids l (c, p, w)"
  shows "\<exists>p'. env (c, p, w) = (c, p', w) \<and> control_ready ids l (c, p', w) \<and> mp_systemConfig p' = mp_systemConfig p"
proof -
  obtain p' where p': "env (c, p, w) = (c, p', w)" "mp_systemConfig p' = mp_systemConfig p" "mp_systemOn p' = mp_systemOn p"
      "mp_cycleInfo p' = mp_cycleInfo p" "mp_operatingModeChanged p' = mp_operatingModeChanged p"
      "control_inputs_valid p \<longrightarrow> control_inputs_valid p'"
      "vo_ok (m_data (mp_vOutputs p)) \<and> \<not> m_locked (mp_vOutputs p) \<longrightarrow> vo_ok (m_data (mp_vOutputs p')) \<and> \<not> m_locked (mp_vOutputs p')"
      "\<And>k. duty_ok k (m_data (mp_pvOut p)) (m_data (mp_systemConfig p)) \<Longrightarrow> duty_ok k (m_data (mp_pvOut p')) (m_data (mp_systemConfig p))"
    using assms(1) unfolding control_environment_def by metis
  have "staged ids l (enter_pass (Precision_T 0 0) (Precision_T 0 0) p' w)"
    using assms(2) p' by (intro staged_environment [of ids l "Precision_T 0 0" "Precision_T 0 0" p w p']) (auto simp: control_ready_def)
  then show ?thesis
    using assms(2) p' by (auto simp: control_ready_def)
qed

lemma control_environment_running:
  assumes "control_environment env" "control_running s"
  shows "control_running (env s)"
proof (cases s)
  case (fields c p w)
  have ready: "control_ready ids l (c, p, w) \<Longrightarrow> \<exists>p'. env (c, p, w) = (c, p', w) \<and> control_ready ids l (c, p', w) \<and>
      mp_systemConfig p' = mp_systemConfig p" for ids l
    by (rule control_environment_ready [OF assms(1)])
  show ?thesis
  proof (cases "m_equipment c")
    case (IndoorHeating s1 s2 s3)
    then obtain l where "l \<le> numIndoorStages (m_data (mp_systemConfig p))" "control_ready [s1, s2, s3] l (c, p, w)"
        "numIndoorStages (m_data (mp_systemConfig p)) \<in> {1, 2, 3}"
      using assms(2) by (auto simp: fields control_running_def Let_def)
    then show ?thesis
      using ready [of "[s1, s2, s3]" l] IndoorHeating by (fastforce simp: fields control_running_def Let_def)
  next
    case (Cooling s1)
    then obtain l where "control_ready [s1] l (c, p, w)" "numCompressorStages (m_data (mp_systemConfig p)) = 1"
      using assms(2) by (auto simp: fields control_running_def)
    then show ?thesis
      using ready [of "[s1]" l] Cooling by (fastforce simp: fields control_running_def)
  next
    case OffEquipment
    then show ?thesis
      using ready [of "[]" 0] assms(2) by (fastforce simp: fields control_running_def)
  qed
qed

text \<open>
  C2. The control component runs indoor heating as its specification says. The component is ready when its input points
  are valid and its output points unlocked, the configuration and the mode have not changed since its last pass, its
  stages are in step with each other, and the conversions of the duty cycle are defined for the load. A pass from a ready
  state succeeds: it moves the stages to the level that \<open>heating_level\<close> gives for the load and the times of the model
  points, writes the outputs, and reports the system as on exactly when a stage is active. Afterwards the component is
  ready again, so a main loop of any ticks succeeds in which the rest of the program keeps to the limits of
  \<open>control_environment\<close> between the passes, whatever it does to the load and the times.
\<close>

theorem control_heating_refines:
  assumes "m_equipment c = IndoorHeating s1 s2 s3" "control_ready [s1, s2, s3] l (c, p, w)"
    and "numIndoorStages (m_data (mp_systemConfig p)) = n" "n \<in> {1, 2, 3}" "l \<le> n"
    and "\<forall>env \<in> fst ` set ticks. control_environment env"
  shows "(\<exists>p' w' l'. Control_execute tick t (c, p, w) = Inr (True, c, p', w') \<and>
      l' = heating_level n l (m_data (mp_pvOut p)) (heater_off_met (load_args tick t p))
        (may_supplement ([s1, s2, s3] ! (l - 1)) (enter_pass tick t p w))
        (may_stop (l - 1) ([s1, s2, s3] ! (l - 1)) (enter_pass tick t p w)) \<and>
      control_ready [s1, s2, s3] l' (c, p', w') \<and> (m_data (mp_systemOn p') \<longleftrightarrow> 0 < l') \<and>
      mp_systemConfig p' = mp_systemConfig p) \<and>
    (\<exists>b' s'. main_loop Control_execute ticks b (c, p, w) = Inr (b', s') \<and> control_running s')"
proof
  obtain w' where w': "Control_execute tick t (c, p, w) = Inr (True, c, publish (w_args w') p, w')"
    "control_ready [s1, s2, s3] (next_level [s1, s2, s3] n l (enter_pass tick t p w)) (c, publish (w_args w') p, w')"
    using heating_pass [OF assms(1-5), of tick t] by blast
  define l' where "l' = next_level [s1, s2, s3] n l (enter_pass tick t p w)"
  have "m_data (mp_systemOn (publish (w_args w') p)) \<longleftrightarrow> 0 < l'"
    using w'(2) by (simp add: control_ready_def staged_def l'_def)
  then show "\<exists>p' w' l'. Control_execute tick t (c, p, w) = Inr (True, c, p', w') \<and>
      l' = heating_level n l (m_data (mp_pvOut p)) (heater_off_met (load_args tick t p))
        (may_supplement ([s1, s2, s3] ! (l - 1)) (enter_pass tick t p w))
        (may_stop (l - 1) ([s1, s2, s3] ! (l - 1)) (enter_pass tick t p w)) \<and>
      control_ready [s1, s2, s3] l' (c, p', w') \<and> (m_data (mp_systemOn p') \<longleftrightarrow> 0 < l') \<and>
      mp_systemConfig p' = mp_systemConfig p"
    using w' by (intro exI [of _ "publish (w_args w') p"] exI [of _ w'] exI [of _ l']) (simp add: l'_def)
next
  have "control_running (c, p, w)"
    using assms by (auto simp: control_running_def Let_def)
  then show "\<exists>b' s'. main_loop Control_execute ticks b (c, p, w) = Inr (b', s') \<and> control_running s'"
    using control_component.main_loop_ok assms(6) control_environment_running by blast
qed

definition sample_points :: "CycleStatus \<Rightarrow> Precision_T \<Rightarrow> points" where
  "sample_points m t = (let a = w_args (sample_heating t) in model_points\<lparr>
     mp_systemConfig := ModelPointCommon (sample_config\<lparr>currentOpMode := eID_HEATING\<rparr>) setToOff True,
     mp_vOutputs := ModelPointCommon vo_zero vo_zero True,
     mp_equipmentBeginTimes := ModelPointCommon (equipmentBeginTimes a) times_zero True,
     mp_systemOn := ModelPointCommon (m \<noteq> eOFF_STATUS) False True,
     mp_cycleInfo := ModelPointCommon (cycleInfo a) (cycleInfo a) True,
     mp_operatingModeChanged := ModelPointCommon False False True,
     mp_whiteBox := ModelPointCommon (whiteBox a) (whiteBox a) True,
     mp_pvOut := ModelPointCommon 50 0 True\<rparr>)"

definition sample_control :: Control_C where
  "sample_control = \<lparr>m_equipment = IndoorHeating 0 1 2,
     m_sysCfgSequenceNumber = m_seqNum (mp_systemConfig (sample_points eOFF_STATUS (Precision_T 0 0)))\<rparr>"

lemma sample_duty_heating: "duty_ok k 50 (sample_config\<lparr>currentOpMode := eID_HEATING\<rparr>) = duty_ok k 50 sample_config"
  by (simp add: duty_ok_def on_result_def off_result_def)

lemma sample_control_ready: "control_ready [0, 1, 2] 0 (sample_control, sample_points eOFF_STATUS t, sample_heating t)"
proof -
  have "staged [0, 1, 2] 0 (enter_pass (Precision_T 0 0) (Precision_T 0 0) (sample_points eOFF_STATUS t) (sample_heating t))"
    using sample_heating_staged [of t]
    by (auto simp: staged_def usable_def sample_points_def sample_duty_heating ModelPointCommon_def out_ok_def vo_zero_def
      Let_def sample_heating_def sample_defs less_Suc_eq numeral_3_eq_3)
  then show ?thesis
    by (simp add: control_ready_def sample_points_def control_inputs_valid_def sample_control_def ModelPointCommon_def Let_def)
qed

text \<open>Before the second pass the relay outputs record new times.\<close>

definition sample_environment :: "Control_C \<times> points \<times> world \<Rightarrow> Control_C \<times> points \<times> world" where
  "sample_environment = (\<lambda>(c, p, w). (c, p\<lparr>mp_equipmentBeginTimes := writeData times_zero eNO_REQUEST (mp_equipmentBeginTimes p)\<rparr>, w))"

lemma sample_environment_ok: "control_environment sample_environment"
  by (simp add: control_environment_def sample_environment_def control_inputs_valid_def write_valid_locked)

theorem control_heating_refines_witness:
  "(\<exists>p' w'. Control_execute (Precision_T 1600 0) (Precision_T 1600 0)
       (sample_control, sample_points eOFF_STATUS (Precision_T 0 0), sample_heating (Precision_T 0 0))
     = Inr (True, sample_control, p', w') \<and> m_data (mp_systemOn p')) \<and>
   (\<exists>b' s'. main_loop Control_execute [(\<lambda>s. s, Precision_T 1600 0), (sample_environment, Precision_T 1602 0)]
       (base_start (Precision_T 2 0) (Base (Precision_T 2 0) (Precision_T 0 0)))
       (sample_control, sample_points eOFF_STATUS (Precision_T 0 0), sample_heating (Precision_T 0 0)) = Inr (b', s') \<and> control_running s')"
proof -
  let ?p = "sample_points eOFF_STATUS (Precision_T 0 0)" and ?ticks = "[(\<lambda>s. s, Precision_T 1600 0), (sample_environment, Precision_T 1602 0)]"
  have "\<forall>env \<in> fst ` set ?ticks. control_environment env"
    using sample_environment_ok by (simp add: control_environment_def)
  moreover
  have "m_equipment sample_control = IndoorHeating 0 1 2" "numIndoorStages (m_data (mp_systemConfig ?p)) = 3"
    by (simp_all add: sample_control_def sample_points_def ModelPointCommon_def sample_config_def Let_def)
  moreover have "heating_level 3 0 (m_data (mp_pvOut ?p))
      (heater_off_met (load_args (Precision_T 1600 0) (Precision_T 1600 0) ?p)) up down = 1" for up down
    by (simp add: heating_level_def heater_off_met_def load_args_def sample_points_def ModelPointCommon_def sample_heating_def
        sample_defs expiredPrecision_def deltaPrecision_def Let_def)
  ultimately show ?thesis
    using control_heating_refines [of sample_control 0 1 2 0 ?p "sample_heating (Precision_T 0 0)" 3
        ?ticks "Precision_T 1600 0" "Precision_T 1600 0" "base_start (Precision_T 2 0) (Base (Precision_T 2 0) (Precision_T 0 0))"]
      sample_control_ready [of "Precision_T 0 0"] by (auto simp del: main_loop.simps)
qed

text \<open>
  C38. A change of the configuration or of the operating mode while a heating stage is cycling uses a
  dangling pointer. The pass resets the equipment before it executes it; \<open>requestModeToOff\<close> does not
  refresh the argument pointer of the stages, while the state machine runs the time check of a cycling
  stage on every event, so the check reads the argument block of an earlier pass, which is gone.
\<close>

theorem control_change_uses_stale_args:
  assumes "m_equipment c = IndoorHeating s1 s2 s3" "control_inputs_valid p"
    and "currentOpMode (m_data (mp_systemConfig p)) = eID_HEATING"
    and "m_seqNum (mp_systemConfig p) \<noteq> m_sysCfgSequenceNumber c \<or> m_data (mp_operatingModeChanged p)"
    and "staged [s1, s2, s3] l (enter_pass tick t p w)" "0 < l"
    and "m_args (w_stages w ([s1, s2, s3] ! (l - 1))) = Some k" "k \<le> w_argsId w"
  shows "Control_execute tick t (c, p, w) = Inl DanglingPointer"
proof -
  define w0 where "w0 = enter_pass tick t p w"
  define w1 where "w1 = upd_args (\<lambda>args. args\<lparr>systemOn := False, cycleInfo := (cycleInfo args)\<lparr>mode := eOFF_STATUS\<rparr>,
    vOutputs := setCapacityOff (vOutputs args)\<rparr>) w0"
  have "IndoorHeating_reset s1 s2 s3 w1 = Inl DanglingPointer"
  proof (rule heating_reset_dangling)
    show "distinct [s1, s2, s3]" "\<forall>k < 3. placed [s1, s2, s3] l k (w_stages w1 ([s1, s2, s3] ! k))" "0 < l" "l \<le> 3"
      using assms(5,6) by (simp_all add: w1_def w0_def upd_args_def staged_def)
    show "m_args (w_stages w1 ([s1, s2, s3] ! (l - 1))) = Some k" "k \<noteq> w_argsId w1"
      using assms(7,8) by (simp_all add: w1_def w0_def upd_args_def enter_pass_def)
  qed
  then show ?thesis
    using assms(1-4) by (simp add: Control_execute_def reset_pass_def w1_def w0_def Let_def)
qed

definition sample_cycling :: world where
  "sample_cycling = sample_world eON_CYCLE (\<lambda>i. if i = 0
     then (sample_stage (BasicIndoorHeat False) 0 Active OnCycle)\<lparr>m_args := Some 6\<rparr>
     else sample_stage (BasicIndoorHeat False) i Off OnCycle)"

theorem control_change_uses_stale_args_witness:
  "Control_execute (Precision_T 1600 0) (Precision_T 1600 0)
     (Control (IndoorHeating 0 1 2), sample_points eON_CYCLE (Precision_T 0 0), sample_cycling) = Inl DanglingPointer"
proof (rule control_change_uses_stale_args [where l = 1 and k = 6])
  let ?p = "sample_points eON_CYCLE (Precision_T 0 0)"
  have "idle (sample_stage (BasicIndoorHeat False) k st cyc)" for k st cyc
    by (rule sample_idle)
  then have "placed [0, 1, 2] 1 k (w_stages sample_cycling k)" if "k < 3" for k
    using that by (auto simp: placed_def level_state_def sample_cycling_def sample_world_def innermost_iff idle_def)
      (simp_all add: sample_defs innermost_iff)
  moreover have "usable k (enter_pass (Precision_T 1600 0) (Precision_T 1600 0) ?p sample_cycling) \<and>
      m_systemIndex (w_stages sample_cycling k) = k" if "k < 3" for k
    using that by (simp add: usable_def sample_points_def sample_duty_heating sample_duty ModelPointCommon_def out_ok_def vo_zero_def
      Let_def sample_cycling_def sample_defs)
  moreover have "[0, 1, 2] ! k = k" if "k < 3" for k :: nat
    using that by (auto simp: less_Suc_eq numeral_3_eq_3)
  moreover have "m_data (mp_systemOn ?p)"
    by (simp add: sample_points_def ModelPointCommon_def Let_def)
  ultimately show "staged [0, 1, 2] 1 (enter_pass (Precision_T 1600 0) (Precision_T 1600 0) ?p sample_cycling)"
    by (simp add: staged_def)
  show "m_seqNum (mp_systemConfig ?p) \<noteq> m_sysCfgSequenceNumber (Control (IndoorHeating 0 1 2)) \<or>
      m_data (mp_operatingModeChanged ?p)"
    by (simp add: sample_points_def Control_def ModelPointCommon_def Let_def)
qed (simp_all add: Control_def sample_points_def control_inputs_valid_def ModelPointCommon_def sample_cycling_def sample_world_def Let_def)

end
