(* ===== verification/Thermostat_Algorithm.thy ===== *)
theory Thermostat_Algorithm
  imports Control_Component Pi_Controller Output_Components
begin

text \<open>
  The algorithm of the thermostat (src/src/Storm/Thermostat/Algorithm.cpp): it owns the components, starts
  them, and runs them in a fixed order on the same model points each time its timer expires. Each component
  times itself with the base class of theory Component_Base.

  The hooks of the post processing that drive the hardware and write the log only read the model points;
  they are not part of the state here. The timer is the time until it expires, in milliseconds.
\<close>

record Algorithm_C =
  m_idtSelection :: "base \<times> IdtSelection_C"
  m_operatingMode :: "base \<times> OperatingMode_C"
  m_piPreProcess :: "base \<times> PiPreProcess"
  m_pi :: "base \<times> Pi"
  m_controlCooling :: "base \<times> Control_C"
  m_controlIdHeating :: "base \<times> Control_C"
  m_controlOff :: "base \<times> Control_C"
  m_fanControl :: base
  m_airFilterMonitor :: "base \<times> AirFilterMonitor"
  m_hvacRelayOutputs :: "base \<times> HvacRelayOutputs_C"
  postProcessor :: base
  alg_points :: points
  alg_world :: world
  alg_opened :: bool
  alg_timer :: "u32 option"

abbreviation (input) ALGORITHM_PROCESSING_INTERVAL_SEC :: u32 where "ALGORITHM_PROCESSING_INTERVAL_SEC \<equiv> 2"

text \<open>The addresses of the stages, and the stages as the constructors of the stage classes leave them.\<close>

definition new_stages :: "Args_T \<Rightarrow> world" where
  "new_stages a = (let w = \<lparr>w_args = a, w_argsId = 0,
       w_stages = (\<lambda>i. if i = 0 then Basic BasicCooling 0 0 else Basic (BasicIndoorHeat False) (i - 1) (i - 1))\<rparr>
     in initialize 3 (initialize 2 (initialize 1 (initialize 0 w))))"

text \<open>
  The constructor. The arguments are the members that the constructors of the components leave
  uninitialised, and the content of the stack before the first pass.
\<close>

definition Algorithm :: "base \<Rightarrow> PiPreProcess \<Rightarrow> Pi \<Rightarrow> AirFilterMonitor \<Rightarrow> Args_T \<Rightarrow> points \<Rightarrow> Algorithm_C" where
  "Algorithm b pre integ air stack p = \<lparr>m_idtSelection = (b, IdtSelection), m_operatingMode = (b, new_OperatingMode),
     m_piPreProcess = (b, pre), m_pi = (b, integ), m_controlCooling = (b, Control (Cooling 0)),
     m_controlIdHeating = (b, Control (IndoorHeating 1 2 3)), m_controlOff = (b, Control OffEquipment),
     m_fanControl = b, m_airFilterMonitor = (b, air), m_hvacRelayOutputs = (b, HvacRelayOutputs),
     postProcessor = b, alg_points = p, alg_world = new_stages stack, alg_opened = False, alg_timer = None\<rparr>"

subsection \<open>Starting\<close>

definition start_control :: "Precision_T \<Rightarrow> base \<times> Control_C \<Rightarrow> points \<times> world \<Rightarrow> ((base \<times> Control_C) \<times> points \<times> world) result" where
  "start_control time = (\<lambda>(b, c) (p, w). bindR (Control_start (c, p, w)) (\<lambda>(_, c, p, w). Inr ((base_start time b, c), p, w)))"

definition startComponents :: "Algorithm_C \<Rightarrow> Algorithm_C result" where
  "startComponents a =
     (let time = Precision_T ALGORITHM_PROCESSING_INTERVAL_SEC 0;
          a = a\<lparr>m_idtSelection := map_prod (base_start time) IdtSelection_start (m_idtSelection a),
                m_operatingMode := map_prod (base_start time) OperatingMode_start (m_operatingMode a),
                m_piPreProcess := map_prod (base_start time) PiPreProcess_start (m_piPreProcess a),
                m_pi := map_prod (base_start time) (Pi_start time) (m_pi a)\<rparr>
      in bindR (start_control time (m_controlCooling a) (alg_points a, alg_world a)) (\<lambda>(cooling, s).
         bindR (start_control time (m_controlIdHeating a) s) (\<lambda>(heating, s).
         bindR (start_control time (m_controlOff a) s) (\<lambda>(off, p, w).
         Inr (a\<lparr>m_controlCooling := cooling, m_controlIdHeating := heating, m_controlOff := off,
                alg_points := p, alg_world := w, m_fanControl := base_start time (m_fanControl a),
                m_airFilterMonitor := map_prod (base_start time) AirFilterMonitor_start (m_airFilterMonitor a),
                m_hvacRelayOutputs := map_prod (base_start time) id (m_hvacRelayOutputs a),
                postProcessor := base_start time (postProcessor a)\<rparr>)))))"

subsection \<open>One pass\<close>

definition PostProcessing_execute :: "points executor" where
  "PostProcessing_execute tick interval p =
     Inr (True, p\<lparr>mp_whiteBox := resetPulseSettings eNO_REQUEST (mp_whiteBox p)\<rparr>)"

text \<open>
  \<open>success &= component.doWork( success, startTime )\<close>: \<open>get\<close> and \<open>put\<close> give the time keeping and the state
  the component works on.
\<close>

type_synonym alg_step = "bool \<times> Algorithm_C \<Rightarrow> (bool \<times> Algorithm_C) result"

definition work :: "'s executor \<Rightarrow> (Algorithm_C \<Rightarrow> base \<times> 's) \<Rightarrow> (base \<Rightarrow> 's \<Rightarrow> Algorithm_C \<Rightarrow> Algorithm_C)
    \<Rightarrow> Precision_T \<Rightarrow> alg_step" where
  "work exec get put startTime = (\<lambda>(success, a).
     bindR (doWork exec success startTime (fst (get a)) (snd (get a))) (\<lambda>(ok, b, s). Inr (success \<and> ok, put b s a)))"

definition idt_work :: "Precision_T \<Rightarrow> alg_step" where
  "idt_work = work IdtSelection_execute (\<lambda>a. (fst (m_idtSelection a), snd (m_idtSelection a), alg_points a))
     (\<lambda>b (c, p) a. a\<lparr>m_idtSelection := (b, c), alg_points := p\<rparr>)"

definition mode_work :: "Precision_T \<Rightarrow> alg_step" where
  "mode_work = work OperatingMode_execute (\<lambda>a. (fst (m_operatingMode a), snd (m_operatingMode a), alg_points a))
     (\<lambda>b (c, p) a. a\<lparr>m_operatingMode := (b, c), alg_points := p\<rparr>)"

definition preprocess_work :: "Precision_T \<Rightarrow> alg_step" where
  "preprocess_work = work PiPreProcess_execute (\<lambda>a. (fst (m_piPreProcess a), snd (m_piPreProcess a), alg_points a))
     (\<lambda>b (c, p) a. a\<lparr>m_piPreProcess := (b, c), alg_points := p\<rparr>)"

definition pi_work :: "Precision_T \<Rightarrow> alg_step" where
  "pi_work = work Pi_execute (\<lambda>a. (fst (m_pi a), snd (m_pi a), alg_points a))
     (\<lambda>b (c, p) a. a\<lparr>m_pi := (b, c), alg_points := p\<rparr>)"

definition cooling_work :: "Precision_T \<Rightarrow> alg_step" where
  "cooling_work = work Control_execute
     (\<lambda>a. (fst (m_controlCooling a), snd (m_controlCooling a), alg_points a, alg_world a))
     (\<lambda>b (c, p, w) a. a\<lparr>m_controlCooling := (b, c), alg_points := p, alg_world := w\<rparr>)"

definition heating_work :: "Precision_T \<Rightarrow> alg_step" where
  "heating_work = work Control_execute
     (\<lambda>a. (fst (m_controlIdHeating a), snd (m_controlIdHeating a), alg_points a, alg_world a))
     (\<lambda>b (c, p, w) a. a\<lparr>m_controlIdHeating := (b, c), alg_points := p, alg_world := w\<rparr>)"

definition off_work :: "Precision_T \<Rightarrow> alg_step" where
  "off_work = work Control_execute
     (\<lambda>a. (fst (m_controlOff a), snd (m_controlOff a), alg_points a, alg_world a))
     (\<lambda>b (c, p, w) a. a\<lparr>m_controlOff := (b, c), alg_points := p, alg_world := w\<rparr>)"

definition fan_work :: "Precision_T \<Rightarrow> alg_step" where
  "fan_work = work FanControl_execute (\<lambda>a. (m_fanControl a, alg_points a))
     (\<lambda>b p a. a\<lparr>m_fanControl := b, alg_points := p\<rparr>)"

definition filter_work :: "Precision_T \<Rightarrow> alg_step" where
  "filter_work = work AirFilterMonitor_execute
     (\<lambda>a. (fst (m_airFilterMonitor a), snd (m_airFilterMonitor a), alg_points a))
     (\<lambda>b (c, p) a. a\<lparr>m_airFilterMonitor := (b, c), alg_points := p\<rparr>)"

definition relay_work :: "EquipmentTimes_T \<Rightarrow> Precision_T \<Rightarrow> alg_step" where
  "relay_work junk = work (HvacRelayOutputs_execute junk)
     (\<lambda>a. (fst (m_hvacRelayOutputs a), snd (m_hvacRelayOutputs a), alg_points a))
     (\<lambda>b (c, p) a. a\<lparr>m_hvacRelayOutputs := (b, c), alg_points := p\<rparr>)"

definition post_work :: "Precision_T \<Rightarrow> alg_step" where
  "post_work = work PostProcessing_execute (\<lambda>a. (postProcessor a, alg_points a))
     (\<lambda>b p a. a\<lparr>postProcessor := b, alg_points := p\<rparr>)"

fun chain :: "alg_step list \<Rightarrow> alg_step" where
  "chain [] s = Inr s"
| "chain (f # fs) s = bindR (f s) (chain fs)"

definition all_work :: "EquipmentTimes_T \<Rightarrow> Precision_T \<Rightarrow> alg_step list" where
  "all_work junk startTime = [idt_work startTime, mode_work startTime, preprocess_work startTime, pi_work startTime,
     cooling_work startTime, heating_work startTime, off_work startTime, fan_work startTime, filter_work startTime,
     relay_work junk startTime, post_work startTime]"

definition expired :: "EquipmentTimes_T \<Rightarrow> Precision_T \<Rightarrow> Algorithm_C \<Rightarrow> Algorithm_C result" where
  "expired junk startTime a =
     bindR (chain (all_work junk startTime) (True, a\<lparr>alg_points := (alg_points a)\<lparr>
              mp_resetPiPulse := writeData False eNO_REQUEST (mp_resetPiPulse (alg_points a))\<rparr>\<rparr>)) (\<lambda>(success, a).
     if \<not> success then Inl FatalError
     else Inr (a\<lparr>alg_timer := Some ((ALGORITHM_PROCESSING_INTERVAL_SEC * 1000) div 100)\<rparr>))"

subsection \<open>Open and close\<close>

definition request_open :: "EquipmentTimes_T \<Rightarrow> Precision_T \<Rightarrow> Algorithm_C \<Rightarrow> Algorithm_C result" where
  "request_open junk startTime a =
     (if \<not> alg_opened a then
        bindR (startComponents (a\<lparr>alg_opened := True, alg_points := (alg_points a)\<lparr>
          mp_loopCounter := writeData 0 eNO_REQUEST (mp_loopCounter (alg_points a))\<rparr>\<rparr>)) (expired junk startTime)
      else Inr a)"

definition request_close :: "Algorithm_C \<Rightarrow> Algorithm_C" where
  "request_close a = (if alg_opened a then a\<lparr>alg_opened := False, alg_timer := None\<rparr> else a)"

subsection \<open>Steps that succeed\<close>

definition succeeds :: "(Algorithm_C \<Rightarrow> bool) \<Rightarrow> alg_step \<Rightarrow> bool" where
  "succeeds I f \<longleftrightarrow> (\<forall>a. I a \<longrightarrow> (\<exists>a'. f (True, a) = Inr (True, a') \<and> I a'))"

lemma succeeds_chain: "\<forall>f \<in> set fs. succeeds I f \<Longrightarrow> I a \<Longrightarrow> \<exists>a'. chain fs (True, a) = Inr (True, a') \<and> I a'"
proof (induction fs arbitrary: a)
  case (Cons f fs)
  then obtain a1 where "f (True, a) = Inr (True, a1)" "I a1"
    unfolding succeeds_def by (metis list.set_intros(1))
  then show ?case
    using Cons.IH [of a1] Cons.prems(1) by simp
qed simp

lemma work_succeeds:
  assumes "\<And>a t. I a \<Longrightarrow> \<exists>s. exec startTime t (snd (get a)) = Inr (True, s) \<and> (\<forall>b. I (put b s a))"
    and "\<And>a b. I a \<Longrightarrow> I (put b (snd (get a)) a)"
  shows "succeeds I (work exec get put startTime)"
  unfolding succeeds_def
proof (intro allI impI)
  fix a
  assume a: "I a"
  obtain s where "exec startTime (m_timeMark (advance_marker startTime (fst (get a)))) (snd (get a)) = Inr (True, s)"
      "\<forall>b. I (put b s a)"
    using assms(1) [OF a] by blast
  then show "\<exists>a'. work exec get put startTime (True, a) = Inr (True, a') \<and> I a'"
    using assms(2) [OF a] by (auto simp: work_def doWork_def Let_def split_beta simp del: bindR_eq_Inr)
qed

subsection \<open>Stages that are off\<close>

definition stages_off :: "world \<Rightarrow> bool" where
  "stages_off w \<longleftrightarrow> (\<forall>i < 4. idle (w_stages w i) \<and> st_of (w_stages w i) = Off)"

lemma off_requests:
  assumes "stages_off w" "set is \<subseteq> {..<4}"
  shows "\<exists>w'. seqA (map requestModeToOff is) w = Inr w' \<and> stages_off w'"
  using assms
proof (induction "is" arbitrary: w)
  case (Cons i "is")
  then have i: "i < 4" "idle (w_stages w i)" "st_of (w_stages w i) = Off"
    by (auto simp: stages_off_def)
  obtain w' where w': "requestModeToOff i w = Inr w'"
      "settles i (w_stages w i) Off (m_startTime (w_stages w i)) (w_args w) w w'"
    using event_Off_OffModeRequest [of 40 w i] i by (auto simp: requestModeToOff_def stage_fuel_def)
  have "stages_off w'"
    using Cons.prems(1) settles_facts(1,5,6) [OF w'(2)] i unfolding stages_off_def by metis
  then show ?case
    using Cons.IH [of w'] Cons.prems(2) w'(1) by simp
qed simp

lemma executeOff_off:
  assumes "stages_off w" "e \<in> {Cooling 0, IndoorHeating 1 2 3}"
  shows "\<exists>w'. executeOff e w = Inr (True, w') \<and> stages_off w'"
  using assms off_requests [of w "[0]"] off_requests [of w "[1, 2, 3]"]
  by (auto simp: Cooling_executeOff_def IndoorHeating_executeOff_def answer_def)

lemma stages_off_args [simp]: "stages_off (upd_args f w) = stages_off w" "stages_off (enter_pass tick t p w) = stages_off w"
  by (simp_all add: stages_off_def upd_args_def)

definition outputs_off :: "VirtualOutputs_T \<Rightarrow> bool" where
  "outputs_off v \<longleftrightarrow> vo_ok v \<and> (\<forall>x \<in> set (indoorStages v) \<union> set (outdoorStages v). x = 0)"

definition relays_open :: "HvacRelayOutputs_T \<Rightarrow> bool" where
  "relays_open r \<longleftrightarrow> \<not> relay_w1 r \<and> \<not> relay_w2 r \<and> \<not> relay_w3 r \<and> \<not> relay_y1 r \<and> \<not> relay_y2 r"

lemma relays_of_off:
  assumes "outputs_off v"
  shows "\<exists>r. relays_of v = Inr r \<and> relays_open r \<and> relay_bk r \<le> 100"
proof -
  obtain r where r: "relays_of v = Inr r" "relay_bk r \<le> 100"
    using relays_of_ok [of v] assms by (auto simp: outputs_off_def)
  have "length (indoorStages v) = 3" "length (outdoorStages v) = 1"
    using assms by (simp_all add: outputs_off_def vo_ok_def)
  then have "indoorStages v ! 0 = 0" "indoorStages v ! 1 = 0" "indoorStages v ! 2 = 0" "outdoorStages v ! 0 = 0"
    using assms by (auto simp: outputs_off_def)
  then show ?thesis
    using r by (auto simp: relays_of_def relays_open_def Let_def split: if_splits)
qed

lemma outputs_off_write:
  "outputs_off (m_data q) \<Longrightarrow> outputs_off (vo_validate v) \<Longrightarrow> outputs_off (m_data (vo_write v r q))"
  using write_data_cases [of "vo_validate v" r q] by (auto simp: vo_write_def)

lemma validate_outputs_off: "outputs_off v \<Longrightarrow> outputs_off (vo_validate v)"
  by (simp add: outputs_off_def vo_validate_id)

lemma capacity_outputs_off:
  "vo_ok v \<Longrightarrow> outputs_off (setCapacityOff v)" "outputs_off (setSafeAllOff v)"
  by (auto simp: outputs_off_def setCapacityOff_def setSafeAllOff_def vo_ok_def vo_zero_def)

subsection \<open>A thermostat that is off\<close>

text \<open>
  The inputs ask for the system to be off: the user mode is off or unknown, or no usable sensor is left and
  the sensor selection has counted that.
\<close>

definition off_request :: "IdtSelection_C \<Rightarrow> points \<Rightarrow> bool" where
  "off_request i p \<longleftrightarrow> m_data (mp_userMode p) = tmOFF \<or> \<not> m_valid (mp_userMode p) \<or>
     m_critical i \<and> snd (snd (snd (select_idt p)))"

definition off_points :: "IdtSelection_C \<Rightarrow> OperatingMode_C \<Rightarrow> Pi \<Rightarrow> points \<Rightarrow> bool" where
  "off_points i m c p \<longleftrightarrow> mode_inv (m, p) \<and> reasons (m_critical i) (m_forcedOff m) (mp_systemForcedOffRefCnt p) \<and>
     currentOpMode (m_data (mp_systemConfig p)) = eOFF \<and> off_request i p \<and> pi_inv (c, p) \<and>
     outputs_off (m_data (mp_vOutputs p)) \<and> relays_open (m_data (mp_relayOutputs p))"

text \<open>The points that decide this.\<close>

definition off_view :: "points \<Rightarrow> ThermostatMode point \<times> rat point \<times> rat point \<times> bool point \<times> rat point \<times> EquipmentConfig point
    \<times> vo_point \<times> HvacRelayOutputs_T point" where
  "off_view p = (mp_userMode p, mp_primaryRawIdt p, mp_secondaryRawIdt p, mp_enabledSecondaryIdt p, mp_pvOut p,
     mp_equipmentConfig p, mp_vOutputs p, mp_relayOutputs p)"

lemma off_points_view:
  assumes "off_points i m c p" "off_view p' = off_view p" "mp_systemConfig p' = mp_systemConfig p"
    "mp_systemForcedOffRefCnt p' = mp_systemForcedOffRefCnt p"
  shows "off_points i m c p'"
  using assms by (auto simp: off_points_def off_view_def mode_inv_def pi_inv_def off_request_def select_idt_def Let_def)

lemma setNewOperatingMode_view:
  "setNewOperatingMode m hp e cc (c, p) = Inr (c', p') \<Longrightarrow> off_view p' = off_view p"
  by (auto simp: setNewOperatingMode_def off_view_def Let_def split: if_splits)

lemma setNoActiveConditioningAlarm_view: "setNoActiveConditioningAlarm b (c, p) = (c', p') \<Longrightarrow> off_view p' = off_view p"
  by (auto simp: setNoActiveConditioningAlarm_def off_view_def Let_def split: if_splits)

lemma off_view_upd [simp]:
  "off_view (p\<lparr>mp_operatingModeChanged := q\<rparr>) = off_view p" "off_view (p\<lparr>mp_userCfgModeAlarm := al\<rparr>) = off_view p"
  "off_view (p\<lparr>mp_resetPiPulse := q\<rparr>) = off_view p"
  by (simp_all add: off_view_def)

lemma OperatingMode_execute_view:
  assumes "OperatingMode_execute tick t (c, p) = Inr (ok, c', p')"
  shows "off_view p' = off_view p"
proof (cases "badInputs p")
  case True
  then show ?thesis
    using assms by (auto simp: OperatingMode_execute_def Let_def dest!: setNewOperatingMode_view setNoActiveConditioningAlarm_view)
next
  case False
  define p1 where "p1 = p\<lparr>mp_operatingModeChanged := writeData False eNO_REQUEST (mp_operatingModeChanged p)\<rparr>"
  obtain cool heat hp where am: "allowed_modes (m_data (mp_equipmentConfig p)) = (cool, heat, hp)"
    by (cases "allowed_modes (m_data (mp_equipmentConfig p))")
  obtain c2 p2 where n: "setNoActiveConditioningAlarm (\<not> cool \<and> \<not> heat) (c, p1) = (c2, p2)"
    by (cases "setNoActiveConditioningAlarm (\<not> cool \<and> \<not> heat) (c, p1)")
  have "off_view p2 = off_view p"
    using setNoActiveConditioningAlarm_view [OF n] by (simp add: p1_def)
  then show ?thesis
    using assms execute_good_eq [OF False am n [unfolded p1_def] refl refl, of tick t]
    by (auto simp: Let_def split: if_splits prod.splits option.splits dest!: setNewOperatingMode_view)
qed

text \<open>With the user mode off the mode decision is off.\<close>

lemma user_off:
  assumes "mode_inv (c, p)" "m_data (mp_userMode p) = tmOFF" "OperatingMode_execute tick t (c, p) = Inr (ok, c', p')"
    "\<not> badInputs p" "\<not> forced_off p'"
  shows "m_prevOperatingMode c' = eOFF"
proof -
  define p1 where "p1 = p\<lparr>mp_operatingModeChanged := writeData False eNO_REQUEST (mp_operatingModeChanged p)\<rparr>"
  obtain cool heat hp where am: "allowed_modes (m_data (mp_equipmentConfig p)) = (cool, heat, hp)"
    by (cases "allowed_modes (m_data (mp_equipmentConfig p))")
  obtain c2 p2 where n: "setNoActiveConditioningAlarm (\<not> cool \<and> \<not> heat) (c, p1) = (c2, p2)"
    by (cases "setNoActiveConditioningAlarm (\<not> cool \<and> \<not> heat) (c, p1)")
  have off: "correct_user_mode cool heat tmOFF = (False, tmOFF)"
    by (simp add: correct_user_mode_def)
  show ?thesis
    using assms(3) execute_good_eq [OF assms(4) am n [unfolded p1_def] refl refl, of tick t] assms(2)
    by (auto simp: off resolve_mode_def Let_def setNewOperatingMode_def split: if_splits)
qed

lemma off_mode_decision:
  assumes "off_points i m c p"
  shows "\<exists>m' p'. OperatingMode_execute tick t (m, p) = Inr (True, m', p') \<and> off_points i m' c p'"
proof -
  note I = assms [unfolded off_points_def]
  obtain m' p' where e: "OperatingMode_execute tick t (m, p) = Inr (True, m', p')" "mode_inv (m', p')"
      "badInputs p \<or> forced_off p' \<longrightarrow> m_prevOperatingMode m' = eOFF"
    using OperatingMode_execute_ok I by blast
  have v: "off_view p' = off_view p"
    by (rule OperatingMode_execute_view [OF e(1)])
  have r: "reasons (m_critical i) (m_forcedOff m') (mp_systemForcedOffRefCnt p')"
    by (rule OperatingMode_execute_reasons [OF e(1)]) (use I in simp)
  have "m_prevOperatingMode m' = eOFF"
  proof (cases "badInputs p \<or> forced_off p'")
    case False
    then have "\<not> m_critical i"
      using r by (cases "m_forcedOff m'") (auto simp: reasons_def forced_off_def)
    then show ?thesis
      using user_off [OF _ _ e(1)] I False by (auto simp: off_request_def badInputs_def)
  qed (use e(3) in simp)
  then have "currentOpMode (m_data (mp_systemConfig p')) = eOFF" "cfg_ok (m_data (mp_systemConfig p'))"
    using e(2) by (auto simp: mode_inv_def)
  then have "off_points i m' c p'"
    using I e(2) r v by (auto simp: off_points_def off_view_def pi_inv_def off_request_def select_idt_def Let_def)
  then show ?thesis
    using e(1) by blast
qed

lemma irrelevant_updates [simp]:
  "select_idt (p\<lparr>mp_vOutputs := qvOutputs\<rparr>) = select_idt p" "mode_inv (m, p\<lparr>mp_vOutputs := qvOutputs\<rparr>) = mode_inv (m, p)"
  "select_idt (p\<lparr>mp_relayOutputs := qrelayOutputs\<rparr>) = select_idt p" "mode_inv (m, p\<lparr>mp_relayOutputs := qrelayOutputs\<rparr>) = mode_inv (m, p)"
  "select_idt (p\<lparr>mp_equipmentBeginTimes := qequipmentBeginTimes\<rparr>) = select_idt p" "mode_inv (m, p\<lparr>mp_equipmentBeginTimes := qequipmentBeginTimes\<rparr>) = mode_inv (m, p)"
  "select_idt (p\<lparr>mp_cycleInfo := qcycleInfo\<rparr>) = select_idt p" "mode_inv (m, p\<lparr>mp_cycleInfo := qcycleInfo\<rparr>) = mode_inv (m, p)"
  "select_idt (p\<lparr>mp_systemOn := qsystemOn\<rparr>) = select_idt p" "mode_inv (m, p\<lparr>mp_systemOn := qsystemOn\<rparr>) = mode_inv (m, p)"
  "select_idt (p\<lparr>mp_pvOut := qpvOut\<rparr>) = select_idt p" "mode_inv (m, p\<lparr>mp_pvOut := qpvOut\<rparr>) = mode_inv (m, p)"
  "select_idt (p\<lparr>mp_sumError := qsumError\<rparr>) = select_idt p" "mode_inv (m, p\<lparr>mp_sumError := qsumError\<rparr>) = mode_inv (m, p)"
  "select_idt (p\<lparr>mp_pvInhibited := qpvInhibited\<rparr>) = select_idt p" "mode_inv (m, p\<lparr>mp_pvInhibited := qpvInhibited\<rparr>) = mode_inv (m, p)"
  "pi_inv (c, p\<lparr>mp_vOutputs := qvOutputs\<rparr>) = pi_inv (c, p)"
  "pi_inv (c, p\<lparr>mp_relayOutputs := qrelayOutputs\<rparr>) = pi_inv (c, p)"
  "pi_inv (c, p\<lparr>mp_equipmentBeginTimes := qequipmentBeginTimes\<rparr>) = pi_inv (c, p)"
  "pi_inv (c, p\<lparr>mp_cycleInfo := qcycleInfo\<rparr>) = pi_inv (c, p)"
  "pi_inv (c, p\<lparr>mp_systemOn := qsystemOn\<rparr>) = pi_inv (c, p)"
  "pi_inv (c, p\<lparr>mp_sumError := qsumError\<rparr>) = pi_inv (c, p)"
  "pi_inv (c, p\<lparr>mp_pvInhibited := qpvInhibited\<rparr>) = pi_inv (c, p)"
  by (simp_all add: select_idt_def mode_inv_def pi_inv_def)

lemma off_idt:
  assumes "off_points i m c p"
  shows "\<exists>i' p'. IdtSelection_execute tick t (i, p) = Inr (True, i', p') \<and> off_points i' m c p'"
proof -
  have "\<exists>s. IdtSelection_execute tick t (i, p) = Inr (True, s)"
    by (simp add: IdtSelection_execute_def split_beta Let_def)
  then obtain i' p' where e: "IdtSelection_execute tick t (i, p) = Inr (True, i', p')"
    by auto
  have r: "reasons (m_critical i') (m_forcedOff m) (mp_systemForcedOffRefCnt p')"
    by (rule IdtSelection_execute_reasons [OF e]) (use assms in \<open>simp add: off_points_def\<close>)
  have f: "mp_systemConfig p' = mp_systemConfig p" "off_view p' = off_view p" "m_critical i' = snd (snd (snd (select_idt p)))"
    using e by (auto simp: IdtSelection_execute_def off_view_def split_beta Let_def split: if_splits)
  then have "select_idt p' = select_idt p" "mp_userMode p' = mp_userMode p" "mp_equipmentConfig p' = mp_equipmentConfig p"
      "mp_pvOut p' = mp_pvOut p" "mp_vOutputs p' = mp_vOutputs p" "mp_relayOutputs p' = mp_relayOutputs p"
    by (simp_all add: select_idt_def off_view_def)
  note same = this f(1)
  have "off_request i' p'"
    using assms f(3) by (auto simp: off_points_def off_request_def same)
  moreover have "\<not> m_locked (mp_systemForcedOffRefCnt p') \<and>
      (m_forcedOff m \<longrightarrow> m_valid (mp_systemForcedOffRefCnt p') \<and> 0 < m_data (mp_systemForcedOffRefCnt p'))"
    using r by (cases "m_critical i'") (simp_all add: reasons_def)
  then have "mode_inv (m, p')"
    using assms unfolding off_points_def mode_inv_def prod.case same by blast
  ultimately have "off_points i' m c p'"
    using assms r unfolding off_points_def pi_inv_def prod.case same by blast
  then show ?thesis
    using e by blast
qed

lemma off_preprocess:
  assumes "off_points i m c p"
  shows "\<exists>s' p'. PiPreProcess_execute tick t (s, p) = Inr (True, s', p') \<and> off_points i m c p'"
proof -
  have "\<exists>s' x y z v. PiPreProcess_execute tick t (s, p) = Inr (True, s',
      p\<lparr>mp_setpointChanged := x, mp_deltaIdtError := y, mp_deltaSetpoint := z, mp_activeSetpoint := v\<rparr>)"
    by (simp add: PiPreProcess_execute_def split_beta Let_def) blast
  moreover have "off_points i m c (p\<lparr>mp_setpointChanged := x, mp_deltaIdtError := y, mp_deltaSetpoint := z,
      mp_activeSetpoint := v\<rparr>)" for x y z v
    by (rule off_points_view [OF assms]) (simp_all add: off_view_def)
  ultimately show ?thesis
    by metis
qed

lemma Pi_execute_points:
  "Pi_execute tick t (c, p) = Inr (ok, c', p') \<Longrightarrow>
   \<exists>x y z. p' = p\<lparr>mp_pvOut := x, mp_sumError := y, mp_pvInhibited := z\<rparr>"
  unfolding Pi_execute_def Let_def prod.case by (auto simp: bindR_def split: sum.splits)

lemma off_pi:
  assumes "off_points i m c p"
  shows "\<exists>c' p'. Pi_execute tick t (c, p) = Inr (True, c', p') \<and> off_points i m c' p'"
proof -
  obtain c' p' where e: "Pi_execute tick t (c, p) = Inr (True, c', p')" "pi_inv (c', p')"
    using Pi_execute_ok [of c p tick t] assms by (auto simp: off_points_def)
  obtain x y z where "p' = p\<lparr>mp_pvOut := x, mp_sumError := y, mp_pvInhibited := z\<rparr>"
    using Pi_execute_points [OF e(1)] by blast
  with e assms have "off_points i m c' p'"
    by (simp add: off_points_def off_request_def)
  with e(1) show ?thesis
    by blast
qed

lemma off_control_other:
  assumes "off_points i m s p" "stages_off w" "m_equipment c \<in> {Cooling 0, IndoorHeating 1 2 3}"
  shows "\<exists>w'. Control_execute tick t (c, p, w) = Inr (True, c, p, w') \<and> stages_off w'"
proof -
  have "getOperatingMode (m_equipment c) \<noteq> eOFF"
    using assms(3) by auto
  then show ?thesis
    using assms executeOff_off [of "enter_pass tick t p w" "m_equipment c"]
    by (auto simp: Control_execute_def off_points_def Let_def simp del: bindR_eq_Inr)
qed

lemma off_control_off:
  assumes "off_points i m s p" "stages_off w" "m_equipment c = OffEquipment"
  shows "\<exists>c' p' w'. Control_execute tick t (c, p, w) = Inr (True, c', p', w') \<and> off_points i m s p' \<and> stages_off w' \<and>
    m_equipment c' = OffEquipment"
proof (cases "control_inputs_valid p")
  case True
  have vo: "vo_ok (m_data (mp_vOutputs p))"
    using assms(1) by (simp add: off_points_def outputs_off_def)
  have "\<exists>c' w'. Control_execute tick t (c, p, w) = Inr (True, c', publish (w_args w') p, w') \<and> stages_off w' \<and>
      m_equipment c' = OffEquipment \<and> outputs_off (vOutputs (w_args w'))"
    using assms True vo capacity_outputs_off(1) [OF vo]
    by (auto simp: Control_execute_def off_points_def Off_executeActive_def reset_pass_def publish_def Off_reset_def Let_def
        upd_args_def stages_off_def setCapacityOff_def simp del: bindR_eq_Inr)
  then obtain c' w' where e: "Control_execute tick t (c, p, w) = Inr (True, c', publish (w_args w') p, w')" "stages_off w'"
      "m_equipment c' = OffEquipment" "outputs_off (vOutputs (w_args w'))"
    by blast
  have "outputs_off (m_data (mp_vOutputs (publish (w_args w') p)))"
    using assms(1) outputs_off_write [of "mp_vOutputs p" "vOutputs (w_args w')" eNO_REQUEST] validate_outputs_off [OF e(4)]
    by (simp add: publish_def off_points_def)
  then have "off_points i m s (publish (w_args w') p)"
    using assms(1) by (simp add: off_points_def publish_def off_request_def)
  then show ?thesis
    using e by blast
qed (use assms in \<open>simp add: Control_execute_def\<close>)

lemma off_points_outputs:
  "off_points i m c p \<Longrightarrow> outputs_off (m_data q) \<Longrightarrow> off_points i m c (p\<lparr>mp_vOutputs := q\<rparr>)"
  by (simp add: off_points_def off_request_def)

lemma outputs_off_fan:
  assumes "outputs_off v"
  shows "outputs_off (vo_validate (v\<lparr>indoorFan := x\<rparr>))" "outputs_off (vo_validate (v\<lparr>indoorFanCont := x\<rparr>))"
proof -
  have "clamp 0 = 0"
    by (simp add: clamp_def)
  then have "\<forall>x \<in> set (indoorStages v) \<union> set (outdoorStages v). clamp x = 0" "vo_shape v"
    using assms unfolding outputs_off_def by (metis, simp add: vo_ok_shape)
  moreover from this have "vo_shape (v\<lparr>indoorFan := x\<rparr>)" "vo_shape (v\<lparr>indoorFanCont := x\<rparr>)"
    by (simp_all add: vo_shape_def)
  ultimately show "outputs_off (vo_validate (v\<lparr>indoorFan := x\<rparr>))" "outputs_off (vo_validate (v\<lparr>indoorFanCont := x\<rparr>))"
    using vo_validate_ok by (auto simp: outputs_off_def) (auto simp: vo_validate_def)
qed

lemma off_fan:
  assumes "off_points i m c p"
  shows "\<exists>p'. FanControl_execute tick t p = Inr (True, p') \<and> off_points i m c p'"
proof -
  have v: "outputs_off (m_data (mp_vOutputs p))"
    using assms by (simp add: off_points_def)
  have "outputs_off (m_data (setIndoorFanOutput x eNO_REQUEST (mp_vOutputs p)))"
    "outputs_off (m_data (setIndoorFanContinousOutput x eNO_REQUEST (mp_vOutputs p)))" for x
    unfolding setIndoorFanOutput_def setIndoorFanContinousOutput_def
    by (rule outputs_off_write [OF v outputs_off_fan(1) [OF v]], rule outputs_off_write [OF v outputs_off_fan(2) [OF v]])
  then show ?thesis
    using off_points_outputs [OF assms] by (simp add: FanControl_execute_def)
qed

lemma off_filter:
  assumes "off_points i m c p"
  shows "\<exists>s' p'. AirFilterMonitor_execute tick t (s, p) = Inr (True, s', p') \<and> off_points i m c p'"
proof -
  show ?thesis
  proof (cases "\<not> m_valid (mp_airFilterAlert p) \<or> \<not> m_valid (mp_maxAirFilterHours p) \<or>
      \<not> m_valid (mp_airFilterOperationTime p) \<or> \<not> m_valid (mp_vOutputs p) \<or> active (m_data (mp_airFilterAlert p))")
    case True
    then have "AirFilterMonitor_execute tick t (s, p) = Inr (True, s, p)"
      unfolding AirFilterMonitor_execute_def prod.case
      by (cases "active (m_data (mp_airFilterAlert p))") (simp_all only: simp_thms Let_def if_True if_cancel)
    then show ?thesis
      using assms by blast
  next
    case False
    then have c: "(\<not> m_valid (mp_airFilterAlert p) \<or> \<not> m_valid (mp_maxAirFilterHours p) \<or>
        \<not> m_valid (mp_airFilterOperationTime p) \<or> \<not> m_valid (mp_vOutputs p)) = False" "active (m_data (mp_airFilterAlert p)) = False"
      by simp_all
    have "\<exists>s' x y. AirFilterMonitor_execute tick t (s, p)
        = Inr (True, s', p\<lparr>mp_airFilterAlert := x, mp_airFilterOperationTime := y\<rparr>)"
      unfolding AirFilterMonitor_execute_def prod.case Let_def split_beta fst_conv snd_conv c if_False by (intro exI, rule refl)
    moreover have "off_points i m c (p\<lparr>mp_airFilterAlert := x, mp_airFilterOperationTime := y\<rparr>)" for x y
      by (rule off_points_view [OF assms]) (simp_all add: off_view_def)
    ultimately show ?thesis
      by metis
  qed
qed

lemma off_relay:
  assumes "off_points i m c p"
  shows "\<exists>s' p'. HvacRelayOutputs_execute junk tick t (s, p) = Inr (True, s', p') \<and> off_points i m c p'"
proof -
  have "outputs_off vo_zero" "outputs_off (m_data (mp_vOutputs p))"
    using assms by (simp_all add: off_points_def outputs_off_def) (simp add: vo_zero_def)
  then have "outputs_off (read_or vo_zero (mp_vOutputs p))"
    by (simp add: read_or_def readData_def)
  then have "outputs_off (final_outputs p)"
    unfolding final_outputs_def Let_def by (simp add: capacity_outputs_off outputs_off_def [THEN iffD1, THEN conjunct1])
  then obtain r where r: "relays_of (final_outputs p) = Inr r" "relays_open r" "relay_bk r \<le> 100"
    using relays_of_off by blast
  have "relays_open (m_data (relays_write r eNO_REQUEST (mp_relayOutputs p)))"
    using write_data_cases [of r eNO_REQUEST "mp_relayOutputs p"] r(2,3) assms
    by (auto simp: relays_write_def relays_validate_def off_points_def)
  then have "off_points i m c (p\<lparr>mp_equipmentBeginTimes := x, mp_relayOutputs := relays_write r eNO_REQUEST (mp_relayOutputs p)\<rparr>)" for x
    using assms by (simp add: off_points_def off_request_def)
  moreover have "\<exists>s' x. HvacRelayOutputs_execute junk tick t (s, p) = Inr (True, s',
      p\<lparr>mp_equipmentBeginTimes := x, mp_relayOutputs := relays_write r eNO_REQUEST (mp_relayOutputs p)\<rparr>)"
    unfolding HvacRelayOutputs_execute_def prod.case r(1) bindR_simps Let_def by (intro exI, rule refl)
  ultimately show ?thesis
    by metis
qed

definition off_inv :: "Algorithm_C \<Rightarrow> bool" where
  "off_inv a \<longleftrightarrow> off_points (snd (m_idtSelection a)) (snd (m_operatingMode a)) (snd (m_pi a)) (alg_points a) \<and>
     stages_off (alg_world a) \<and> m_equipment (snd (m_controlCooling a)) = Cooling 0 \<and>
     m_equipment (snd (m_controlIdHeating a)) = IndoorHeating 1 2 3 \<and> m_equipment (snd (m_controlOff a)) = OffEquipment \<and>
     alg_opened a"

lemma off_steps:
  "succeeds off_inv (idt_work t)" "succeeds off_inv (mode_work t)" "succeeds off_inv (preprocess_work t)"
  "succeeds off_inv (pi_work t)" "succeeds off_inv (cooling_work t)" "succeeds off_inv (heating_work t)"
  "succeeds off_inv (off_work t)" "succeeds off_inv (fan_work t)" "succeeds off_inv (filter_work t)"
  "succeeds off_inv (relay_work junk t)" "succeeds off_inv (post_work t)"
proof -
  show "succeeds off_inv (idt_work t)"
    unfolding idt_work_def by (rule work_succeeds) (use off_idt in \<open>fastforce simp: off_inv_def\<close>)+
  show "succeeds off_inv (mode_work t)"
    unfolding mode_work_def by (rule work_succeeds) (use off_mode_decision in \<open>fastforce simp: off_inv_def\<close>)+
  show "succeeds off_inv (preprocess_work t)"
    unfolding preprocess_work_def by (rule work_succeeds) (use off_preprocess in \<open>fastforce simp: off_inv_def\<close>)+
  show "succeeds off_inv (pi_work t)"
    unfolding pi_work_def by (rule work_succeeds) (use off_pi in \<open>fastforce simp: off_inv_def\<close>)+
  show "succeeds off_inv (cooling_work t)"
    unfolding cooling_work_def by (rule work_succeeds) (use off_control_other in \<open>fastforce simp: off_inv_def\<close>)+
  show "succeeds off_inv (heating_work t)"
    unfolding heating_work_def by (rule work_succeeds) (use off_control_other in \<open>fastforce simp: off_inv_def\<close>)+
  show "succeeds off_inv (off_work t)"
    unfolding off_work_def by (rule work_succeeds) (use off_control_off in \<open>fastforce simp: off_inv_def\<close>)+
  show "succeeds off_inv (fan_work t)"
    unfolding fan_work_def by (rule work_succeeds) (use off_fan in \<open>fastforce simp: off_inv_def\<close>)+
  show "succeeds off_inv (filter_work t)"
    unfolding filter_work_def by (rule work_succeeds) (use off_filter in \<open>fastforce simp: off_inv_def\<close>)+
  show "succeeds off_inv (relay_work junk t)"
    unfolding relay_work_def by (rule work_succeeds) (use off_relay in \<open>fastforce simp: off_inv_def\<close>)+
  have "off_points i m c (p\<lparr>mp_whiteBox := q\<rparr>)" if "off_points i m c p" for i m c p q
    by (rule off_points_view [OF that]) (simp_all add: off_view_def)
  then show "succeeds off_inv (post_work t)"
    unfolding post_work_def by (intro work_succeeds) (simp_all add: off_inv_def PostProcessing_execute_def)
qed

lemma expired_off:
  assumes "off_inv a"
  shows "\<exists>a'. expired junk t a = Inr a' \<and> off_inv a' \<and> alg_timer a' = Some 20"
proof -
  let ?a = "a\<lparr>alg_points := (alg_points a)\<lparr>mp_resetPiPulse := writeData False eNO_REQUEST (mp_resetPiPulse (alg_points a))\<rparr>\<rparr>"
  have "off_points i m c (p\<lparr>mp_resetPiPulse := q\<rparr>)" if "off_points i m c p" for i m c p q
    by (rule off_points_view [OF that]) (simp_all add: off_view_def)
  then have "off_inv ?a"
    using assms by (simp add: off_inv_def)
  then obtain a' where "chain (all_work junk t) (True, ?a) = Inr (True, a')" "off_inv a'"
    using succeeds_chain [of "all_work junk t" off_inv ?a] off_steps by (auto simp: all_work_def simp del: chain.simps)
  then show ?thesis
    by (simp add: expired_def off_inv_def)
qed

subsection \<open>Starting\<close>

lemma stages_off_reconfigure [simp]: "stages_off (reconfigure i k l w) = stages_off w"
  by (auto simp: stages_off_def reconfigure_def upd_stage_def idle_def)

lemma m_equipment_Control [simp]: "m_equipment (Control e) = e"
  by (simp add: Control_def)

lemma start_control_off:
  assumes "stages_off w" "m_equipment c \<in> {Cooling 0, IndoorHeating 1 2 3, OffEquipment}"
  shows "\<exists>w'. start_control time (b, c) (p, w) = Inr ((base_start time b, c), p, w') \<and> stages_off w'"
  using assms off_requests [of "reconfigure 0 0 0 w" "[0]"]
    off_requests [of "reconfigure 3 2 2 (reconfigure 2 1 1 (reconfigure 1 0 0 w))" "[1, 2, 3]"]
  by (auto simp: start_control_def Control_start_def Cooling_start_def Cooling_reset_def IndoorHeating_start_def
      IndoorHeating_reset_def Off_start_def answer_def)

lemma new_stages_off: "stages_off (new_stages stack)"
proof -
  have "queue_ok FsmEventQueue" "ring_items FsmEventQueue = []"
    using sample_idle [of BasicCooling 0 Off OnCycle] by (simp_all add: idle_def sample_stage_def Basic_def)
  then show ?thesis
    by (auto simp: stages_off_def new_stages_def initialize_def upd_stage_def Basic_def idle_def innermost_iff Let_def)
qed

lemma boot_points:
  "off_points (IdtSelection_start IdtSelection) (OperatingMode_start new_OperatingMode) (Pi_start (Precision_T 2 0) c)
     (model_points\<lparr>mp_loopCounter := q\<rparr>)"
proof -
  have "mode_inv (OperatingMode_start new_OperatingMode, model_points)"
    by (simp add: mode_inv_def model_points_def new_OperatingMode_def MpEquipmentConfig_def MpSystemConfig_def
        ModelPointCommon_def EquipmentConfig_validate_ok cfg_ok_def setToOff_def OperatingMode_start_def Let_def)
  moreover have "reasons False False (mp_systemForcedOffRefCnt model_points)" "\<not> m_valid (mp_userMode model_points)"
    "currentOpMode (m_data (mp_systemConfig model_points)) = eOFF"
    by (simp_all add: reasons_def model_points_def ModelPointCommon_def MpSystemConfig_def setToOff_def Let_def)
  moreover have "pi_inv (Pi_start (Precision_T 2 0) c, model_points)"
    by (simp add: Pi_start_def pi_inv_def pi_state_ok_def model_points_def MpSystemConfig_def
        ModelPointCommon_def cfg_ok_def setToOff_def Let_def)
  moreover have "outputs_off (m_data (mp_vOutputs model_points))" "relays_open (m_data (mp_relayOutputs model_points))"
    by (simp_all add: outputs_off_def model_points_def MpVirtualOutputs_def hookSetInvalid_def ModelPointCommon_def
        relays_open_def MpHvacRelayOutputs_def relays_zero_def) (simp add: vo_zero_def)
  ultimately show ?thesis
    by (simp add: off_points_def mode_inv_def pi_inv_def off_request_def IdtSelection_def IdtSelection_start_def
        new_OperatingMode_def OperatingMode_start_def)
qed

lemma request_open_off:
  "\<exists>a. request_open junk t (Algorithm b pre integ air stack model_points) = Inr a \<and> off_inv a \<and> alg_timer a = Some 20"
proof -
  let ?t = "Precision_T 2 0" and ?p = "model_points\<lparr>mp_loopCounter := writeData 0 eNO_REQUEST (mp_loopCounter model_points)\<rparr>"
  obtain w1 where w1: "start_control ?t (b, Control (Cooling 0)) (?p, new_stages stack)
      = Inr ((base_start ?t b, Control (Cooling 0)), ?p, w1)" "stages_off w1"
    using start_control_off [OF new_stages_off, of "Control (Cooling 0)" ?t b ?p] by auto
  obtain w2 where w2: "start_control ?t (b, Control (IndoorHeating 1 2 3)) (?p, w1)
      = Inr ((base_start ?t b, Control (IndoorHeating 1 2 3)), ?p, w2)" "stages_off w2"
    using start_control_off [OF w1(2), of "Control (IndoorHeating 1 2 3)" ?t b ?p] by auto
  obtain w3 where w3: "start_control ?t (b, Control OffEquipment) (?p, w2)
      = Inr ((base_start ?t b, Control OffEquipment), ?p, w3)" "stages_off w3"
    using start_control_off [OF w2(2), of "Control OffEquipment" ?t b ?p] by auto
  obtain a where a: "startComponents ((Algorithm b pre integ air stack model_points)\<lparr>alg_opened := True, alg_points := ?p\<rparr>) = Inr a"
    "off_inv a"
    using w1(1) w2(1) w3 boot_points
    by (auto simp: startComponents_def Algorithm_def Let_def off_inv_def simp del: bindR_eq_Inr)
  obtain a' where "expired junk t a = Inr a'" "off_inv a'" "alg_timer a' = Some 20"
    using expired_off [OF a(2)] by blast
  then show ?thesis
    using a by (simp add: request_open_def Algorithm_def)
qed

subsection \<open>Properties\<close>

text \<open>
  A pass of a thermostat that is asked to be off: before the pass the environment may change every point but
  those that only the components write; the equipment configuration stays in range.
\<close>

definition environment :: "points \<Rightarrow> points \<Rightarrow> bool" where
  "environment p p' \<longleftrightarrow> mp_systemConfig p' = mp_systemConfig p \<and> mp_systemForcedOffRefCnt p' = mp_systemForcedOffRefCnt p \<and>
     mp_vOutputs p' = mp_vOutputs p \<and> mp_relayOutputs p' = mp_relayOutputs p \<and> mp_pvOut p' = mp_pvOut p \<and>
     equipment_ok (m_data (mp_equipmentConfig p'))"

inductive off_pass :: "EquipmentTimes_T \<Rightarrow> Algorithm_C \<Rightarrow> Algorithm_C \<Rightarrow> bool" for junk where
  off_pass: "environment (alg_points a) p \<Longrightarrow> off_request (snd (m_idtSelection a)) p \<Longrightarrow>
     expired junk t (a\<lparr>alg_points := p\<rparr>) = Inr a' \<Longrightarrow> off_pass junk a a'"

lemma off_environment:
  assumes "off_inv a" "environment (alg_points a) p" "off_request (snd (m_idtSelection a)) p"
  shows "off_inv (a\<lparr>alg_points := p\<rparr>)"
proof -
  have e: "mp_systemConfig p = mp_systemConfig (alg_points a)" "mp_vOutputs p = mp_vOutputs (alg_points a)"
    "mp_systemForcedOffRefCnt p = mp_systemForcedOffRefCnt (alg_points a)" "mp_pvOut p = mp_pvOut (alg_points a)"
    "mp_relayOutputs p = mp_relayOutputs (alg_points a)" "equipment_ok (m_data (mp_equipmentConfig p))"
    using assms(2) by (simp_all add: environment_def)
  have "off_points (snd (m_idtSelection a)) (snd (m_operatingMode a)) (snd (m_pi a)) p"
    using assms(1,3) e(6) unfolding off_inv_def off_points_def mode_inv_def pi_inv_def prod.case e(1-5) by blast
  then show ?thesis
    using assms(1) by (simp add: off_inv_def)
qed

lemma off_pass_inv:
  assumes "off_pass junk a a'" "off_inv a"
  shows "off_inv a'"
  using assms(1)
proof cases
  case (off_pass p t)
  then show ?thesis
    using expired_off [OF off_environment [OF assms(2) off_pass(1,2)], of junk t] by auto
qed

lemma off_passes_inv: "(off_pass junk)\<^sup>*\<^sup>* a a' \<Longrightarrow> off_inv a \<Longrightarrow> off_inv a'"
  by (induction rule: rtranclp_induct) (blast intro: off_pass_inv)+

text \<open>
  C1. A thermostat that is off stays off. Whatever the uninitialised members hold, opening the algorithm with
  the model points as they are after a reset succeeds. From then on, as long as the user mode is off or
  unknown or the lost sensors have been noticed, every pass at every tick succeeds, however the environment
  changes the sensors, set-points, configurations and times between the passes, and after every pass all
  heating and compressor relays are open and the next pass is scheduled in 20 milliseconds.
\<close>

theorem thermostat_stays_off:
  "\<exists>a. request_open junk t (Algorithm b pre integ air stack model_points) = Inr a \<and>
     (\<forall>a'. (off_pass junk)\<^sup>*\<^sup>* a a' \<longrightarrow> relays_open (m_data (mp_relayOutputs (alg_points a'))) \<and>
        currentOpMode (m_data (mp_systemConfig (alg_points a'))) = eOFF \<and>
        (\<forall>p t'. environment (alg_points a') p \<and> off_request (snd (m_idtSelection a')) p \<longrightarrow>
           (\<exists>a''. expired junk t' (a'\<lparr>alg_points := p\<rparr>) = Inr a'' \<and> alg_timer a'' = Some 20)))"
proof -
  obtain a where a: "request_open junk t (Algorithm b pre integ air stack model_points) = Inr a" "off_inv a"
    using request_open_off by blast
  have "relays_open (m_data (mp_relayOutputs (alg_points a'))) \<and> currentOpMode (m_data (mp_systemConfig (alg_points a'))) = eOFF \<and>
      (\<forall>p t'. environment (alg_points a') p \<and> off_request (snd (m_idtSelection a')) p \<longrightarrow>
         (\<exists>a''. expired junk t' (a'\<lparr>alg_points := p\<rparr>) = Inr a'' \<and> alg_timer a'' = Some 20))" if "(off_pass junk)\<^sup>*\<^sup>* a a'" for a'
  proof -
    have i: "off_inv a'"
      by (rule off_passes_inv [OF that a(2)])
    then have "relays_open (m_data (mp_relayOutputs (alg_points a')))" "currentOpMode (m_data (mp_systemConfig (alg_points a'))) = eOFF"
      by (simp_all add: off_inv_def off_points_def)
    then show ?thesis
      using expired_off [OF off_environment [OF i]] by blast
  qed
  then show ?thesis
    using a(1) by blast
qed

definition sample_open :: "Algorithm_C result" where
  "sample_open = request_open times_zero (Precision_T 2 0) (Algorithm (Base (Precision_T 0 0) (Precision_T 0 0))
     \<lparr>m_prevActiveSetpoint = 0\<rparr> sample_pi \<lparr>m_blowerWasOn = False, m_markBlowerOn = Precision_T 0 0\<rparr>
     (sample_args eOFF_STATUS) model_points)"

theorem thermostat_stays_off_witness:
  "\<exists>a a'. sample_open = Inr a \<and> expired times_zero (Precision_T 4 0) a = Inr a' \<and> alg_timer a' = Some 20"
proof -
  obtain a where a: "sample_open = Inr a" "\<forall>p t'. environment (alg_points a) p \<and> off_request (snd (m_idtSelection a)) p \<longrightarrow>
      (\<exists>a''. expired times_zero t' (a\<lparr>alg_points := p\<rparr>) = Inr a'' \<and> alg_timer a'' = Some 20)"
    using thermostat_stays_off [of times_zero "Precision_T 2 0"] unfolding sample_open_def by blast
  have "off_inv a"
    using request_open_off a(1) unfolding sample_open_def by (metis sum.inject(2))
  then have "environment (alg_points a) (alg_points a)" "off_request (snd (m_idtSelection a)) (alg_points a)"
    by (auto simp: environment_def off_inv_def off_points_def mode_inv_def)
  then have "\<exists>a''. expired times_zero (Precision_T 4 0) (a\<lparr>alg_points := alg_points a\<rparr>) = Inr a'' \<and> alg_timer a'' = Some 20"
    using a(2) by blast
  then show ?thesis
    using a(1) by auto
qed

end
