(* ===== verification/Spec2Isabelle.thy ===== *)
theory Spec2Isabelle
  imports Checksum_Crc Persistent_Chunk Nv_Drivers Doubly_Linked_List Timer_Manager Text_String Text_Frame Model_Point Ring_Buffer
    Elapsed_Time Float_Arith Duty_Cycle Storm_Types Stage_Fsm Stage_Run Stage_Api Stage_Frame Virtual_Outputs Equipment Component_Base
    Thermostat_Points Idt_Selection Operating_Mode Pi_Controller Output_Components Control_Component Thermostat_Algorithm
begin

text \<open>
  A verification development for the Storm thermostat (src/src/Storm) and the parts of the Colony.Core library that it
  is built on (src/src/Cpl, src/src/Driver/NV).

  \<^bold>\<open>The program.\<close> The thermostat is one algorithm object that owns a fixed set of components and runs them in order each
  time its timer expires. The components know each other only through model points: values with a valid flag, a lock and
  a sequence number. A pass selects the temperature sensor, decides the operating mode, computes the load with a PI
  controller, lets the control component of the active equipment move its stages, and turns the virtual outputs into
  relays. Each stage is a hierarchical state machine with an event queue that cycles its unit on and off. The library
  below provides the model points and their change notifications, software timers on a linked list, time arithmetic, ring
  buffers, strings, the framing of text on streams, and the storage of records on EEPROMs with checksums and two copies.

  \<^bold>\<open>Conventions\<close> (theory Prelude). Integers have the width they have on the targets (\<open>u8\<close>, \<open>u16\<close>, \<open>u32\<close>, \<open>u64\<close>; size_t and
  unsigned long are 32 bits) and wrap. Code that can hit a failed assertion, an access outside of an object, a dangling
  pointer or an undefined conversion returns \<open>failure + 'a\<close>, so that "succeeds" in a theorem excludes all of them.
  Objects that point to each other live in explicit stores that map addresses to records. Virtual methods, clients,
  streams, clocks, storage devices and uninitialised memory are arguments of the definitions. The locale \<open>refinement\<close>
  lifts a simulation of single operations to all sequences of operations; the lists, the timers and the strings are
  interpretations of it.

  \<^bold>\<open>Library theories.\<close>

  \<^item> Ring_Buffer (Container/RingBuffer.h): \<open>add\<close>, \<open>remove\<close>, peeks and the block operations on the element memory. The
    locale \<open>bounded_queue\<close> is the contract that the event queue of the stages uses. All runs answer like a bounded queue.

  \<^item> Doubly_Linked_List (Container/DList.h, Item.cpp): a store of link fields. All sequences of calls on lists that share
    their items answer like operations on sequences; clearing and moving a list end. These two loops are
    \<open>partial_function (option)\<close>; the lemmas show that they return.

  \<^item> Timer_Manager (System/TimerManager.cpp, Timer.cpp): the active list with relative counts and the pending list, on the
    lists above. All runs refine a schedule of remaining times. The log of a run with arbitrary callbacks (\<open>history_step\<close>)
    shows that a timer expires only when its last event is a start, and, when it was started after the first pass, in the
    first pass that is not before its time. A lemma shows that a timer that is started before the first pass is late.

  \<^item> Elapsed_Time (System/ElapsedTime.h, .cpp, ElapsedTime2.cpp): seconds with thousandths, their comparison, and
    expiration over the wrap of the counters.

  \<^item> Float_Arith, Duty_Cycle (Storm/Utils/DutyCycle.cpp, Math/real.h): binary32 and binary64 rounding on rationals, and the on
    and off times for a load: they are monotone, and the last property gives the loads near zero and near the full range for which the
    conversion to the integer type is undefined, and bounds within which it is defined.

  \<^item> Model_Point (Dm/ModelPointCommon_.cpp, Subscriber.cpp, EventLoop.cpp, Mp/RefCounter.cpp, Mp/Numeric.h): the point
    itself and the protocol between a point, its subscribers and the event loops that deliver notifications. The loop
    over the subscribers has the length of their list as fuel; the soundness property shows that no run exhausts it.

  \<^item> Text_String (Text/String_.cpp, FString_.cpp): strings on a block of memory; every sequence of operations refines
    texts of limited length and stays inside the block.

  \<^item> Text_Frame (Text/Frame): encoders with \<open>text_sink\<close> as the contract of their destinations, decoders with \<open>char_source\<close> as
    the contract of their inputs. Frames of the documented characters make the round trip through any pieces and after noise, the block encoder
    equals the unbuffered one, and the line decoder returns the next line.

  \<^item> Checksum_Crc (Checksum/Crc32EthernetFast.cpp): the table equals the bitwise division; bursts up to 32 bits are found.

  \<^item> Persistent_Chunk (Persistent/NVAdapter.cpp, MirroredChunk.cpp, CrcChunk.cpp): \<open>nv_memory\<close> is the contract of a storage
    device and \<open>region_media\<close> and \<open>mirrored_media\<close> the contracts of the regions that the adapter makes of it. The
    contract has a number of bytes after which the power fails. Saved records are loaded again; a failure of the power
    leaves one good copy; but one theorem shows that the next load can return a mixture of the two records.

  \<^item> Nv_Drivers (Driver/NV/Onsemi/CAT24C512/Api.cpp, Gang.cpp): the EEPROM driver for every chip that keeps the laws of
    \<open>eeprom_chip\<close>, and the gang over drivers that keep those of \<open>gang_parts\<close>. Both are instances of \<open>nv_memory\<close>.

  \<^bold>\<open>Thermostat theories.\<close>

  \<^item> Storm_Types, Thermostat_Points, Virtual_Outputs (Storm/Type, Storm/Dm, Thermostat/ModelPoints.cpp): the structures, the
    range checks of the writers, and the record \<open>points\<close> with all points that the components share. The set-points
    stay ordered and in range; no virtual output exceeds 100 percent, unless the data was
    copied from another point or imported, which nothing checks.

  \<^item> Stage_Fsm, Stage_Run, Stage_Frame, Stage_Api (Component/Equipment/Stage): the state machine, its queue and actions, as
    the generated code has them. \<open>stage_fuel\<close> (40) bounds the nested calls and the queued events of one operation; the
    theorems on stages at rest show that the operations return, so it is enough. A periodic call refines the duty cycle of
    its specification and takes a stage out of its on and off times only after they have passed, and the hand-over between stages
    leaves both in step. Stage_Frame collects what no event can change.

  \<^item> Equipment (Component/Equipment/Cooling.cpp, IndoorHeating.cpp, Off.cpp): which stages run for a load. Both classes
    refine a specification in terms of levels and respect the minimum off times of the compressor and the heater.

  \<^item> Component_Base (Component/Base.cpp): the locale \<open>component\<close> has the time keeping that the components inherit; a
    component runs once per interval, does not drift when it is late, and counts a slip when it misses
    one. \<open>main_loop\<close> runs a component over a list of ticks, with what the rest of the program does to the points before each
    pass. The operating mode, the PI controller, the fan, the relays and the control component are interpretations of it.

  \<^item> Idt_Selection, Operating_Mode, Pi_Controller, Output_Components, Control_Component (Component/*.cpp): one definition per
    method. The mode decision is safe for all inputs, the reference counter that forces the system off is balanced over
    all interleavings, the load is bounded
    in every environment that leaves its point alone, the relays are open when the system is forced off, and a pass of the control
    component refines the equipment. One theorem shows that a change of the configuration uses a stale argument block.

  \<^item> Thermostat_Algorithm (Thermostat/Algorithm.cpp): construction, start, the pass over all components, open and close.
    From reset on, a thermostat that is switched off keeps all heating and compressor relays open, for all inputs.

  \<^bold>\<open>This theory\<close> holds the property that spans the storage theories: a record on a gang of devices.

  \<^bold>\<open>Not modelled.\<close> Threads, mutexes and message passing (the operations of the model are the critical sections), the
  JSON conversions of the points (the ArduinoJson library), the record servers and indexed records of the storage, files
  and sockets, the console, logging, the display, the board support and hardware drivers other than the storage ones, the
  simulated house, and the library containers, allocators and text functions that the modelled parts do not use. The
  chip of the EEPROM and the I2C bus are parameters; \<open>chip_bus\<close> follows the data sheet and shows that their laws can hold,
  as \<open>ram_driver\<close> does for the storage contract.
\<close>






end
